(* ===== verification/Prelude.thy ===== *)
theory Prelude
  imports Main "HOL-Library.Word" "HOL-Library.Sublist"
begin

text \<open>
  What the components share: the outcome of a Go computation that may panic, byte strings
  with Go's bounds checks, and the generic list lemmas the proofs rest on.

  A Go string is a sequence of bytes, and HOL's \<^typ>\<open>string\<close> is a list of 8-bit
  characters, so \<^term>\<open>length\<close> counts bytes as \<open>len\<close> does.  An index or a slice
  expression out of range panics; it is a value of type \<open>panic\<close>, never HOL's unspecified
  element.
\<close>

named_theorems go_res \<open>inversion rules for computations that may panic\<close>

section \<open>Outcomes\<close>

datatype panic =
    PanicMsg string            \<comment> \<open>\<open>panic(\"...\")\<close> called by the program\<close>
  | IndexOutOfRange            \<comment> \<open>runtime: \<open>xs[i]\<close> with \<open>i\<close> outside \<open>xs\<close>\<close>
  | SliceBounds                \<comment> \<open>runtime: \<open>xs[a:b]\<close> outside the length or capacity\<close>
  | NilDeref                   \<comment> \<open>runtime: nil pointer dereference\<close>

type_synonym 'a res = "panic + 'a"

definition rbind :: "'e + 'a \<Rightarrow> ('a \<Rightarrow> 'e + 'b) \<Rightarrow> 'e + 'b" where
  "rbind m f = (case m of Inl e \<Rightarrow> Inl e | Inr x \<Rightarrow> f x)"

lemma rbind_simps [simp]:
  "rbind (Inl e) f = Inl e"
  "rbind (Inr x) f = f x"
  by (simp_all add: rbind_def)

lemma rbind_eq_Inr [go_res]:
  "rbind m f = Inr y \<longleftrightarrow> (\<exists>x. m = Inr x \<and> f x = Inr y)"
  by (cases m) auto

lemma rbind_eq_Inl [go_res]:
  "rbind m f = Inl e \<longleftrightarrow> m = Inl e \<or> (\<exists>x. m = Inr x \<and> f x = Inl e)"
  by (cases m) auto

lemma rbind_assoc: "rbind (rbind m f) g = rbind m (\<lambda>x. rbind (f x) g)"
  by (cases m) auto

lemma rbind_cong [fundef_cong]:
  "m = m' \<Longrightarrow> (\<And>x. m' = Inr x \<Longrightarrow> f x = f' x) \<Longrightarrow> rbind m f = rbind m' f'"
  by (cases m') auto

definition panics :: "panic + 'a \<Rightarrow> bool" where
  "panics m \<longleftrightarrow> (case m of Inl _ \<Rightarrow> True | Inr _ \<Rightarrow> False)"

lemma panics_simps [simp]: "panics (Inl e)" "\<not> panics (Inr x)"
  by (simp_all add: panics_def)

lemma panics_iff: "panics m \<longleftrightarrow> (\<forall>x. m \<noteq> Inr x)"
  by (cases m) auto

section \<open>Byte strings\<close>

text \<open>\<open>url.Values\<close> and \<open>http.Header\<close>: a key that is not there is read as the nil slice.\<close>

type_synonym form = "string \<rightharpoonup> string list"

definition values_at :: "form \<Rightarrow> string \<Rightarrow> string list" where
  "values_at form key = (case form key of None \<Rightarrow> [] | Some vs \<Rightarrow> vs)"

definition get_first :: "form \<Rightarrow> string \<Rightarrow> string" where
  "get_first f key = (case values_at f key of [] \<Rightarrow> [] | v # _ \<Rightarrow> v)"

text \<open>\<open>s[a:b]\<close>, \<open>s[a:]\<close> and \<open>s[i]\<close>.\<close>

definition substr :: "'a list \<Rightarrow> nat \<Rightarrow> nat \<Rightarrow> 'a list res" where
  "substr s a b =
     (if a \<le> b \<and> b \<le> length s then Inr (take (b - a) (drop a s)) else Inl SliceBounds)"

definition suffix_from :: "'a list \<Rightarrow> nat \<Rightarrow> 'a list res" where
  "suffix_from s a = (if a \<le> length s then Inr (drop a s) else Inl SliceBounds)"

definition index_at :: "'a list \<Rightarrow> nat \<Rightarrow> 'a res" where
  "index_at s i = (if i < length s then Inr (s ! i) else Inl IndexOutOfRange)"

lemma substr_eq_Inr [go_res]:
  "substr s a b = Inr t \<longleftrightarrow> a \<le> b \<and> b \<le> length s \<and> t = take (b - a) (drop a s)"
  by (auto simp: substr_def)

lemma suffix_from_eq_Inr [go_res]:
  "suffix_from s a = Inr t \<longleftrightarrow> a \<le> length s \<and> t = drop a s"
  by (auto simp: suffix_from_def)

lemma index_at_eq_Inr [go_res]:
  "index_at s i = Inr x \<longleftrightarrow> i < length s \<and> x = s ! i"
  by (auto simp: index_at_def)

text \<open>The loop \<open>for i < max && a[i] == b[i] { i++ }\<close>: length of the longest common prefix.\<close>

fun lcp :: "'a list \<Rightarrow> 'a list \<Rightarrow> nat" where
  "lcp (x # xs) (y # ys) = (if x = y then Suc (lcp xs ys) else 0)"
| "lcp _ _ = 0"

lemma lcp_le1: "lcp xs ys \<le> length xs"
  by (induction xs ys rule: lcp.induct) auto

lemma lcp_le2: "lcp xs ys \<le> length ys"
  by (induction xs ys rule: lcp.induct) auto

lemma lcp_take: "take (lcp xs ys) xs = take (lcp xs ys) ys"
  by (induction xs ys rule: lcp.induct) auto

lemma lcp_differ:
  "lcp xs ys < length xs \<Longrightarrow> lcp xs ys < length ys \<Longrightarrow> xs ! lcp xs ys \<noteq> ys ! lcp xs ys"
  by (induction xs ys rule: lcp.induct) auto

lemma lcp_Nil [simp]: "lcp [] ys = 0" "lcp xs [] = 0"
  by (cases xs; simp)+

lemma lcp_eq_length2: "lcp xs ys = length ys \<longleftrightarrow> prefix ys xs"
  by (induction xs ys rule: lcp.induct) auto

lemma lcp_eq_length1: "lcp xs ys = length xs \<longleftrightarrow> prefix xs ys"
  by (induction xs ys rule: lcp.induct) auto

text \<open>The loop over \<open>indices\<close>: the first position that holds the byte.\<close>

fun indexByte :: "'a \<Rightarrow> 'a list \<Rightarrow> nat option" where
  "indexByte c [] = None"
| "indexByte c (x # xs) = (if c = x then Some 0 else map_option Suc (indexByte c xs))"

lemma indexByte_eq_None: "indexByte c xs = None \<longleftrightarrow> c \<notin> set xs"
  by (induction xs) auto

lemma indexByte_SomeD: "indexByte c xs = Some i \<Longrightarrow> i < length xs \<and> xs ! i = c"
  by (induction xs arbitrary: i) (auto split: if_splits)

lemma indexByte_distinct:
  "distinct xs \<Longrightarrow> i < length xs \<Longrightarrow> indexByte (xs ! i) xs = Some i"
  by (induction xs arbitrary: i) (auto simp: nth_Cons' split: if_splits)

lemma indexByte_append1: "c \<in> set xs \<Longrightarrow> indexByte c (xs @ ys) = indexByte c xs"
  by (induction xs) auto

lemma indexByte_append2:
  "c \<notin> set xs \<Longrightarrow> indexByte c (xs @ ys) = map_option ((+) (length xs)) (indexByte c ys)"
proof (induction xs)
  case Nil
  show ?case by (cases "indexByte c ys") simp_all
next
  case (Cons x xs)
  then show ?case by (cases "indexByte c ys") auto
qed

text \<open>\<open>strings.Index(s, sub)\<close>: the first position at which \<open>sub\<close> occurs, if any.\<close>

fun str_index :: "string \<Rightarrow> string \<Rightarrow> nat option" where
  "str_index [] sub = (if sub = [] then Some 0 else None)"
| "str_index (c # s) sub =
     (if prefix sub (c # s) then Some 0 else map_option Suc (str_index s sub))"

definition str_contains :: "string \<Rightarrow> string \<Rightarrow> bool" where
  "str_contains s sub \<longleftrightarrow> str_index s sub \<noteq> None"

lemma str_index_Nil: "sub \<noteq> [] \<Longrightarrow> str_index [] sub = None"
  by simp

section \<open>Lists\<close>

lemma prefix_takeD: "prefix xs ys \<Longrightarrow> ys = xs @ drop (length xs) ys"
  by (auto simp: prefix_def)

lemma take_eq_prefix: "take (length xs) ys = xs \<longleftrightarrow> prefix xs ys"
  by (metis append_eq_conv_conj append_take_drop_id prefix_def)

lemma takeWhile_all_not: "c \<notin> set xs \<Longrightarrow> takeWhile (\<lambda>x. x \<noteq> c) xs = xs"
  by (induction xs) auto

lemma takeWhile_neq_append:
  "c \<notin> set xs \<Longrightarrow> takeWhile (\<lambda>x. x \<noteq> c) (xs @ c # ys) = xs"
  by (induction xs) auto

lemma nth_le_sum_list: "i < length xs \<Longrightarrow> f (xs ! i) \<le> sum_list (map f xs)" for f :: "'a \<Rightarrow> nat"
  by (metis elem_le_sum_list length_map nth_map)

end
