(* ===== verification/RouteTree.thy ===== *)
theory RouteTree
  imports Prelude
begin

text \<open>
  The radix tree of \<open>core/tree.go\<close>: its nodes, the registration of a route
  (\<open>addRoute\<close>, \<open>insertChild\<close>, \<open>incrementChildPrio\<close>) and the lookup of a request path
  (\<open>getValue\<close>).  A node is a record of its scalar fields and the list of its children; a
  \<open>*routerNode\<close> that the code walks down and mutates in place is the subtree returned
  updated and put back into its parent.  No two parents share a child, so the tree of values
  loses no aliasing.  A handler chain \<open>[]*handleFuncNode\<close> is a list, and the nil slice that
  the code tests with \<open>handle != nil\<close> is \<open>None\<close>.  A panic is the left value of the sum.
\<close>

unbundle bit_operations_syntax

section \<open>Nodes\<close>

datatype node_type = Static | Root | Param | CatchAll

text \<open>The constants are numbered by \<open>iota\<close>; the order of the numbers is the order of the type.\<close>

fun nodeType_code :: "node_type \<Rightarrow> nat" where
  "nodeType_code Static = 0"
| "nodeType_code Root = 1"
| "nodeType_code Param = 2"
| "nodeType_code CatchAll = 3"

lemma nodeType_code_inject: "nodeType_code a = nodeType_code b \<longleftrightarrow> a = b"
  by (cases a; cases b) auto

instantiation node_type :: linorder
begin

definition less_eq_node_type :: "node_type \<Rightarrow> node_type \<Rightarrow> bool" where
  "less_eq_node_type a b \<longleftrightarrow> nodeType_code a \<le> nodeType_code b"

definition less_node_type :: "node_type \<Rightarrow> node_type \<Rightarrow> bool" where
  "less_node_type a b \<longleftrightarrow> nodeType_code a < nodeType_code b"

instance
  by standard (auto simp: less_eq_node_type_def less_node_type_def nodeType_code_inject)

end

record 'h node_fields =
  fullPath :: string
  path :: string
  wildChild :: bool
  nType :: node_type
  maxParams :: "8 word"
  priority :: "32 word"
  indices :: string
  handle :: "'h list option"

datatype 'h router_node =
  RouterNode (info: "'h node_fields") (children: "'h router_node list")

text \<open>\<open>new(routerNode)\<close>: every field has its zero value.\<close>

definition zero_fields :: "'h node_fields" where
  "zero_fields = \<lparr>fullPath = [], path = [], wildChild = False, nType = Static, maxParams = 0,
     priority = 0, indices = [], handle = None\<rparr>"

definition zero_node :: "'h router_node" where
  "zero_node = RouterNode zero_fields []"

declare zero_fields_def [code_unfold] zero_node_def [code_unfold]

definition maxParamCount :: "8 word" where
  "maxParamCount = NOT 0"

lemma unat_maxParamCount [simp]: "unat maxParamCount = 255"
  by (simp add: maxParamCount_def unsigned_minus_1_eq_mask mask_eq_exp_minus_1)

definition is_wild :: "char \<Rightarrow> bool" where
  "is_wild c \<longleftrightarrow> c = CHR '':'' \<or> c = CHR ''*''"

text \<open>
  The loop ranges over runes; \<open>':'\<close> and \<open>'*'\<close> are single bytes and no byte of a longer rune
  equals them, so counting bytes counts the same.
\<close>

definition wildcardNum :: "string \<Rightarrow> 8 word" where
  "wildcardNum p =
     (let n = length (filter is_wild p)
      in if n \<ge> unat maxParamCount then maxParamCount else of_nat n)"

section \<open>Priorities\<close>

text \<open>The loop that swaps a child with its left neighbour while that has a smaller priority.\<close>

fun bubble_left :: "'h router_node list \<Rightarrow> nat \<Rightarrow> 32 word \<Rightarrow> 'h router_node list \<times> nat" where
  "bubble_left cs 0 prio = (cs, 0)"
| "bubble_left cs (Suc k) prio =
     (if priority (info (cs ! k)) < prio
      then bubble_left (cs[k := cs ! Suc k, Suc k := cs ! k]) k prio
      else (cs, Suc k))"

definition bump_priority :: "'h router_node \<Rightarrow> 'h router_node" where
  "bump_priority n = RouterNode ((info n)\<lparr>priority := priority (info n) + 1\<rparr>) (children n)"

definition incrementChildPrio :: "nat \<Rightarrow> 'h router_node \<Rightarrow> ('h router_node \<times> nat) res" where
  "incrementChildPrio idx r =
     (let cs = children r; f = info r in
      if idx < length cs then
        let c = bump_priority (cs ! idx);
            (cs', newIdx) = bubble_left (cs[idx := c]) idx (priority (info c))
        in if newIdx \<noteq> idx then
             rbind (substr (indices f) 0 newIdx) (\<lambda>a.
             rbind (substr (indices f) newIdx (idx + 1)) (\<lambda>b.
             rbind (substr (indices f) newIdx idx) (\<lambda>c.
             rbind (suffix_from (indices f) (idx + 1)) (\<lambda>d.
               Inr (RouterNode (f\<lparr>indices := a @ b @ c @ d\<rparr>) cs', newIdx)))))
           else Inr (RouterNode f cs', newIdx)
      else Inl IndexOutOfRange)"

section \<open>Inserting the wildcard part of a route\<close>

text \<open>
  The inner loop of \<open>insertChild\<close> that looks for the end of a wildcard: \<open>None\<close> is the panic
  on a second wildcard in the same segment.
\<close>

fun wildcard_end :: "string \<Rightarrow> nat \<Rightarrow> nat option" where
  "wildcard_end [] e = Some e"
| "wildcard_end (c # cs) e =
     (if c = CHR ''/'' then Some e
      else if is_wild c then None
      else wildcard_end cs (Suc e))"

definition msg_one_wildcard :: "string \<Rightarrow> nat \<Rightarrow> string \<Rightarrow> panic" where
  "msg_one_wildcard p i full = PanicMsg
     (''only one wildcard per path segment is allowed, has: '' @ [CHR 0x27] @ drop i p @ [CHR 0x27] @
      '' in path '' @ [CHR 0x27] @ full @ [CHR 0x27])"

definition msg_existing_children :: "string \<Rightarrow> string \<Rightarrow> panic" where
  "msg_existing_children w full = PanicMsg
     (''wildcard route '' @ [CHR 0x27] @ w @ [CHR 0x27] @
      '' conflicts with existing children in path '' @ [CHR 0x27] @ full @ [CHR 0x27])"

definition msg_empty_name :: "string \<Rightarrow> panic" where
  "msg_empty_name full = PanicMsg
     (''wildcards must be named with a non-empty name in path '' @ [CHR 0x27] @ full @ [CHR 0x27])"

definition msg_catchall_end :: "string \<Rightarrow> panic" where
  "msg_catchall_end full = PanicMsg
     (''catch-all routes are only allowed at the end of the path in path '' @ [CHR 0x27] @ full @
      [CHR 0x27])"

definition msg_catchall_root :: "string \<Rightarrow> panic" where
  "msg_catchall_root full = PanicMsg
     (''catch-all conflicts with existing handle for the path segment root in path '' @ [CHR 0x27] @
      full @ [CHR 0x27])"

definition msg_no_slash :: "string \<Rightarrow> panic" where
  "msg_no_slash full = PanicMsg
     (''no / before catch-all in path '' @ [CHR 0x27] @ full @ [CHR 0x27])"

text \<open>
  The catch-all branch (lines 308 to 351): \<open>i\<close> is the position of \<open>'*'\<close> and \<open>i - 1\<close> that of
  the slash in front of it; for \<open>i = 0\<close> the code reads \<open>path[-1]\<close>.
\<close>

definition insert_catchAll ::
  "8 word \<Rightarrow> string \<Rightarrow> string \<Rightarrow> 'h list option \<Rightarrow> nat \<Rightarrow> nat \<Rightarrow> nat \<Rightarrow> 'h node_fields
   \<Rightarrow> 'h router_node res" where
  "insert_catchAll wildcard p full h offset i e f =
     (if e \<noteq> length p \<or> wildcard > 1 then Inl (msg_catchall_end full)
      else if path f \<noteq> [] \<and> last (path f) = CHR ''/'' then Inl (msg_catchall_root full)
      else if i = 0 then Inl IndexOutOfRange
      else let i = i - 1 in
        if p ! i \<noteq> CHR ''/'' then Inl (msg_no_slash full)
        else
          rbind (substr p offset i) (\<lambda>pre.
            let variable = RouterNode (zero_fields\<lparr>path := drop i p, nType := CatchAll,
                  maxParams := 1, handle := h, priority := 1\<rparr>) [];
                child = RouterNode (zero_fields\<lparr>wildChild := True, nType := CatchAll,
                  maxParams := 1, priority := 1\<rparr>) [variable]
            in Inr (RouterNode (f\<lparr>path := pre,
                  maxParams := (if maxParams f < 1 then 1 else maxParams f),
                  indices := [p ! i]\<rparr>) [child])))"

text \<open>
  The scan over the path (lines 244 to 352), with the current node \<open>n\<close>, the number of bytes
  already stored (\<open>offset\<close>) and the wildcards still to come.  The nodes it creates hang below
  \<open>n\<close>: the recursive call returns the child filled in.
\<close>

function insert_loop ::
  "8 word \<Rightarrow> string \<Rightarrow> string \<Rightarrow> 'h list option \<Rightarrow> nat \<Rightarrow> nat \<Rightarrow> 'h router_node
   \<Rightarrow> 'h router_node res" where
  "insert_loop wildcard p full h offset i n =
     (if wildcard = 0 then Inr n
      else if i \<ge> length p then Inl IndexOutOfRange
      else if \<not> is_wild (p ! i) then insert_loop wildcard p full h offset (Suc i) n
      else (case wildcard_end (drop (Suc i) p) (Suc i) of
        None \<Rightarrow> Inl (msg_one_wildcard p i full)
      | Some e \<Rightarrow>
        if children n \<noteq> [] then Inl (msg_existing_children (take (e - i) (drop i p)) full)
        else if e - i < 2 then Inl (msg_empty_name full)
        else if p ! i = CHR '':'' then
          rbind (if i > 0 then substr p offset i else Inr (path (info n))) (\<lambda>pre.
          let offset1 = (if i > 0 then i else offset);
              f1 = (info n)\<lparr>path := pre, wildChild := True\<rparr>;
              pf = zero_fields\<lparr>nType := Param, maxParams := wildcard, priority := 1\<rparr>;
              wildcard1 = wildcard - 1
          in if e < length p then
               rbind (substr p offset1 e) (\<lambda>name.
               rbind (insert_loop wildcard1 p full h e (Suc i)
                        (RouterNode (zero_fields\<lparr>maxParams := wildcard1, priority := 1\<rparr>) []))
                 (\<lambda>d. Inr (RouterNode f1 [RouterNode (pf\<lparr>path := name\<rparr>) [d]])))
             else
               rbind (insert_loop wildcard1 p full h offset1 (Suc i) (RouterNode pf []))
                 (\<lambda>c. Inr (RouterNode f1 [c])))
        else insert_catchAll wildcard p full h offset i e (info n)))"
  by pat_completeness auto
termination
  by (relation "measure (\<lambda>(w, p, full, h, offset, i, n). length p - i)") auto

declare insert_loop.simps [simp del]

definition insertChild ::
  "8 word \<Rightarrow> string \<Rightarrow> string \<Rightarrow> 'h list option \<Rightarrow> 'h router_node \<Rightarrow> 'h router_node res" where
  "insertChild wildcard p full h n =
     (if wildcard = 0
      then Inr (RouterNode ((info n)\<lparr>path := p, handle := h\<rparr>) (children n))
      else insert_loop wildcard p full h 0 0 n)"

end
