(* ===== verification/TreeInsert.thy ===== *)
theory TreeInsert
  imports RouteTree "HOL-Library.Multiset"
begin

text \<open>
  \<open>addRoute\<close> of \<open>core/tree.go\<close>: the walk down the tree that splits edges, raises priorities
  and hands the rest of the path to \<open>insertChild\<close>.  The loop \<open>walk\<close> is a recursive function on
  the current node that returns the node updated; its termination rests on \<open>nodes\<close>, the number
  of nodes, which no step of the walk increases on the way to a child.
\<close>

section \<open>Size of a tree and the effect of a priority step\<close>

fun nodes :: "'h router_node \<Rightarrow> nat" where
  "nodes (RouterNode f cs) = Suc (sum_list (map nodes cs))"

lemma nodes_child: "i < length cs \<Longrightarrow> nodes (cs ! i) < nodes (RouterNode f cs)"
  using nth_le_sum_list [of i cs nodes] by simp

lemma nodes_bump [simp]: "nodes (bump_priority n) = nodes n"
  by (cases n) (simp add: bump_priority_def)

lemma fields_bump [simp]:
  "info (bump_priority n) = (info n)\<lparr>priority := priority (info n) + 1\<rparr>"
  "children (bump_priority n) = children n"
  by (simp_all add: bump_priority_def)

text \<open>The swaps move the child at \<open>k\<close> to \<open>j\<close> and shift those between by one place.\<close>

lemma bubble_left_rotates:
  assumes "bubble_left cs k prio = (cs', j)" and "k < length cs"
  shows "j \<le> k" and "cs' = take j cs @ cs ! k # take (k - j) (drop j cs) @ drop (Suc k) cs"
  using assms
proof (induction cs k prio arbitrary: cs' j rule: bubble_left.induct)
  case (1 cs prio)
  {
    case 1
    then show ?case by simp
  next
    case 2
    then show ?case by (simp add: Cons_nth_drop_Suc)
  }
next
  case (2 cs k prio)
  let ?sw = "cs[k := cs ! Suc k, Suc k := cs ! k]"
  {
    case 1
    then show ?case using 2(1) [of cs' j] by (cases "priority (info (cs ! k)) < prio") fastforce+
  next
    case 2
    show ?case
    proof (cases "priority (info (cs ! k)) < prio")
      case False
      with 2 show ?thesis by (simp add: id_take_nth_drop)
    next
      case True
      with 2 have b: "bubble_left ?sw k prio = (cs', j)" and k: "k < length ?sw" by simp_all
      note IH = "2.IH"(1) [OF True b k] "2.IH"(2) [OF True b k]
      have j: "j \<le> k" by (rule IH(1))
      have nth: "?sw ! k = cs ! Suc k" using 2 by simp
      have tk: "take j ?sw = take j cs" using j by simp
      have dk: "drop (Suc k) ?sw = cs ! k # drop (Suc (Suc k)) cs"
        using 2 by (simp add: drop_update_swap Cons_nth_drop_Suc [symmetric])
      have md: "take (k - j) (drop j ?sw) = take (k - j) (drop j cs)"
        using j by (simp add: drop_update_swap)
      have "take (Suc k - j) (drop j cs) = take (k - j) (drop j cs) @ [cs ! k]"
        using j 2 by (simp add: Suc_diff_le take_Suc_conv_app_nth)
      with IH(2) nth tk dk md show ?thesis by simp
    qed
  }
qed


lemma incrementChildPrio_Inr:
  assumes "incrementChildPrio idx r = Inr (r', j)"
  shows "idx < length (children r)" and "j \<le> idx"
    and "children r' = take j (children r) @ bump_priority (children r ! idx) #
           take (idx - j) (drop j (children r)) @ drop (Suc idx) (children r)"
proof -
  let ?cs = "children r"
  let ?bs = "?cs[idx := bump_priority (?cs ! idx)]"
  from assms show idx: "idx < length ?cs"
    by (auto simp: incrementChildPrio_def Let_def split: if_splits)
  obtain cs' k where b: "bubble_left ?bs idx (priority (info (bump_priority (?cs ! idx)))) = (cs', k)"
    by fastforce
  with assms idx have "j = k" and cs': "children r' = cs'"
    by (auto simp: incrementChildPrio_def Let_def go_res split: if_splits)
  note rot = bubble_left_rotates [OF b]
  from rot(1) idx \<open>j = k\<close> show "j \<le> idx" by simp
  with rot(2) idx \<open>j = k\<close> cs'
  show "children r' = take j ?cs @ bump_priority (?cs ! idx) #
      take (idx - j) (drop j ?cs) @ drop (Suc idx) ?cs"
    by (simp add: drop_update_swap)
qed

lemma incrementChildPrio_child:
  assumes "incrementChildPrio idx r = Inr (r', j)"
  shows "children r' ! j = bump_priority (children r ! idx)" and "j < length (children r')"
    and "length (children r') = length (children r)"
  using incrementChildPrio_Inr [OF assms] by (auto simp: nth_append min_def)

lemma incrementChildPrio_mset:
  assumes "incrementChildPrio idx r = Inr (r', j)"
  shows "mset (children r') =
    mset ((children r)[idx := bump_priority (children r ! idx)])"
proof -
  let ?cs = "children r" and ?b = "bump_priority (children r ! idx)"
  note inc = incrementChildPrio_Inr [OF assms]
  have "?cs = take j ?cs @ take (idx - j) (drop j ?cs) @ drop idx ?cs"
    by (metis append_take_drop_id drop_drop inc(2) le_add_diff_inverse2)
  then have "mset ?cs = mset (take j ?cs) + mset (take (idx - j) (drop j ?cs)) + mset (drop idx ?cs)"
    by (metis mset_append union_assoc)
  moreover have "?cs[idx := ?b] = take idx ?cs @ ?b # drop (Suc idx) ?cs"
    using inc(1) by (simp add: upd_conv_take_nth_drop)
  moreover have "take idx ?cs = take j ?cs @ take (idx - j) (drop j ?cs)"
    using inc(2) by (metis le_add_diff_inverse take_add)
  ultimately show ?thesis using inc(3) by (simp add: union_ac)
qed

lemma incrementChildPrio_nodes:
  assumes "incrementChildPrio idx r = Inr (r', j)"
  shows "nodes (children r' ! j) < nodes r"
  using incrementChildPrio_child(1) [OF assms] incrementChildPrio_Inr(1) [OF assms]
    nodes_child [of idx "children r" "info r"] by simp

section \<open>addRoute\<close>

text \<open>Lines 124 to 146: the node keeps the first \<open>i\<close> bytes, a new child takes the rest.\<close>

definition max_of_children :: "'h router_node list \<Rightarrow> 8 word" where
  "max_of_children cs =
     fold (\<lambda>c m. if maxParams (info c) > m then maxParams (info c) else m) cs 0"

definition split_edge :: "nat \<Rightarrow> string \<Rightarrow> 'h router_node \<Rightarrow> 'h router_node" where
  "split_edge i p n =
     (let f = info n;
          child = RouterNode (zero_fields\<lparr>path := drop i (path f), wildChild := wildChild f,
            nType := Static, indices := indices f, handle := handle f,
            priority := priority f - 1, maxParams := max_of_children (children n)\<rparr>) (children n)
      in RouterNode (f\<lparr>indices := [path f ! i], path := take i p, handle := None,
           wildChild := False\<rparr>) [child])"

definition msg_registered :: "string \<Rightarrow> panic" where
  "msg_registered full = PanicMsg
     (''a handle is already registered for path '' @ [CHR 0x27] @ full @ [CHR 0x27])"

definition raise_maxParams :: "8 word \<Rightarrow> 'h node_fields \<Rightarrow> 'h node_fields" where
  "raise_maxParams wildcard f =
     (if wildcard > maxParams f then f\<lparr>maxParams := wildcard\<rparr> else f)"

text \<open>
  Lines 108 to 161: one visit of a node, up to the point where the rest of the path is cut off.
  The guard \<open>i > len(path)\<close> of line 156 never holds, because \<open>i\<close> is a common prefix length;
  when the path ends in this node the code stores the handle and goes on with an empty rest.
\<close>

definition enter_node ::
  "8 word \<Rightarrow> string \<Rightarrow> 'h list option \<Rightarrow> 'h router_node \<Rightarrow> ('h router_node \<times> string) res" where
  "enter_node wildcard p h n =
     (let n1 = RouterNode (raise_maxParams wildcard (info n)) (children n);
          i = lcp p (path (info n1));
          n2 = (if i < length (path (info n1)) then split_edge i p n1 else n1)
      in if i = length p then
           (if handle (info n2) \<noteq> None then Inl (msg_registered (fullPath (info n2)))
            else Inr (RouterNode ((info n2)\<lparr>handle := h\<rparr>) (children n2), drop i p))
         else Inr (n2, drop i p))"

text \<open>
  Lines 173 to 194: the wildcard child must be continued literally by the new path, otherwise
  the code panics.  \<open>fullPath\<close> is the wildcard node's own field; where \<open>strings.Index\<close> finds
  nothing the slice \<open>fullPath[:-1]\<close> is a run-time panic.
\<close>

definition wildcard_matches :: "string \<Rightarrow> 'h node_fields \<Rightarrow> bool" where
  "wildcard_matches p f \<longleftrightarrow>
     length p \<ge> length (path f) \<and> path f = take (length (path f)) p \<and> nType f \<noteq> CatchAll \<and>
     (length (path f) \<ge> length p \<or> p ! length (path f) = CHR ''/'')"

definition wildcard_conflict :: "string \<Rightarrow> 'h node_fields \<Rightarrow> panic" where
  "wildcard_conflict p f =
     (let pathSeg = (if nType f = CatchAll then p else takeWhile (\<lambda>c. c \<noteq> CHR ''/'') p)
      in case str_index (fullPath f) pathSeg of
           None \<Rightarrow> SliceBounds
         | Some k \<Rightarrow> PanicMsg ([CHR 0x27] @ pathSeg @ [CHR 0x27] @ '' in new path '' @ [CHR 0x27] @
             fullPath f @ [CHR 0x27] @ '' conflicts with existing wildcard '' @ [CHR 0x27] @ path f @
             [CHR 0x27] @ '' in existing prefix '' @ [CHR 0x27] @ take k (fullPath f) @ path f @
             [CHR 0x27]))"

text \<open>
  Lines 215 to 227: no child continues the path.  A new child is appended, moved to its place
  by \<open>incrementChildPrio\<close> and filled in; the pointer \<open>child\<close> follows it.  A rest that starts with
  a wildcard is inserted into the node itself.
\<close>

definition add_new_child ::
  "8 word \<Rightarrow> string \<Rightarrow> 'h list option \<Rightarrow> 'h router_node \<Rightarrow> 'h router_node res" where
  "add_new_child wildcard p h n =
     rbind (index_at p 0) (\<lambda>c.
       if c \<noteq> CHR '':'' \<and> c \<noteq> CHR ''*'' then
         let f = (info n)\<lparr>indices := indices (info n) @ [c]\<rparr>;
             child = RouterNode (zero_fields\<lparr>maxParams := wildcard\<rparr>) [];
             idx = length (indices f) - 1
         in rbind (incrementChildPrio idx (RouterNode f (children n @ [child]))) (\<lambda>(n1, j).
              let pos = (if idx = length (children n) then j else length (children n));
                  child = children n1 ! pos
              in rbind (insertChild wildcard p (fullPath (info child)) h child) (\<lambda>child1.
                   Inr (RouterNode (info n1) ((children n1)[pos := child1]))))
       else insertChild wildcard p (fullPath (info n)) h n)"

function walk ::
  "8 word \<Rightarrow> string \<Rightarrow> 'h list option \<Rightarrow> 'h router_node \<Rightarrow> 'h router_node res" where
  "walk wildcard p h n =
     rbind (enter_node wildcard p h n) (\<lambda>(n1, rest).
       let f = info n1 in
       if wildChild f then
         (case children n1 of
            [] \<Rightarrow> Inl IndexOutOfRange
          | c # cs \<Rightarrow>
              let c1 = RouterNode (raise_maxParams wildcard (info (bump_priority c))) (children c)
              in if wildcard_matches rest (info c1) then
                   rbind (walk (wildcard - 1) rest h c1) (\<lambda>c2. Inr (RouterNode f (c2 # cs)))
                 else Inl (wildcard_conflict rest (info c1)))
       else rbind (index_at rest 0) (\<lambda>c.
         if nType f = Param \<and> c = CHR ''/'' \<and> length (children n1) = 1 then
           rbind (walk wildcard rest h (bump_priority (hd (children n1))))
             (\<lambda>c2. Inr (RouterNode f [c2]))
         else (case indexByte c (indices f) of
             Some i \<Rightarrow>
               rbind (incrementChildPrio i n1) (\<lambda>(n2, j).
               rbind (walk wildcard rest h (children n2 ! j)) (\<lambda>c2.
                 Inr (RouterNode (info n2) ((children n2)[j := c2]))))
           | None \<Rightarrow> add_new_child wildcard rest h n1)))"
  by pat_completeness auto


text \<open>What a visit leaves: the node kept, or split at the end of the common prefix.\<close>

lemma raise_maxParams_fields [simp]:
  "fullPath (raise_maxParams w f) = fullPath f" "path (raise_maxParams w f) = path f"
  "wildChild (raise_maxParams w f) = wildChild f" "nType (raise_maxParams w f) = nType f"
  "priority (raise_maxParams w f) = priority f" "indices (raise_maxParams w f) = indices f"
  "handle (raise_maxParams w f) = handle f"
  by (simp_all add: raise_maxParams_def)

lemma enter_node_keep:
  assumes "enter_node w p h n = Inr (n1, rest)" and "prefix (path (info n)) p"
  shows "rest = drop (length (path (info n))) p" and "children n1 = children n"
    and "info n1 = (if rest = [] then (raise_maxParams w (info n))\<lparr>handle := h\<rparr>
           else raise_maxParams w (info n))"
    and "rest = [] \<Longrightarrow> handle (info n) = None"
proof -
  have "lcp p (path (info n)) = length (path (info n))"
    using assms(2) by (simp add: lcp_eq_length2)
  with assms(1) show "rest = drop (length (path (info n))) p" "children n1 = children n"
    "info n1 = (if rest = [] then (raise_maxParams w (info n))\<lparr>handle := h\<rparr>
       else raise_maxParams w (info n))"
    "rest = [] \<Longrightarrow> handle (info n) = None"
    using prefix_length_le [OF assms(2)]
    by (auto simp: enter_node_def Let_def split: if_splits)
qed

lemma enter_node_split:
  assumes "enter_node w p h n = Inr (n1, rest)" and "\<not> prefix (path (info n)) p"
  defines "i \<equiv> lcp p (path (info n))"
  shows "i < length (path (info n))" and "rest = drop i p" and "\<not> wildChild (info n1)"
    and "indices (info n1) = [path (info n) ! i]" and "nType (info n1) = nType (info n)"
    and "children n1 =
      [RouterNode (zero_fields\<lparr>path := drop i (path (info n)), wildChild := wildChild (info n),
        nType := Static, indices := indices (info n), handle := handle (info n),
        priority := priority (info n) - 1, maxParams := max_of_children (children n)\<rparr>) (children n)]"
    and "path (info n1) = take i p" and "handle (info n1) = (if rest = [] then h else None)"
    and "rest \<noteq> [] \<Longrightarrow> hd rest \<noteq> path (info n) ! i"
proof -
  show i: "i < length (path (info n))"
    using assms(2) lcp_eq_length2 [of p "path (info n)"] lcp_le2 [of p "path (info n)"]
    unfolding i_def by linarith
  have le: "i \<le> length p" unfolding i_def by (rule lcp_le1)
  show "rest = drop i p" "\<not> wildChild (info n1)" "indices (info n1) = [path (info n) ! i]"
    "nType (info n1) = nType (info n)"
    "children n1 =
      [RouterNode (zero_fields\<lparr>path := drop i (path (info n)), wildChild := wildChild (info n),
        nType := Static, indices := indices (info n), handle := handle (info n),
        priority := priority (info n) - 1, maxParams := max_of_children (children n)\<rparr>) (children n)]"
    "path (info n1) = take i p" "handle (info n1) = (if rest = [] then h else None)"
    using assms(1) i le
    by (auto simp: enter_node_def Let_def split_edge_def i_def [symmetric] split: if_splits)
  then show "rest \<noteq> [] \<Longrightarrow> hd rest \<noteq> path (info n) ! i"
    using lcp_differ [of p "path (info n)"] i le unfolding i_def
    by (auto simp: hd_drop_conv_nth)
qed

text \<open>
  Every turn of the loop goes to a node with fewer nodes below it; the one exception is the
  child just split off a parameter node, which is no parameter node itself.
\<close>

definition walk_measure :: "'h router_node \<Rightarrow> nat" where
  "walk_measure n = 2 * nodes n + (if nType (info n) = Param then 1 else 0)"

lemma walk_measure_less: "nodes c < nodes n \<Longrightarrow> walk_measure c < walk_measure n"
  by (simp add: walk_measure_def)

lemma nodes_unfold: "nodes n = Suc (sum_list (map nodes (children n)))"
  by (cases n) simp

lemma walk_decreases_children:
  assumes "enter_node w p h n = Inr (n1, rest)" and "prefix (path (info n)) p"
  shows "nodes n1 = nodes n"
  using enter_node_keep(2) [OF assms] by (cases n; cases n1) simp

lemma walk_decreases_wild:
  assumes "enter_node w p h n = Inr (n1, rest)" and "wildChild (info n1)"
    and "children n1 = c # cs"
  shows "nodes c < nodes n"
proof -
  have "prefix (path (info n)) p"
    using enter_node_split(3) [OF assms(1)] assms(2) by blast
  from walk_decreases_children [OF assms(1) this] show ?thesis
    using assms(3) by (cases n1) auto
qed

lemma walk_decreases_param:
  assumes "enter_node w p h n = Inr (n1, rest)" and "nType (info n1) = Param"
    and "length (children n1) = 1"
  shows "walk_measure (bump_priority (hd (children n1))) < walk_measure n"
proof (cases "prefix (path (info n)) p")
  case True
  from walk_decreases_children [OF assms(1) True]
  show ?thesis using assms(3) by (cases n1; cases "children n1") (auto simp: walk_measure_def)
next
  case False
  from enter_node_split(5,6) [OF assms(1) False]
  show ?thesis using assms(2) nodes_unfold [of n] by (simp add: walk_measure_def)
qed

lemma walk_decreases_index:
  assumes "enter_node w p h n = Inr (n1, rest)" and "index_at rest 0 = Inr c"
    and "indexByte c (indices (info n1)) = Some i" and "incrementChildPrio i n1 = Inr (n2, j)"
  shows "nodes (children n2 ! j) < nodes n"
proof -
  have c: "rest \<noteq> []" "c = hd rest"
    using assms(2) by (auto simp: go_res hd_conv_nth)
  have "prefix (path (info n)) p"
  proof (rule ccontr)
    assume np: "\<not> prefix (path (info n)) p"
    show False
      using enter_node_split(4,9) [OF assms(1) np] c assms(3) by (auto split: if_splits)
  qed
  from walk_decreases_children [OF assms(1) this] incrementChildPrio_nodes [OF assms(4)]
  show ?thesis by simp
qed

termination walk
proof (relation "measure (\<lambda>(w, p, h, n). walk_measure n)", goal_cases)
  case 1
  then show ?case by simp
next
  case (2 w p h n x n1 rest f c cs c1)
  then have "nodes c < nodes n"
    using walk_decreases_wild by metis
  then have "nodes c1 < nodes n"
    using 2 by (simp add: nodes_unfold [of c])
  then show ?case by (simp add: walk_measure_less)
next
  case (3 w p h n x n1 rest f c)
  then show ?case using walk_decreases_param by fastforce
next
  case (4 w p h n x n1 rest f c i y n2 j)
  then show ?case using walk_decreases_index walk_measure_less by fastforce
qed

declare walk.simps [simp del]

definition addRoute ::
  "string \<Rightarrow> 'h list option \<Rightarrow> 'h router_node \<Rightarrow> 'h router_node res" where
  "addRoute p h n =
     (let f = (info n)\<lparr>fullPath := p, priority := priority (info n) + 1\<rparr>;
          n1 = RouterNode f (children n);
          wildcard = wildcardNum p
      in if path f = [] \<and> children n = [] then
           rbind (insertChild wildcard p (fullPath f) h n1) (\<lambda>n2.
             Inr (RouterNode ((info n2)\<lparr>nType := Root\<rparr>) (children n2)))
         else walk wildcard p h n1)"

section \<open>The order of the children\<close>

text \<open>The order that the swaps keep: children with more routes below come first.\<close>

definition by_priority :: "'h router_node list \<Rightarrow> bool" where
  "by_priority cs \<longleftrightarrow> sorted_wrt (\<lambda>a b. priority (info b) \<le> priority (info a)) cs"

lemma bubble_left_sorted:
  assumes "bubble_left cs k prio = (cs', j)" and "k < length cs" and "priority (info (cs ! k)) = prio"
    and "sorted_wrt (\<lambda>a b. priority (info b) \<le> priority (info a)) (take k cs)"
    and "\<forall>b\<in>set (drop (Suc k) cs). \<forall>a\<in>set (take k cs). priority (info b) \<le> priority (info a)"
    and "\<forall>b\<in>set (drop (Suc k) cs). priority (info b) \<le> prio"
    and "sorted_wrt (\<lambda>a b. priority (info b) \<le> priority (info a)) (drop (Suc k) cs)"
  shows "sorted_wrt (\<lambda>a b. priority (info b) \<le> priority (info a)) cs'"
  using assms
proof (induction cs k prio arbitrary: cs' j rule: bubble_left.induct)
  case (1 cs prio)
  have "cs = cs ! 0 # drop 1 cs" using 1(2) by (metis Cons_nth_drop_Suc One_nat_def drop0)
  moreover have "cs' = cs" using 1(1) by simp
  moreover have "sorted_wrt (\<lambda>a b. priority (info b) \<le> priority (info a)) (cs ! 0 # drop 1 cs)"
    using 1(3,6,7) by simp
  ultimately show ?case by metis
next
  case (2 cs k prio)
  let ?R = "\<lambda>a b :: 'a router_node. priority (info b) \<le> priority (info a)"
  have cs: "cs = take k cs @ cs ! k # cs ! Suc k # drop (Suc (Suc k)) cs"
    using 2(3) by (metis Cons_nth_drop_Suc Suc_lessD id_take_nth_drop)
  have tk: "take (Suc k) cs = take k cs @ [cs ! k]" using 2(3) by (simp add: take_Suc_conv_app_nth)
  show ?case
  proof (cases "priority (info (cs ! k)) < prio")
    case True
    let ?sw = "cs[k := cs ! Suc k, Suc k := cs ! k]"
    have d: "drop (Suc k) ?sw = cs ! k # drop (Suc (Suc k)) cs"
      using 2(3) by (simp add: drop_update_swap Cons_nth_drop_Suc [symmetric])
    have t: "take k ?sw = take k cs" by simp
    show ?thesis
    proof (rule "2.IH" [OF True])
      show "bubble_left ?sw k prio = (cs', j)" using "2.prems"(1) True by simp
      show "k < length ?sw" "priority (info (?sw ! k)) = prio" using 2(3,4) by simp_all
      show "sorted_wrt ?R (take k ?sw)" using "2.prems"(4) tk t by (simp add: sorted_wrt_append)
      show "\<forall>b\<in>set (drop (Suc k) ?sw). \<forall>a\<in>set (take k ?sw). ?R a b"
        using "2.prems"(4,5) unfolding d t tk by (auto simp: sorted_wrt_append)
      show "\<forall>b\<in>set (drop (Suc k) ?sw). priority (info b) \<le> prio"
        using "2.prems"(6) True unfolding d by auto
      show "sorted_wrt ?R (drop (Suc k) ?sw)"
        using "2.prems"(5,7) unfolding d tk by auto
    qed
  next
    case False
    then have ge: "prio \<le> priority (info (cs ! k))" by simp
    let ?d = "drop (Suc (Suc k)) cs"
    have a: "sorted_wrt ?R (take k cs)" "\<forall>x\<in>set (take k cs). ?R x (cs ! k)"
      using "2.prems"(4) unfolding tk by (simp_all add: sorted_wrt_append)
    have b: "\<forall>b\<in>set ?d. ?R (cs ! k) b" "\<forall>b\<in>set ?d. \<forall>x\<in>set (take k cs). ?R x b"
      using "2.prems"(5) unfolding tk by simp_all
    have "?R (cs ! k) (cs ! Suc k)" using ge "2.prems"(3) by simp
    moreover have "\<forall>x\<in>set (take k cs). ?R x (cs ! Suc k)"
      using a(2) ge "2.prems"(3) by (metis order_trans)
    moreover have "\<forall>b\<in>set ?d. ?R (cs ! Suc k) b" using "2.prems"(3,6) by simp
    ultimately have "sorted_wrt ?R (take k cs @ cs ! k # cs ! Suc k # ?d)"
      using a b "2.prems"(7) by (simp add: sorted_wrt_append)
    then have "sorted_wrt ?R cs" using cs by metis
    moreover have "cs' = cs" using "2.prems"(1) False by simp
    ultimately show ?thesis by simp
  qed
qed

lemma incrementChildPrio_by_priority:
  assumes "incrementChildPrio idx r = Inr (r', j)" and "by_priority (children r)"
    and "priority (info (children r ! idx)) \<noteq> - 1"
  shows "by_priority (children r')"
proof -
  let ?cs = "children r" and ?b = "bump_priority (children r ! idx)"
  note idx = incrementChildPrio_Inr(1) [OF assms(1)]
  obtain cs' k where b: "bubble_left (?cs[idx := ?b]) idx (priority (info ?b)) = (cs', k)"
    by fastforce
  with assms(1) idx have cs': "children r' = cs'"
    by (auto simp: incrementChildPrio_def Let_def go_res split: if_splits)
  have "uint (priority (info (?cs ! idx))) + 1 < 2 ^ 32"
  proof -
    have "uint (priority (info (?cs ! idx))) \<noteq> 2 ^ 32 - 1"
      using assms(3) by (simp add: word_uint_eq_iff unsigned_minus_1_eq_mask mask_eq_exp_minus_1)
    then show ?thesis using uint_lt2p [of "priority (info (?cs ! idx))"] by simp
  qed
  then have up: "priority (info (?cs ! idx)) \<le> priority (info ?b)"
    by (simp add: word_le_def uint_word_ariths)
  have c: "?cs = take idx ?cs @ ?cs ! idx # drop (Suc idx) ?cs"
    using idx by (simp add: id_take_nth_drop)
  have s: "sorted_wrt (\<lambda>a b. priority (info b) \<le> priority (info a))
      (take idx ?cs @ ?cs ! idx # drop (Suc idx) ?cs)"
    using assms(2) c by (simp add: by_priority_def)
  show ?thesis
    unfolding by_priority_def cs'
    by (rule bubble_left_sorted [OF b]) (use idx s up in \<open>auto simp: sorted_wrt_append intro: order_trans\<close>)
qed
lemma incrementChildPrio_indices:
  assumes "incrementChildPrio idx r = Inr (r', j)"
  shows "length (indices (info r')) = length (indices (info r)) + (idx - j)"
  using assms incrementChildPrio_Inr(1,2) [OF assms]
  by (auto simp: incrementChildPrio_def Let_def go_res min_def split: if_splits prod.splits)


text \<open>\<open>incrementChildPrio\<close> on children in the order of their priorities raises the one at
  \<open>idx\<close>, moves it to the place \<open>j\<close> it returns, loses and invents no child and leaves them in the
  order of their priorities; but \<open>indices\<close>, which should only be permuted, gets one byte longer
  for every place the child moves.\<close>

theorem incrementChildPrio_correct:
  assumes "incrementChildPrio idx r = Inr (r', j)" and "by_priority (children r)"
    and "priority (info (children r ! idx)) \<noteq> - 1"
  shows "by_priority (children r') \<and>
    mset (children r') = mset ((children r)[idx := bump_priority (children r ! idx)]) \<and>
    children r' ! j = bump_priority (children r ! idx) \<and>
    length (indices (info r')) = length (indices (info r)) + (idx - j)"
  using incrementChildPrio_by_priority [OF assms] incrementChildPrio_mset [OF assms(1)]
    incrementChildPrio_child(1) [OF assms(1)] incrementChildPrio_indices [OF assms(1)] by simp

theorem incrementChildPrio_correct_witness:
  "\<exists>r' j. incrementChildPrio 1 (RouterNode (zero_fields\<lparr>indices := ''ab''\<rparr>)
      [RouterNode (zero_fields\<lparr>path := ''a'', priority := 1\<rparr>) [],
       RouterNode (zero_fields\<lparr>path := ''b'', priority := 1\<rparr>) [] :: nat router_node]) = Inr (r', j) \<and>
    by_priority (children r') \<and> length (indices (info r')) = 3"
proof -
  let ?a = "RouterNode (zero_fields\<lparr>path := ''a'', priority := 1\<rparr>) [] :: nat router_node"
  let ?b = "RouterNode (zero_fields\<lparr>path := ''b'', priority := 1\<rparr>) [] :: nat router_node"
  let ?r = "RouterNode (zero_fields\<lparr>indices := ''ab''\<rparr>) [?a, ?b]"
  have i: "incrementChildPrio 1 ?r =
      Inr (RouterNode (zero_fields\<lparr>indices := ''aba''\<rparr>) [bump_priority ?b, ?a], 0)"
    by code_simp
  have "by_priority (children ?r)" "priority (info (children ?r ! 1)) \<noteq> - 1"
    by (simp_all add: by_priority_def zero_fields_def)
  from i incrementChildPrio_correct [OF i this] show ?thesis
    by (intro exI conjI) (assumption, simp_all)
qed

end
