(* ===== verification/TreeLookup.thy ===== *)
theory TreeLookup
  imports RouteTree
begin

text \<open>
  \<open>getValue\<close> of \<open>core/tree.go\<close>: the walk down the tree for a request path, and its soundness
  against an independent reading of the tree as a list of route patterns.  The parameter slice
  keeps its capacity, because \<open>p = p[:i+1]\<close> panics once the capacity set by the first
  \<open>make(Params, 0, n.maxParams)\<close> is used up.
\<close>

section \<open>The lookup\<close>

record param =
  Key :: string
  Val :: string

text \<open>A slice \<open>Params\<close>: nil, or its capacity and elements.\<close>

type_synonym params_slice = "(nat \<times> param list) option"

definition params_list :: "params_slice \<Rightarrow> param list" where
  "params_list p = (case p of None \<Rightarrow> [] | Some (_, ps) \<Rightarrow> ps)"

text \<open>Lines 398 to 405 and 433 to 440, with \<open>name\<close> the outcome of slicing the node's path.\<close>

definition save_param ::
  "8 word \<Rightarrow> params_slice \<Rightarrow> string res \<Rightarrow> string \<Rightarrow> params_slice res" where
  "save_param mp p name val =
     (let (cap, ps) = (case p of None \<Rightarrow> (unat mp, []) | Some q \<Rightarrow> q)
      in if length ps + 1 \<le> cap
         then rbind name (\<lambda>k. Inr (Some (cap, ps @ [\<lparr>Key = k, Val = val\<rparr>])))
         else Inl SliceBounds)"

text \<open>Lines 475 to 480: nothing found, with the trailing slash recommendation.\<close>

definition tsr_extra_slash :: "'h node_fields \<Rightarrow> string \<Rightarrow> bool" where
  "tsr_extra_slash f p \<longleftrightarrow>
     p = ''/'' \<or>
     (length (path f) = length p + 1 \<and> path f ! length p = CHR ''/'' \<and>
      p = take (length (path f) - 1) (path f) \<and> handle f \<noteq> None)"

text \<open>Lines 463 to 472: the node is reached and has no handle.\<close>

definition tsr_slash_child :: "'h router_node \<Rightarrow> bool res" where
  "tsr_slash_child n =
     (case indexByte (CHR ''/'') (indices (info n)) of
        None \<Rightarrow> Inr False
      | Some i \<Rightarrow> rbind (index_at (children n) i) (\<lambda>d.
          if length (path (info d)) = 1 \<and> handle (info d) \<noteq> None then Inr True
          else if nType (info d) = CatchAll then
            rbind (index_at (children d) 0) (\<lambda>v. Inr (handle (info v) \<noteq> None))
          else Inr False))"

definition param_end :: "string \<Rightarrow> nat" where
  "param_end p = length (takeWhile (\<lambda>c. c \<noteq> CHR ''/'') p)"

function getValue_loop ::
  "'h router_node \<Rightarrow> string \<Rightarrow> params_slice \<Rightarrow> ('h list option \<times> params_slice \<times> bool) res" where
  "getValue_loop (RouterNode f cs) pth p =
     (if length pth > length (path f) then
        if take (length (path f)) pth = path f then
          let pth1 = drop (length (path f)) pth in
          if \<not> wildChild f then
            (case indexByte (hd pth1) (indices f) of
               Some i \<Rightarrow> if i < length cs then getValue_loop (cs ! i) pth1 p
                         else Inl IndexOutOfRange
             | None \<Rightarrow> Inr (None, p, pth1 = ''/'' \<and> handle f \<noteq> None))
          else (case cs of
              [] \<Rightarrow> Inl IndexOutOfRange
            | RouterNode g ds # _ \<Rightarrow>
                if nType g = Param then
                  let e = param_end pth1 in
                  rbind (save_param (maxParams g) p (suffix_from (path g) 1) (take e pth1)) (\<lambda>p1.
                    if e < length pth1 then
                      (case ds of
                         d # _ \<Rightarrow> getValue_loop d (drop e pth1) p1
                       | [] \<Rightarrow> Inr (None, p1, length pth1 = e + 1))
                    else if handle g \<noteq> None then Inr (handle g, p1, False)
                    else (case ds of
                        [d] \<Rightarrow> Inr (None, p1, path (info d) = ''/'' \<and> handle (info d) \<noteq> None)
                      | _ \<Rightarrow> Inr (None, p1, False)))
                else if nType g = CatchAll then
                  rbind (save_param (maxParams g) p (suffix_from (path g) 2) pth1) (\<lambda>p1.
                    Inr (handle g, p1, False))
                else Inl (PanicMsg ''invalid routerNode type''))
        else Inr (None, p, tsr_extra_slash f pth)
      else if pth = path f then
        if handle f \<noteq> None then Inr (handle f, p, False)
        else if pth = ''/'' \<and> wildChild f \<and> nType f \<noteq> Root then Inr (None, p, True)
        else rbind (tsr_slash_child (RouterNode f cs)) (\<lambda>t. Inr (None, p, t))
      else Inr (None, p, tsr_extra_slash f pth))"
  by pat_completeness auto
termination
  by (relation "measure (\<lambda>(n, _, _). size n)")
    (auto simp: less_Suc_eq_le intro: size_list_estimation' [OF nth_mem])

declare getValue_loop.simps [simp del]

definition getValue ::
  "'h router_node \<Rightarrow> string \<Rightarrow> ('h list option \<times> params_slice \<times> bool) res" where
  "getValue n pth = getValue_loop n pth None"


section \<open>The tree read as a list of route patterns\<close>

text \<open>
  A pattern is a sequence of literal bytes, parameters and catch-alls; \<open>fill\<close> substitutes
  values for the wildcards.  A parameter's value has no slash.  \<open>routes\<close> reads off a tree the
  patterns of its handler chains; it says nothing about how a path is looked up.  A parameter node
  that never got its name is left out, since a lookup that saves its value panics.
\<close>

datatype seg = Byte char | PVar string | PRest string

type_synonym pattern = "seg list"

fun fill :: "pattern \<Rightarrow> param list \<Rightarrow> string option" where
  "fill [] [] = Some []"
| "fill (Byte c # q) ps = map_option ((#) c) (fill q ps)"
| "fill (PVar k # q) (p # ps) =
     (if Key p = k \<and> CHR ''/'' \<notin> set (Val p) then map_option ((@) (Val p)) (fill q ps) else None)"
| "fill (PRest k # q) (p # ps) =
     (if Key p = k then map_option ((@) (Val p)) (fill q ps) else None)"
| "fill _ _ = None"

lemma fill_bytes [simp]: "fill (map Byte s @ q) ps = map_option ((@) s) (fill q ps)"
  by (induction s) (auto simp: option.map_comp comp_def map_option_idI)

definition under :: "pattern \<Rightarrow> (pattern \<times> 'a) list \<Rightarrow> (pattern \<times> 'a) list" where
  "under q rs = map (\<lambda>(r, h). (q @ r, h)) rs"

lemma set_under: "(r, h) \<in> set (under q rs) \<longleftrightarrow> (\<exists>r'. r = q @ r' \<and> (r', h) \<in> set rs)"
  by (auto simp: under_def)

definition own_route :: "pattern \<Rightarrow> 'h node_fields \<Rightarrow> (pattern \<times> 'h list) list" where
  "own_route q f = (case handle f of None \<Rightarrow> [] | Some h \<Rightarrow> [(q, h)])"

lemma set_own_route: "(r, h) \<in> set (own_route q f) \<longleftrightarrow> r = q \<and> handle f = Some h"
  by (auto simp: own_route_def split: option.splits)

fun routes :: "'h router_node \<Rightarrow> (pattern \<times> 'h list) list" where
  "routes (RouterNode f cs) =
     own_route (map Byte (path f)) f @
     (if wildChild f then
        (case cs of
           [] \<Rightarrow> []
         | RouterNode g ds # _ \<Rightarrow>
             if nType g = Param then
               if path g = [] then [] else
               own_route (map Byte (path f) @ [PVar (drop 1 (path g))]) g @
               (case ds of [] \<Rightarrow> []
                | d # _ \<Rightarrow> under (map Byte (path f) @ [PVar (drop 1 (path g))]) (routes d))
             else if nType g = CatchAll then
               own_route (map Byte (path f) @ [PRest (drop 2 (path g))]) g
             else [])
      else concat (map (\<lambda>c. under (map Byte (path f)) (routes c)) cs))"

lemma save_param_list:
  assumes "save_param mp p0 name v = Inr p1"
  shows "\<exists>k. name = Inr k \<and> params_list p1 = params_list p0 @ [\<lparr>Key = k, Val = v\<rparr>]"
  using assms
  by (cases p0) (auto simp: save_param_def params_list_def go_res split: if_splits)

lemma param_end_split:
  "take (param_end p) p = takeWhile (\<lambda>c. c \<noteq> CHR ''/'') p"
  "drop (param_end p) p = dropWhile (\<lambda>c. c \<noteq> CHR ''/'') p"
  by (simp_all add: param_end_def takeWhile_eq_take [symmetric] dropWhile_eq_drop [symmetric])

lemma param_end_no_slash: "CHR ''/'' \<notin> set (take (param_end p) p)"
  by (auto simp: param_end_split dest: set_takeWhileD)

lemma param_end_le: "param_end p \<le> length p"
  by (simp add: param_end_def length_takeWhile_le)

text \<open>The handler chain found is that of a route whose pattern the path is an instance of.\<close>

definition found :: "'h router_node \<Rightarrow> string \<Rightarrow> params_slice \<Rightarrow> 'h list \<Rightarrow> params_slice \<Rightarrow> bool" where
  "found n pth p0 h p \<longleftrightarrow>
     (\<exists>q ps. (q, h) \<in> set (routes n) \<and> fill q ps = Some pth \<and> params_list p = params_list p0 @ ps)"

lemma found_own: "handle f = Some h \<Longrightarrow> found (RouterNode f cs) (path f) p h p"
  unfolding found_def
  by (intro exI [of _ "map Byte (path f)"] exI [of _ "[]"])
    (auto simp: set_own_route fill_bytes [of _ "[]", simplified])

lemma found_static:
  assumes "found (cs ! i) rest p0 h p" and "i < length cs" and "\<not> wildChild f"
  shows "found (RouterNode f cs) (path f @ rest) p0 h p"
proof -
  from assms(1) obtain q ps where q: "(q, h) \<in> set (routes (cs ! i))" "fill q ps = Some rest"
    "params_list p = params_list p0 @ ps"
    by (auto simp: found_def)
  have "(map Byte (path f) @ q, h) \<in> set (routes (RouterNode f cs))"
    using q(1) assms(2,3) nth_mem by (fastforce simp: set_under)
  moreover have "fill (map Byte (path f) @ q) ps = Some (path f @ rest)"
    using q(2) by simp
  ultimately show ?thesis using q(3) unfolding found_def by blast
qed

lemma found_param_end:
  assumes "wildChild f" and "nType g = Param" and "path g \<noteq> []" and "handle g = Some h"
    and "params_list p = params_list p0 @ [\<lparr>Key = drop 1 (path g), Val = v\<rparr>]"
    and "CHR ''/'' \<notin> set v"
  shows "found (RouterNode f (RouterNode g ds # cs)) (path f @ v) p0 h p"
  unfolding found_def
  by (intro exI [of _ "map Byte (path f) @ [PVar (drop 1 (path g))]"]
      exI [of _ "[\<lparr>Key = drop 1 (path g), Val = v\<rparr>]"])
    (use assms in \<open>auto simp: set_own_route\<close>)

lemma found_param_deeper:
  assumes "found d rest p1 h p" and "wildChild f" and "nType g = Param" and "path g \<noteq> []"
    and "params_list p1 = params_list p0 @ [\<lparr>Key = drop 1 (path g), Val = v\<rparr>]"
    and "CHR ''/'' \<notin> set v"
  shows "found (RouterNode f (RouterNode g (d # ds) # cs)) (path f @ v @ rest) p0 h p"
proof -
  from assms(1) obtain q ps where q: "(q, h) \<in> set (routes d)" "fill q ps = Some rest"
    "params_list p = params_list p1 @ ps"
    by (auto simp: found_def)
  let ?pre = "map Byte (path f) @ [PVar (drop 1 (path g))]"
  have "(?pre @ q, h) \<in> set (routes (RouterNode f (RouterNode g (d # ds) # cs)))"
    using q(1) assms(2,3,4) by (auto simp: set_under)
  moreover have "fill (?pre @ q) (\<lparr>Key = drop 1 (path g), Val = v\<rparr> # ps) = Some (path f @ v @ rest)"
    using q(2) assms(6) by simp
  ultimately show ?thesis using q(3) assms(5) unfolding found_def by fastforce
qed

lemma found_catchAll:
  assumes "wildChild f" and "nType g = CatchAll" and "handle g = Some h"
    and "params_list p = params_list p0 @ [\<lparr>Key = drop 2 (path g), Val = v\<rparr>]"
  shows "found (RouterNode f (RouterNode g ds # cs)) (path f @ v) p0 h p"
  unfolding found_def
  by (intro exI [of _ "map Byte (path f) @ [PRest (drop 2 (path g))]"]
      exI [of _ "[\<lparr>Key = drop 2 (path g), Val = v\<rparr>]"])
    (use assms in \<open>auto simp: set_own_route\<close>)


lemma getValue_loop_found:
  assumes "getValue_loop n pth p0 = Inr (Some h, p, tsr)"
  shows "found n pth p0 h p"
  using assms
proof (induction n pth p0 rule: getValue_loop.induct)
  case (1 f cs pth p0)
  note eq = "1.prems" [unfolded getValue_loop.simps [of f cs pth p0]]
  show ?case
  proof (cases "length pth > length (path f)")
    case False
    with eq have "pth = path f" "handle f = Some h" "p = p0"
      by (auto simp: go_res split: if_splits)
    then show ?thesis by (simp add: found_own)
  next
    case len: True
    with eq have pre: "take (length (path f)) pth = path f"
      by (auto split: if_splits)
    define rest where "rest = drop (length (path f)) pth"
    have pth: "pth = path f @ rest"
      using pre rest_def append_take_drop_id by metis
    show ?thesis
    proof (cases "wildChild f")
      case False
      with eq len pre obtain i where i: "indexByte (hd rest) (indices f) = Some i" "i < length cs"
        and rec: "getValue_loop (cs ! i) rest p0 = Inr (Some h, p, tsr)"
        by (auto simp: rest_def Let_def split: if_splits option.splits)
      have "found (cs ! i) rest p0 h p"
        using "1.IH"(1) len pre rest_def False i rec by blast
      then show ?thesis using pth i(2) False by (simp add: found_static)
    next
      case wc: True
      with eq len pre obtain g ds rs where cs: "cs = RouterNode g ds # rs"
        by (auto simp: Let_def split: list.splits router_node.splits)
      show ?thesis
      proof (cases "nType g = Param")
        case False
        with eq len pre wc cs have "nType g = CatchAll" "handle g = Some h"
          and "save_param (maxParams g) p0 (suffix_from (path g) 2) rest = Inr p"
          by (auto simp: rest_def Let_def go_res split: if_splits)
        then show ?thesis
          using pth wc cs by (auto simp: go_res intro!: found_catchAll dest!: save_param_list)
      next
        case param: True
        let ?v = "take (param_end rest) rest"
        from eq len pre wc cs param obtain p1 where
          sv: "save_param (maxParams g) p0 (suffix_from (path g) 1) ?v = Inr p1"
          by (auto simp: rest_def Let_def go_res)
        then have ne: "path g \<noteq> []" by (auto simp: go_res dest!: save_param_list)
        from sv have ps: "params_list p1 = params_list p0 @ [\<lparr>Key = drop 1 (path g), Val = ?v\<rparr>]"
          by (auto simp: go_res dest!: save_param_list)
        show ?thesis
        proof (cases "param_end rest < length rest")
          case True
          with eq len pre wc cs param sv obtain d ds' where ds: "ds = d # ds'"
            and rec: "getValue_loop d (drop (param_end rest) rest) p1 = Inr (Some h, p, tsr)"
            by (auto simp: rest_def Let_def split: list.splits)
          have "found d (drop (param_end rest) rest) p1 h p"
            using "1.IH"(2) [OF len pre rest_def _ cs refl param refl sv True ds rec] wc by simp
          from found_param_deeper [OF this wc param ne ps param_end_no_slash]
          show ?thesis by (simp add: pth cs ds)
        next
          case False
          with eq len pre wc cs param sv have "handle g = Some h" "p = p1"
            by (auto simp: rest_def Let_def split: if_splits list.splits)
          with found_param_end [OF wc param ne _ _ param_end_no_slash, of h p p0 rest] ps False
          show ?thesis by (simp add: pth cs)
        qed
      qed
    qed
  qed
qed

lemma getValue_loop_tsr:
  assumes "getValue_loop n pth p0 = Inr (Some h, p, tsr)"
  shows "\<not> tsr"
  using assms
proof (induction n pth p0 rule: getValue_loop.induct)
  case (1 f cs pth p0)
  note eq = "1.prems" [unfolded getValue_loop.simps [of f cs pth p0]]
  show ?case
  proof (cases "length pth > length (path f) \<and> take (length (path f)) pth = path f")
    case False
    with eq show ?thesis by (auto simp: go_res split: if_splits)
  next
    case c: True
    then have len: "length pth > length (path f)" and pre: "take (length (path f)) pth = path f" by auto
    show ?thesis
    proof (cases "wildChild f")
      case False
      with eq len pre "1.IH"(1) [OF len pre refl False] show ?thesis
        by (auto simp: Let_def split: if_splits option.splits)
    next
      case wc: True
      with eq len pre obtain g ds rs where cs: "cs = RouterNode g ds # rs"
        by (auto simp: Let_def split: list.splits router_node.splits)
      show ?thesis
      proof (cases "nType g = Param")
        case False
        with eq len pre wc cs show ?thesis by (auto simp: Let_def go_res split: if_splits)
      next
        case param: True
        with eq len pre wc cs "1.IH"(2) [OF len pre refl _ cs refl param refl] show ?thesis
          by (auto simp: Let_def go_res split: if_splits list.splits)
      qed
    qed
  qed
qed


section \<open>Soundness of a lookup\<close>

text \<open>C6: a handler chain that \<open>getValue\<close> returns, from any tree, belongs to a route of the tree
  of which the request path is an instance; the saved parameters are the values that the path has
  for the wildcards, in their order; and no trailing slash redirect comes with it.\<close>

theorem getValue_sound:
  assumes "getValue n pth = Inr (Some h, p, tsr)"
  shows "(\<exists>q. (q, h) \<in> set (routes n) \<and> fill q (params_list p) = Some pth) \<and> \<not> tsr"
proof -
  have "found n pth None h p" and "\<not> tsr"
    using assms unfolding getValue_def by (rule getValue_loop_found, rule getValue_loop_tsr)
  then show ?thesis by (auto simp: found_def params_list_def)
qed

theorem getValue_sound_witness:
  "\<exists>q. (q, [7::nat]) \<in> set (routes (RouterNode (zero_fields\<lparr>path := ''/u/'', wildChild := True\<rparr>)
      [RouterNode (zero_fields\<lparr>path := '':id'', nType := Param, maxParams := 1, handle := Some [7]\<rparr>) []])) \<and>
    fill q [\<lparr>Key = ''id'', Val = ''42''\<rparr>] = Some ''/u/42''"
proof -
  have "getValue (RouterNode (zero_fields\<lparr>path := ''/u/'', wildChild := True\<rparr>)
      [RouterNode (zero_fields\<lparr>path := '':id'', nType := Param, maxParams := 1, handle := Some [7::nat]\<rparr>) []])
      ''/u/42'' = Inr (Some [7], Some (1, [\<lparr>Key = ''id'', Val = ''42''\<rparr>]), False)"
    by code_simp
  from getValue_sound [OF this] show ?thesis by (simp add: params_list_def)
qed

end
