(* ===== verification/TreeStatic.thy ===== *)
theory TreeStatic
  imports TreeInsert TreeLookup
begin

text \<open>
  Routes without wildcards.  An \<open>aligned\<close> tree (every node's \<open>indices\<close> lists the first bytes
  of its children, without repetition) is a finite map from paths to handler chains,
  \<open>static_map\<close>; \<open>getValue\<close> reads that map and \<open>addRoute\<close> updates it, as long as no child
  changes its place among its siblings (\<open>reorders\<close>).
\<close>

section \<open>Aligned trees and the map they stand for\<close>

definition first_byte :: "'h router_node \<Rightarrow> char" where
  "first_byte n = hd (path (info n))"

fun aligned :: "'h router_node \<Rightarrow> bool" where
  "aligned (RouterNode f cs) \<longleftrightarrow>
     \<not> wildChild f \<and> nType f \<le> Root \<and> indices f = map first_byte cs \<and> distinct (indices f) \<and>
     list_all (\<lambda>c. path (info c) \<noteq> [] \<and> aligned c) cs"

function static_map :: "'h router_node \<Rightarrow> string \<Rightarrow> 'h list option" where
  "static_map (RouterNode f cs) p =
     (if p = path f then handle f
      else if prefix (path f) p then
        (case indexByte (p ! length (path f)) (indices f) of
           Some i \<Rightarrow> if i < length cs then static_map (cs ! i) (drop (length (path f)) p) else None
         | None \<Rightarrow> None)
      else None)"
  by pat_completeness auto
termination
  by (relation "measure (\<lambda>(n, _). size n)")
    (auto simp: less_Suc_eq_le intro: size_list_estimation' [OF nth_mem])

declare static_map.simps [simp del]

lemma nType_le_Root: "t \<le> Root \<longleftrightarrow> t = Static \<or> t = Root"
  by (cases t) (auto simp: less_eq_node_type_def)

lemma aligned_child:
  "aligned (RouterNode f cs) \<Longrightarrow> i < length cs \<Longrightarrow> aligned (cs ! i) \<and> path (info (cs ! i)) \<noteq> []"
  by (auto simp: list_all_length)

lemma aligned_indexByte:
  assumes "aligned (RouterNode f cs)" and "indexByte c (indices f) = Some i"
  shows "i < length cs" and "first_byte (cs ! i) = c"
  using indexByte_SomeD [OF assms(2)] assms(1) by auto

lemma aligned_index:
  "aligned (RouterNode f cs) \<Longrightarrow> i < length cs \<Longrightarrow> indexByte (first_byte (cs ! i)) (indices f) = Some i"
  using indexByte_distinct [of "map first_byte cs" i] by auto

text \<open>Lookup in an aligned tree never panics, captures nothing and reads the map.\<close>

lemma tsr_slash_child_aligned:
  assumes "aligned n" shows "\<exists>t. tsr_slash_child n = Inr t"
proof (cases n)
  case (RouterNode f cs)
  show ?thesis
  proof (cases "indexByte (CHR ''/'') (indices f)")
    case None
    then show ?thesis
      by (intro exI [of _ False]) (simp add: tsr_slash_child_def RouterNode)
  next
    case (Some i)
    with assms have "i < length cs" by (simp add: RouterNode aligned_indexByte del: aligned.simps)
    with assms Some aligned_child [of f cs i] have "nType (info (cs ! i)) \<noteq> CatchAll"
      by (cases "cs ! i") (auto simp: RouterNode nType_le_Root)
    with Some \<open>i < length cs\<close> show ?thesis
      by (auto simp: tsr_slash_child_def RouterNode index_at_def)
  qed
qed

lemma getValue_loop_aligned:
  "aligned n \<Longrightarrow> \<exists>tsr. getValue_loop n p ps = Inr (static_map n p, ps, tsr)"
proof (induction n p arbitrary: ps rule: static_map.induct)
  case (1 f cs p)
  note al = "1.prems"
  have wc: "\<not> wildChild f" using al by simp
  show ?case
  proof (cases "p = path f")
    case True
    obtain t where "tsr_slash_child (RouterNode f cs) = Inr t"
      using tsr_slash_child_aligned [OF al] by blast
    with True wc show ?thesis
      by (auto simp: getValue_loop.simps [of f cs] static_map.simps [of f cs])
  next
    case neq: False
    show ?thesis
    proof (cases "prefix (path f) p")
      case False
      with neq show ?thesis
        by (auto simp: getValue_loop.simps [of f cs] static_map.simps [of f cs] take_eq_prefix)
    next
      case pre: True
      with neq have len: "length p > length (path f)"
        by (auto simp: prefix_def)
      then have hd: "hd (drop (length (path f)) p) = p ! length (path f)"
        by (simp add: hd_drop_conv_nth)
      show ?thesis
      proof (cases "indexByte (p ! length (path f)) (indices f)")
        case None
        with neq pre len wc hd show ?thesis
          by (simp add: getValue_loop.simps [of f cs] static_map.simps [of f cs] take_eq_prefix)
      next
        case (Some i)
        note i = aligned_indexByte(1) [OF al Some]
        from "1.IH" [OF neq pre Some i] aligned_child [OF al i]
        obtain tsr where "getValue_loop (cs ! i) (drop (length (path f)) p) ps =
            Inr (static_map (cs ! i) (drop (length (path f)) p), ps, tsr)" by blast
        with neq pre len wc hd Some i show ?thesis
          by (simp add: getValue_loop.simps [of f cs] static_map.simps [of f cs] take_eq_prefix)
      qed
    qed
  qed
qed


section \<open>Registering a static route\<close>

text \<open>
  \<open>reorders p n\<close>: registering \<open>p\<close> at \<open>n\<close> moves some child to the left, because its raised
  priority exceeds its left neighbour's.
\<close>

lemma size_bump [simp]: "size (bump_priority n) = size n"
  by (cases n) (simp add: bump_priority_def)

function reorders :: "string \<Rightarrow> 'h router_node \<Rightarrow> bool" where
  "reorders p (RouterNode f cs) \<longleftrightarrow>
     (let i = lcp p (path f); rest = drop i p in
      if rest = [] then False
      else if i < length (path f) then priority f - 1 < 1
      else (case indexByte (hd rest) (indices f) of
          None \<Rightarrow> cs \<noteq> [] \<and> priority (info (last cs)) < 1
        | Some k \<Rightarrow>
            if k < length cs then
              0 < k \<and> priority (info (cs ! (k - 1))) < priority (info (cs ! k)) + 1 \<or>
              reorders rest (bump_priority (cs ! k))
            else False))"
  by pat_completeness auto
termination
  by (relation "measure (\<lambda>(_, n). size n)")
    (auto simp: less_Suc_eq_le intro: size_list_estimation' [OF nth_mem])

declare reorders.simps [simp del]

definition no_wildcards :: "string \<Rightarrow> bool" where
  "no_wildcards p \<longleftrightarrow> (\<forall>c\<in>set p. \<not> is_wild c)"

definition leaf :: "string \<Rightarrow> 'h list option \<Rightarrow> 'h router_node" where
  "leaf p h = RouterNode (zero_fields\<lparr>path := p, priority := 1, handle := h\<rparr>) []"

lemma no_wildcards_append [simp]:
  "no_wildcards (a @ b) \<longleftrightarrow> no_wildcards a \<and> no_wildcards b"
  "no_wildcards (c # s) \<longleftrightarrow> \<not> is_wild c \<and> no_wildcards s" "no_wildcards []"
  by (auto simp: no_wildcards_def)

lemma no_wildcards_drop: "no_wildcards p \<Longrightarrow> no_wildcards (drop i p)"
  by (auto simp: no_wildcards_def dest: in_set_dropD)

lemma wildcardNum_static: "no_wildcards p \<Longrightarrow> wildcardNum p = 0"
  by (simp add: no_wildcards_def wildcardNum_def)

lemma raise_maxParams_0 [simp]: "raise_maxParams 0 f = f"
  by (simp add: raise_maxParams_def)

lemma incrementChildPrio_stays:
  assumes "k < length cs"
    and "\<not> (0 < k \<and> priority (info (cs ! (k - 1))) < priority (info (cs ! k)) + 1)"
  shows "incrementChildPrio k (RouterNode f cs) = Inr (RouterNode f (cs[k := bump_priority (cs ! k)]), k)"
  using assms by (cases k) (auto simp: incrementChildPrio_def Let_def)

lemma bubble_left_moves:
  assumes "0 < k" and "priority (info (cs ! (k - 1))) < prio" and "k < length cs"
  shows "snd (bubble_left cs k prio) < k"
proof (cases k)
  case (Suc j)
  let ?sw = "cs[j := cs ! Suc j, Suc j := cs ! j]"
  obtain cs' j' where b: "bubble_left ?sw j prio = (cs', j')" by fastforce
  from bubble_left_rotates(1) [OF b] assms Suc have "j' \<le> j" by simp
  with b assms Suc show ?thesis by simp
qed (use assms in simp)

text \<open>
  A move leaves \<open>indices\<close> longer than the list of children: the code inserts a copy of the
  skipped bytes and does not move the byte of the child.
\<close>

lemma incrementChildPrio_misaligns:
  assumes "incrementChildPrio k (RouterNode f cs) = Inr (n', j)"
    and "0 < k" and "priority (info (cs ! (k - 1))) < priority (info (cs ! k)) + 1"
    and "length (indices f) = length cs"
  shows "j < k" and "length (children n') < length (indices (info n'))"
proof -
  note inc = incrementChildPrio_Inr [OF assms(1)]
  let ?bs = "cs[k := bump_priority (cs ! k)]"
  obtain cs' j' where b: "bubble_left ?bs k (priority (info (cs ! k)) + 1) = (cs', j')" by fastforce
  have "j' < k"
    using bubble_left_moves [of k ?bs "priority (info (cs ! k)) + 1"] b assms(2,3) inc(1) by simp
  with b assms(1) inc(1)
  have "j = j' \<and> length (indices (info n')) = length (indices f) + (k - j')"
    by (auto simp: incrementChildPrio_def Let_def go_res)
  with \<open>j' < k\<close> show "j < k" by simp
  moreover have "length (children n') = length cs"
    using incrementChildPrio_child(3) [OF assms(1)] by simp
  ultimately show "length (children n') < length (indices (info n'))"
    using \<open>j = j' \<and> _\<close> assms(4) by simp
qed

lemma add_new_child_stays:
  assumes "rest \<noteq> []" and "\<not> is_wild (hd rest)" and "length (indices f) = length cs"
    and "\<not> (cs \<noteq> [] \<and> priority (info (last cs)) < 1)"
  shows "add_new_child 0 rest h (RouterNode f cs) =
    Inr (RouterNode (f\<lparr>indices := indices f @ [hd rest]\<rparr>) (cs @ [leaf rest h]))"
proof -
  let ?f = "f\<lparr>indices := indices f @ [hd rest]\<rparr>" and ?new = "RouterNode (zero_fields\<lparr>maxParams := 0\<rparr>) []"
  have "\<not> (0 < length cs \<and> priority (info ((cs @ [?new]) ! (length cs - 1))) <
      priority (info ((cs @ [?new]) ! length cs)) + 1)"
    using assms(4) by (cases "cs = []") (simp_all add: zero_fields_def nth_append last_conv_nth)
  then have "incrementChildPrio (length cs) (RouterNode ?f (cs @ [?new])) =
      Inr (RouterNode ?f (cs @ [bump_priority ?new]), length cs)"
    using incrementChildPrio_stays [of "length cs" "cs @ [?new]" ?f] by simp
  with assms(1-3) show ?thesis
    by (auto simp: add_new_child_def index_at_def hd_conv_nth is_wild_def insertChild_def leaf_def
        bump_priority_def zero_fields_def)
qed


text \<open>One turn of the walk at an aligned node, by where the new path leaves it.\<close>

lemma aligned_fields:
  assumes "aligned (RouterNode f cs)"
  shows "\<not> wildChild f" "nType f \<noteq> Param" "nType f \<noteq> CatchAll" "length (indices f) = length cs"
    "indices f = map first_byte cs" "distinct (indices f)"
  using assms by (auto simp: nType_le_Root)

lemma walk_ends:
  assumes "aligned (RouterNode f cs)" and "drop (lcp p (path f)) p = []"
  shows "panics (walk 0 p h (RouterNode f cs))"
proof -
  have "lcp p (path f) = length p"
    using assms(2) lcp_le1 [of p "path f"] by simp
  with aligned_fields(1) [OF assms(1)] show ?thesis
    by (auto simp: walk.simps [of 0 p] enter_node_def split_edge_def Let_def index_at_def)
qed

lemma enter_static:
  assumes "drop (lcp p (path f)) p \<noteq> []" and "lcp p (path f) = length (path f)"
  shows "enter_node 0 p h (RouterNode f cs) = Inr (RouterNode f cs, drop (length (path f)) p)"
  using assms by (auto simp: enter_node_def)

lemma walk_follows:
  assumes al: "aligned (RouterNode f cs)" and rest: "rest = drop (length (path f)) p" "rest \<noteq> []"
    and i: "lcp p (path f) = length (path f)" and k: "indexByte (hd rest) (indices f) = Some k"
  shows "walk 0 p h (RouterNode f cs) =
    rbind (incrementChildPrio k (RouterNode f cs)) (\<lambda>(n2, j).
    rbind (walk 0 rest h (children n2 ! j)) (\<lambda>c2.
      Inr (RouterNode (info n2) ((children n2)[j := c2]))))"
  using aligned_fields [OF al] rest i k enter_static [of p f h cs]
  by (simp add: walk.simps [of 0 p] index_at_def hd_conv_nth)

lemma walk_adds:
  assumes al: "aligned (RouterNode f cs)" and rest: "rest = drop (length (path f)) p" "rest \<noteq> []"
    and i: "lcp p (path f) = length (path f)" and k: "indexByte (hd rest) (indices f) = None"
  shows "walk 0 p h (RouterNode f cs) = add_new_child 0 rest h (RouterNode f cs)"
  using aligned_fields [OF al] rest i k enter_static [of p f h cs]
  by (simp add: walk.simps [of 0 p] index_at_def hd_conv_nth)

definition split_top :: "nat \<Rightarrow> 'h node_fields \<Rightarrow> 'h node_fields" where
  "split_top i f = f\<lparr>indices := [path f ! i], path := take i (path f), handle := None,
     wildChild := False\<rparr>"

definition split_child :: "nat \<Rightarrow> 'h node_fields \<Rightarrow> 'h router_node list \<Rightarrow> 'h router_node" where
  "split_child i f cs = RouterNode (zero_fields\<lparr>path := drop i (path f), wildChild := wildChild f,
     nType := Static, indices := indices f, handle := handle f, priority := priority f - 1,
     maxParams := max_of_children cs\<rparr>) cs"

lemma walk_splits:
  assumes al: "aligned (RouterNode f cs)" and rest: "rest = drop i p" "rest \<noteq> []"
    and i: "i = lcp p (path f)" "i < length (path f)"
  shows "walk 0 p h (RouterNode f cs) =
    add_new_child 0 rest h (RouterNode (split_top i f) [split_child i f cs])"
proof -
  have "rest ! 0 \<noteq> path f ! i" "take i p = take i (path f)"
    using lcp_differ [of p "path f"] lcp_take [of p "path f"] rest i by simp_all
  then show ?thesis
    using aligned_fields [OF al] rest i
    by (simp add: walk.simps [of 0 p] enter_node_def split_edge_def Let_def index_at_def
        split_child_def split_top_def)
qed

lemma split_top_simps [simp]:
  "path (split_top i f) = take i (path f)" "handle (split_top i f) = None"
  "indices (split_top i f) = [path f ! i]"
  by (simp_all add: split_top_def)

section \<open>The map after a registration\<close>

lemma static_map_append:
  "static_map (RouterNode f cs) (path f @ r) =
     (if r = [] then handle f
      else (case indexByte (hd r) (indices f) of
          Some i \<Rightarrow> if i < length cs then static_map (cs ! i) r else None
        | None \<Rightarrow> None))"
  by (cases r) (auto simp: static_map.simps [of f cs] split: option.split)

lemma static_map_not_prefix: "\<not> prefix (path f) q \<Longrightarrow> static_map (RouterNode f cs) q = None"
  by (auto simp: static_map.simps [of f cs])

lemma static_map_eqI:
  assumes "path f' = path f" and "\<And>r. static_map (RouterNode f' cs') (path f @ r) = m (path f @ r)"
    and "\<And>q. \<not> prefix (path f) q \<Longrightarrow> m q = None"
  shows "static_map (RouterNode f' cs') = m"
proof
  fix q
  show "static_map (RouterNode f' cs') q = m q"
    using assms(2) [of "drop (length (path f)) q"] assms(3) [of q] assms(1)
    by (cases "prefix (path f) q") (auto simp: static_map_not_prefix prefix_def)
qed

lemma static_map_cong:
  assumes "path f' = path f" "handle f' = handle f" "indices f' = indices f"
  shows "static_map (RouterNode f' cs) = static_map (RouterNode f cs)"
  by (rule static_map_eqI [OF assms(1)])
    (use static_map_append [of f' cs] assms in \<open>auto simp: static_map_append static_map_not_prefix\<close>)

lemma static_map_bump [simp]: "static_map (bump_priority n) = static_map n"
  by (cases n) (auto simp: bump_priority_def intro!: static_map_cong)

lemma aligned_bump [simp]: "aligned (bump_priority n) = aligned n"
  by (cases n) (simp add: bump_priority_def)

lemma first_byte_bump [simp]: "first_byte (bump_priority n) = first_byte n"
  by (simp add: first_byte_def)

lemma aligned_update_child:
  assumes al: "aligned (RouterNode f cs)" and k: "k < length cs" and c: "aligned c"
    and pc: "path (info c) \<noteq> []" "first_byte c = first_byte (cs ! k)"
  shows "aligned (RouterNode f (cs[k := c]))"
proof -
  have "map first_byte (cs[k := c]) = map first_byte cs"
    using k pc(2) by (metis list_update_id map_update nth_map)
  with assms show ?thesis by (auto simp: list_all_length nth_list_update)
qed

lemma static_map_update_child:
  assumes al: "aligned (RouterNode f cs)" and k: "indexByte (hd r) (indices f) = Some k"
    and r: "r \<noteq> []" and c: "static_map c = (static_map (cs ! k))(r \<mapsto> h)"
  shows "static_map (RouterNode f (cs[k := c])) = (static_map (RouterNode f cs))(path f @ r \<mapsto> h)"
proof (rule static_map_eqI [of f f])
  fix q
  note kl = aligned_indexByte [OF al k]
  show "static_map (RouterNode f (cs[k := c])) (path f @ q) =
      ((static_map (RouterNode f cs))(path f @ r \<mapsto> h)) (path f @ q)"
  proof (cases "indexByte (hd q) (indices f)")
    case None
    with k have "q \<noteq> r" by auto
    with None show ?thesis by (simp add: static_map_append)
  next
    case (Some i)
    then show ?thesis
      using r k c kl aligned_indexByte [OF al Some] by (auto simp: static_map_append nth_list_update)
  qed
qed (auto simp: static_map_not_prefix)

lemma leaf_simps [simp]:
  "path (info (leaf p h)) = p" "first_byte (leaf p h) = hd p" "aligned (leaf p h)"
  by (simp_all add: leaf_def first_byte_def zero_fields_def less_eq_node_type_def)

lemma static_map_leaf: "static_map (leaf p h) q = (if q = p then h else None)"
  by (simp add: leaf_def static_map.simps zero_fields_def)

lemma aligned_add_child:
  assumes "aligned (RouterNode f cs)" and "indexByte (hd r) (indices f) = None" and "r \<noteq> []"
  shows "aligned (RouterNode (f\<lparr>indices := indices f @ [hd r]\<rparr>) (cs @ [leaf r h]))"
  using assms by (auto simp: indexByte_eq_None)

lemma static_map_add_child:
  assumes al: "aligned (RouterNode f cs)" and k: "indexByte (hd r) (indices f) = None" and r: "r \<noteq> []"
  shows "static_map (RouterNode (f\<lparr>indices := indices f @ [hd r]\<rparr>) (cs @ [leaf r (Some h)])) =
    (static_map (RouterNode f cs))(path f @ r \<mapsto> h)"
proof (rule static_map_eqI [of _ f])
  fix q
  let ?f = "f\<lparr>indices := indices f @ [hd r]\<rparr>" and ?cs = "cs @ [leaf r (Some h)]"
  have "static_map (RouterNode ?f ?cs) (path ?f @ q) =
      ((static_map (RouterNode f cs))(path f @ r \<mapsto> h)) (path f @ q)"
  proof (cases "indexByte (hd q) (indices f)")
    case None
    then have "indexByte (hd q) (indices ?f) = (if hd q = hd r then Some (length cs) else None)"
      using aligned_fields(4) [OF al] by (simp add: indexByte_eq_None indexByte_append2)
    with None r static_map_append [of ?f ?cs q] show ?thesis
      by (auto simp: static_map_append static_map_leaf)
  next
    case (Some i)
    then have "hd q \<in> set (indices f)" using indexByte_eq_None [of "hd q" "indices f"] by auto
    with Some have "indexByte (hd q) (indices ?f) = Some i" by (simp add: indexByte_append1)
    moreover have "q \<noteq> r" using Some k by auto
    ultimately show ?thesis
      using Some aligned_indexByte(1) [OF al Some] static_map_append [of ?f ?cs q]
      by (simp add: static_map_append nth_append)
  qed
  then show "static_map (RouterNode ?f ?cs) (path f @ q) =
      ((static_map (RouterNode f cs))(path f @ r \<mapsto> h)) (path f @ q)" by simp
qed (auto simp: static_map_not_prefix)


lemma first_byte_split_child: "i < length (path f) \<Longrightarrow> first_byte (split_child i f cs) = path f ! i"
  by (simp add: split_child_def first_byte_def hd_drop_conv_nth)

lemma aligned_split:
  assumes "aligned (RouterNode f cs)" and "i < length (path f)"
  shows "aligned (RouterNode (split_top i f) [split_child i f cs])"
  using assms first_byte_split_child [OF assms(2), of cs]
  by (auto simp: split_top_def split_child_def less_eq_node_type_def)

lemma split_child_eq:
  obtains g where "split_child i f cs = RouterNode g cs" "path g = drop i (path f)"
    "handle g = handle f" "indices g = indices f"
  by (simp add: split_child_def)

lemma static_map_split_child:
  assumes "i < length (path f)"
  shows "static_map (split_child i f cs) r = static_map (RouterNode f cs) (take i (path f) @ r)"
proof -
  obtain g where g: "split_child i f cs = RouterNode g cs" "path g = drop i (path f)"
    "handle g = handle f" "indices g = indices f" by (rule split_child_eq)
  show ?thesis
  proof (cases "prefix (drop i (path f)) r")
    case True
    then obtain r' where r: "r = path g @ r'" by (auto simp: prefix_def g)
    then have "take i (path f) @ r = path f @ r'" by (simp add: g)
    then show ?thesis
      by (simp only: g(1) r static_map_append) (simp add: static_map_append g)
  next
    case False
    then have "\<not> prefix (path f) (take i (path f) @ r)"
      by (metis append_take_drop_id same_prefix_prefix)
    with False show ?thesis by (simp add: static_map_not_prefix g)
  qed
qed

lemma static_map_split:
  assumes "i < length (path f)"
  shows "static_map (RouterNode (split_top i f) [split_child i f cs]) = static_map (RouterNode f cs)"
proof (rule static_map_eqI [of _ "split_top i f"])
  fix r
  let ?S = "RouterNode (split_top i f) [split_child i f cs]"
  have top: "path (split_top i f) = take i (path f)" "handle (split_top i f) = None"
    "indices (split_top i f) = [path f ! i]" by (simp_all add: split_top_def)
  have np: "\<not> prefix (path f) (take i (path f) @ r)" if "r = [] \<or> hd r \<noteq> path f ! i"
  proof
    assume "prefix (path f) (take i (path f) @ r)"
    then obtain z where "take i (path f) @ r = path f @ z" by (auto simp: prefix_def)
    then have "r = drop i (path f) @ z"
      by (metis append_assoc append_take_drop_id same_append_eq)
    with that assms show False by (auto simp: hd_append hd_drop_conv_nth)
  qed
  show "static_map ?S (path (split_top i f) @ r) =
      static_map (RouterNode f cs) (path (split_top i f) @ r)"
    using np static_map_append [of "split_top i f" "[split_child i f cs]" r]
    by (auto simp: top static_map_split_child [OF assms] static_map_not_prefix)
next
  fix q assume "\<not> prefix (path (split_top i f)) q"
  then have "\<not> prefix (path f) q"
    by (auto simp: split_top_def intro: prefix_order.trans [OF take_is_prefix])
  then show "static_map (RouterNode f cs) q = None" by (rule static_map_not_prefix)
qed simp

lemma walk_static_step:
  assumes "aligned (RouterNode f cs)" and "r \<noteq> []" and "no_wildcards r"
    and "indexByte (hd r) (indices f) = None"
    and "\<not> (cs \<noteq> [] \<and> priority (info (last cs)) < 1)"
    and "add_new_child 0 r (Some h) (RouterNode f cs) = Inr n'"
  shows "aligned n'" and "static_map n' = (static_map (RouterNode f cs))(path f @ r \<mapsto> h)"
    and "path (info n') = path f"
proof -
  have "\<not> is_wild (hd r)" using assms(2,3) by (simp add: no_wildcards_def)
  from add_new_child_stays [OF assms(2) this aligned_fields(4) [OF assms(1)] assms(5)] assms(6)
  have n': "n' = RouterNode (f\<lparr>indices := indices f @ [hd r]\<rparr>) (cs @ [leaf r (Some h)])" by simp
  show "aligned n'" unfolding n' by (rule aligned_add_child [OF assms(1,4,2)])
  show "static_map n' = (static_map (RouterNode f cs))(path f @ r \<mapsto> h)"
    unfolding n' by (rule static_map_add_child [OF assms(1,4,2)])
  show "path (info n') = path f" by (simp add: n')
qed


text \<open>
  The step that the walk takes from an aligned node, as a case rule for the proofs below:
  the path ends here, leaves the node's own path, follows a child or starts a new one.
\<close>

lemma lcp_full_prefix: "lcp p q = length q \<Longrightarrow> p = q @ drop (length q) p"
  by (metis append_take_drop_id lcp_take take_all_iff order_refl)

lemma walk_cases [consumes 1, case_names ends splits follows adds]:
  assumes al: "aligned (RouterNode f cs)"
    and ends: "drop (lcp p (path f)) p = [] \<Longrightarrow> P"
    and splits: "\<And>i r. i = lcp p (path f) \<Longrightarrow> i < length (path f) \<Longrightarrow> r = drop i p \<Longrightarrow> r \<noteq> [] \<Longrightarrow>
      p = take i (path f) @ r \<Longrightarrow> hd r \<noteq> path f ! i \<Longrightarrow> P"
    and follows: "\<And>r k. p = path f @ r \<Longrightarrow> r \<noteq> [] \<Longrightarrow> lcp p (path f) = length (path f) \<Longrightarrow>
      indexByte (hd r) (indices f) = Some k \<Longrightarrow> k < length cs \<Longrightarrow> P"
    and adds: "\<And>r. p = path f @ r \<Longrightarrow> r \<noteq> [] \<Longrightarrow> lcp p (path f) = length (path f) \<Longrightarrow>
      indexByte (hd r) (indices f) = None \<Longrightarrow> P"
  shows P
proof -
  let ?i = "lcp p (path f)" and ?r = "drop (lcp p (path f)) p"
  consider "?r = []" | "?r \<noteq> []" "?i < length (path f)" | "?r \<noteq> []" "?i = length (path f)"
    using lcp_le2 [of p "path f"] by linarith
  then show P
  proof cases
    case 1
    then show P by (rule ends)
  next
    case 2
    have "p = take ?i (path f) @ ?r" by (metis append_take_drop_id lcp_take)
    moreover have "hd ?r \<noteq> path f ! ?i"
      using 2 lcp_differ [of p "path f"] by (simp add: hd_drop_conv_nth)
    ultimately show P using splits [OF refl 2(2) refl 2(1)] by blast
  next
    case 3
    then have p: "p = path f @ ?r" using lcp_full_prefix [of p "path f"] by simp
    show P
    proof (cases "indexByte (hd ?r) (indices f)")
      case None
      from adds [OF p 3 None] show P .
    next
      case (Some k)
      from follows [OF p 3 Some aligned_indexByte(1) [OF al Some]] show P .
    qed
  qed
qed

lemma walk_static:
  assumes "\<not> reorders p n" and "aligned n" and "no_wildcards p"
    and "walk 0 p (Some h) n = Inr n'"
  shows "aligned n' \<and> static_map n' = (static_map n)(p \<mapsto> h) \<and>
    (lcp p (path (info n)) \<noteq> 0 \<longrightarrow> path (info n') \<noteq> [] \<and> first_byte n' = first_byte n)"
  using assms
proof (induction p n arbitrary: n' rule: reorders.induct)
  case (1 p f cs)
  note al = "1.prems"(2) and w = "1.prems"(4) and nr = "1.prems"(1) [unfolded reorders.simps Let_def]
  from al show ?case
  proof (cases rule: walk_cases [where p = p])
    case ends
    with walk_ends [OF al this] w show ?thesis by (metis panics_simps(2))
  next
    case (splits i r)
    have add: "add_new_child 0 r (Some h) (RouterNode (split_top i f) [split_child i f cs]) = Inr n'"
      using walk_splits [OF al splits(3,4,1,2)] w by simp
    have ne: "drop (lcp p (path f)) p \<noteq> []" using splits(1,3,4) by blast
    note al' = aligned_split [OF al splits(2)]
    have "indexByte (hd r) (indices (split_top i f)) = None" using splits(6) by (simp add: split_top_def)
    moreover have "\<not> priority (info (last [split_child i f cs])) < 1"
      using nr ne splits(2) by (simp add: split_child_def splits(1))
    moreover have "no_wildcards r" using no_wildcards_drop "1.prems"(3) splits(3) by blast
    ultimately have n': "aligned n'" "path (info n') = path (split_top i f)"
      "static_map n' = (static_map (RouterNode f cs))(path (split_top i f) @ r \<mapsto> h)"
      using walk_static_step [OF al' splits(4) _ _ _ add] static_map_split [OF splits(2), of cs]
      by simp_all
    moreover have "path (split_top i f) @ r = p" "path (split_top i f) = take i (path f)"
      using splits(5) by (simp_all add: split_top_def)
    ultimately show ?thesis using splits(1,2) by (cases i) (auto simp: first_byte_def)
  next
    case (follows r k)
    let ?c = "bump_priority (cs ! k)"
    from nr follows have stay: "\<not> (0 < k \<and> priority (info (cs ! (k - 1))) < priority (info (cs ! k)) + 1)"
      and nr': "\<not> reorders r ?c" by auto
    from incrementChildPrio_stays [OF follows(5) stay, of f] walk_follows [OF al _ _ _ follows(4)] follows w
    obtain c2 where c2: "walk 0 r (Some h) ?c = Inr c2" "n' = RouterNode f (cs[k := c2])"
      by (auto simp: go_res)
    have r: "no_wildcards r" using "1.prems"(3) follows(1) by simp
    have "lcp r (path (info ?c)) \<noteq> 0"
      using follows(2) aligned_indexByte(2) [OF al follows(4)] aligned_child [OF al follows(5)]
      by (cases r; cases "path (info (cs ! k))") (auto simp: first_byte_def)
    moreover have "r = drop (lcp p (path f)) p" using follows(1,3) by simp
    ultimately have "aligned c2" "static_map c2 = (static_map (cs ! k))(r \<mapsto> h)" "path (info c2) \<noteq> []"
      "first_byte c2 = first_byte (cs ! k)"
      using "1.IH" [of "lcp p (path f)" r k c2] follows(2-5) nr' r c2(1) aligned_child [OF al follows(5)]
      by auto
    then show ?thesis
      using aligned_update_child [OF al follows(5)] static_map_update_child [OF al follows(4,2)] follows(1) c2(2)
      by (auto simp: first_byte_def simp del: aligned.simps)
  next
    case (adds r)
    from nr adds have stay: "\<not> (cs \<noteq> [] \<and> priority (info (last cs)) < 1)" by auto
    from walk_adds [OF al _ adds(2,3,4)] adds(1) w have "add_new_child 0 r (Some h) (RouterNode f cs) = Inr n'"
      by simp
    from walk_static_step [OF al adds(2) _ adds(4) stay this] "1.prems"(3) adds(1,3)
    show ?thesis by (cases n') (auto simp: first_byte_def)
  qed
qed


section \<open>A move breaks the alignment\<close>

lemma aligned_length: "aligned n \<Longrightarrow> length (children n) = length (indices (info n))"
  by (cases n) auto

lemma add_new_child_moves:
  assumes "r \<noteq> []" and "\<not> is_wild (hd r)" and len: "length (indices f) = length cs"
    and "cs \<noteq> []" and "priority (info (last cs)) < 1"
    and add: "add_new_child 0 r h (RouterNode f cs) = Inr n'"
  shows "\<not> aligned n'"
proof -
  let ?f = "f\<lparr>indices := indices f @ [hd r]\<rparr>" and ?new = "RouterNode (zero_fields\<lparr>maxParams := 0\<rparr>) []"
  let ?n = "RouterNode ?f (cs @ [?new])"
  have prio: "priority (info ((cs @ [?new]) ! (length cs - 1))) <
      priority (info ((cs @ [?new]) ! length cs)) + 1"
    using assms(4,5) by (simp add: zero_fields_def nth_append last_conv_nth)
  from add assms(1,2) len obtain n1 j c where inc: "incrementChildPrio (length cs) ?n = Inr (n1, j)"
    and n': "n' = RouterNode (info n1) ((children n1)[j := c])"
    by (auto simp: add_new_child_def index_at_def hd_conv_nth is_wild_def go_res Let_def
        split: if_splits)
  have "length (children n1) < length (indices (info n1))"
    using incrementChildPrio_misaligns(2) [OF inc _ prio] assms(3,4) by simp
  then show ?thesis using aligned_length [of n'] n' by auto
qed

lemma walk_reorder_misaligns:
  assumes "reorders p n" and "aligned n" and "no_wildcards p" and "walk 0 p h n = Inr n'"
  shows "\<not> aligned n'"
  using assms
proof (induction p n arbitrary: n' rule: reorders.induct)
  case (1 p f cs)
  note al = "1.prems"(2) and w = "1.prems"(4) and nr = "1.prems"(1) [unfolded reorders.simps Let_def]
  from al show ?case
  proof (cases rule: walk_cases [where p = p])
    case ends
    with nr show ?thesis by simp
  next
    case (splits i r)
    have ne: "drop (lcp p (path f)) p \<noteq> []" using splits(1,3,4) by blast
    have r: "\<not> is_wild (hd r)"
      using no_wildcards_drop [OF "1.prems"(3), of i] splits(3,4) by (simp add: no_wildcards_def)
    have "priority (info (last [split_child i f cs])) < 1"
      using nr ne splits(2) by (simp add: split_child_def splits(1))
    moreover have add: "add_new_child 0 r h (RouterNode (split_top i f) [split_child i f cs]) = Inr n'"
      using walk_splits [OF al splits(3,4,1,2)] w by simp
    ultimately show ?thesis
      using add_new_child_moves [OF splits(4) r _ _ _ add] by simp
  next
    case (follows r k)
    let ?c = "bump_priority (cs ! k)" and ?n = "RouterNode f cs"
    from walk_follows [OF al _ follows(2,3,4)] follows(1) w obtain n2 j c2
      where inc: "incrementChildPrio k ?n = Inr (n2, j)"
        and c2: "walk 0 r h (children n2 ! j) = Inr c2"
        and n': "n' = RouterNode (info n2) ((children n2)[j := c2])"
      by (auto simp: go_res)
    show ?thesis
    proof (cases "0 < k \<and> priority (info (cs ! (k - 1))) < priority (info (cs ! k)) + 1")
      case True
      then have "length (children n2) < length (indices (info n2))"
        using incrementChildPrio_misaligns(2) [OF inc] aligned_fields(4) [OF al] by blast
      then show ?thesis using aligned_length [of n'] n' by auto
    next
      case False
      from incrementChildPrio_stays [OF follows(5) False, of f] inc
      have n2: "n2 = RouterNode f (cs[k := ?c])" "j = k" by simp_all
      have "reorders r ?c" using nr follows False by auto
      moreover have "no_wildcards r" using "1.prems"(3) follows(1) by simp
      moreover have "walk 0 r h ?c = Inr c2" using c2 n2 follows(5) by simp
      moreover have "r = drop (lcp p (path f)) p" using follows(1,3) by simp
      ultimately have "\<not> aligned c2"
        using "1.IH" [of "lcp p (path f)" r k c2] follows(2-5) aligned_child [OF al follows(5)]
        by simp
      then show ?thesis using n' n2 follows(5) by (auto simp: list_all_length)
    qed
  next
    case (adds r)
    have "\<not> is_wild (hd r)" using "1.prems"(3) adds(1,2) by (simp add: no_wildcards_def)
    moreover have "cs \<noteq> []" "priority (info (last cs)) < 1" using nr adds by auto
    ultimately show ?thesis
      using add_new_child_moves [OF adds(2) _ aligned_fields(4) [OF al]] walk_adds [OF al _ adds(2,3,4)]
        adds(1) w by auto
  qed
qed

section \<open>When a registration panics\<close>

text \<open>In a \<open>populated\<close> tree every leaf holds a handler chain, so every node leads to one.\<close>

fun populated :: "'h router_node \<Rightarrow> bool" where
  "populated (RouterNode f cs) \<longleftrightarrow> (cs = [] \<longrightarrow> handle f \<noteq> None) \<and> list_all populated cs"

lemma static_map_Some_prefix: "static_map (RouterNode f cs) q = Some h \<Longrightarrow> prefix (path f) q"
  by (auto simp: static_map.simps [of f cs] split: if_splits)

lemma static_map_child:
  assumes "aligned (RouterNode f cs)" and "i < length cs" and "static_map (cs ! i) q = Some h"
  shows "static_map (RouterNode f cs) (path f @ q) = Some h"
proof -
  from assms(3) have "prefix (path (info (cs ! i))) q"
    by (cases "cs ! i") (auto dest: static_map_Some_prefix)
  with aligned_child [OF assms(1,2)] have "q \<noteq> []" "hd q = first_byte (cs ! i)"
    by (auto simp: prefix_def first_byte_def)
  with aligned_index [OF assms(1,2)] assms(2,3) show ?thesis
    by (simp add: static_map_append)
qed

lemma populated_key:
  "aligned n \<Longrightarrow> populated n \<Longrightarrow> \<exists>q h. static_map n q = Some h \<and> prefix (path (info n)) q"
proof (induction n)
  case (RouterNode f cs)
  show ?case
  proof (cases cs)
    case Nil
    with RouterNode.prems show ?thesis
      by (auto simp: static_map.simps intro: exI [of _ "path f"])
  next
    case (Cons c cs')
    then have c: "c \<in> set cs" "0 < length cs" "cs ! 0 = c" by auto
    with RouterNode.prems obtain q h where "static_map c q = Some h"
      using RouterNode.IH [OF c(1)] by (auto simp: Cons)
    with static_map_child [OF RouterNode.prems(1) c(2)] c(3) show ?thesis by fastforce
  qed
qed

lemma populated_bump [simp]: "populated (bump_priority n) = populated n"
  by (cases n) (simp add: bump_priority_def)

lemma populated_child: "populated (RouterNode f cs) \<Longrightarrow> i < length cs \<Longrightarrow> populated (cs ! i)"
  by (simp add: list_all_length)


lemma add_new_child_succeeds:
  assumes "r \<noteq> []" and "no_wildcards r" and "length (indices f) = length cs"
    and "\<not> (cs \<noteq> [] \<and> priority (info (last cs)) < 1)"
  shows "\<not> panics (add_new_child 0 r h (RouterNode f cs))"
  using add_new_child_stays [OF assms(1) _ assms(3,4)] assms(1,2) by (simp add: no_wildcards_def)

text \<open>
  The registration panics exactly when the path ends inside the tree: when it is a prefix of
  a path that is registered already.
\<close>

lemma walk_panics_iff:
  assumes "\<not> reorders p n" and "aligned n" and "populated n" and "no_wildcards p"
  shows "panics (walk 0 p h n) \<longleftrightarrow> (\<exists>q v. static_map n q = Some v \<and> prefix p q)"
  using assms
proof (induction p n rule: reorders.induct)
  case (1 p f cs)
  note al = "1.prems"(2) and nr = "1.prems"(1) [unfolded reorders.simps Let_def]
  let ?keys = "\<lambda>p. \<exists>q v. static_map (RouterNode f cs) q = Some v \<and> prefix p q"
  from al show ?case
  proof (cases rule: walk_cases [where p = p])
    case ends
    then have "lcp p (path f) = length p" using lcp_le1 [of p "path f"] by simp
    then have "prefix p (path f)" by (simp add: lcp_eq_length1)
    then have "?keys p" using populated_key [OF al "1.prems"(3)] by (auto intro: prefix_order.trans)
    with walk_ends [OF al ends] show ?thesis by simp
  next
    case (splits i r)
    have ne: "drop (lcp p (path f)) p \<noteq> []" using splits(1,3,4) by blast
    have "\<not> priority (info (last [split_child i f cs])) < 1"
      using nr ne splits(2) by (simp add: split_child_def splits(1))
    then have "\<not> panics (walk 0 p h (RouterNode f cs))"
      using walk_splits [OF al splits(3,4,1,2)] no_wildcards_drop [OF "1.prems"(4), of i] splits(3)
        add_new_child_succeeds [OF splits(4), of "split_top i f" "[split_child i f cs]"] by simp
    moreover have "\<not> ?keys p"
    proof
      assume "?keys p"
      then obtain q where "prefix (path f) q" "prefix p q" by (auto dest: static_map_Some_prefix)
      then have "prefix (path f) p \<or> prefix p (path f)" by (rule prefix_same_cases)
      then have "prefix (drop i (path f)) r \<or> prefix r (drop i (path f))"
        using splits(5) by (metis append_take_drop_id same_prefix_prefix)
      moreover have "drop i (path f) \<noteq> []" "hd (drop i (path f)) = path f ! i"
        using splits(2) by (simp_all add: hd_drop_conv_nth)
      ultimately have "hd r = path f ! i" using splits(4) by (auto simp: prefix_def)
      with splits(6) show False by simp
    qed
    ultimately show ?thesis by blast
  next
    case (follows r k)
    let ?c = "bump_priority (cs ! k)"
    from nr follows have stay: "\<not> (0 < k \<and> priority (info (cs ! (k - 1))) < priority (info (cs ! k)) + 1)"
      and nr': "\<not> reorders r ?c" by auto
    have "panics (walk 0 p h (RouterNode f cs)) \<longleftrightarrow> panics (walk 0 r h ?c)"
      using incrementChildPrio_stays [OF follows(5) stay, of f] walk_follows [OF al _ follows(2,3,4)]
        follows(1,5) by (auto simp: panics_def rbind_def split: sum.splits)
    also have "r = drop (lcp p (path f)) p" using follows(1,3) by simp
    then have "panics (walk 0 r h ?c) \<longleftrightarrow> (\<exists>q v. static_map (cs ! k) q = Some v \<and> prefix r q)"
      using "1.IH" [of "lcp p (path f)" r k] follows(2-5) nr' aligned_child [OF al follows(5)]
        populated_child [OF "1.prems"(3) follows(5)] no_wildcards_drop [OF "1.prems"(4)] by simp
    also have "\<dots> \<longleftrightarrow> ?keys p"
    proof
      assume "\<exists>q v. static_map (cs ! k) q = Some v \<and> prefix r q"
      with static_map_child [OF al follows(5)] follows(1) show "?keys p" by (metis same_prefix_prefix)
    next
      assume "?keys p"
      then obtain q v where q: "static_map (RouterNode f cs) q = Some v" "prefix p q" by blast
      then obtain q' where q': "q = path f @ q'" "prefix r q'"
        using follows(1) by (auto simp: prefix_def)
      then have "q' \<noteq> []" "hd q' = hd r" using follows(2) by (auto simp: prefix_def)
      with q q' follows(4,5) show "\<exists>q v. static_map (cs ! k) q = Some v \<and> prefix r q"
        by (auto simp: static_map_append)
    qed
    finally show ?thesis .
  next
    case (adds r)
    from nr adds have stay: "\<not> (cs \<noteq> [] \<and> priority (info (last cs)) < 1)" by auto
    have "\<not> panics (walk 0 p h (RouterNode f cs))"
      using walk_adds [OF al _ adds(2,3,4)] adds(1) "1.prems"(4)
        add_new_child_succeeds [OF adds(2) _ aligned_fields(4) [OF al] stay] by simp
    moreover have "\<not> ?keys p"
    proof
      assume "?keys p"
      then obtain q v where q: "static_map (RouterNode f cs) q = Some v" "prefix p q" by blast
      then obtain q' where q': "q = path f @ q'" "prefix r q'"
        using adds(1) by (auto simp: prefix_def)
      then have "q' \<noteq> []" "hd q' = hd r" using adds(2) by (auto simp: prefix_def)
      with q q' adds(4) show False by (simp add: static_map_append)
    qed
    ultimately show ?thesis by blast
  qed
qed

lemma walk_populated:
  assumes "\<not> reorders p n" and "aligned n" and "populated n" and "no_wildcards p"
    and "walk 0 p (Some h) n = Inr n'"
  shows "populated n'"
  using assms
proof (induction p n arbitrary: n' rule: reorders.induct)
  case (1 p f cs)
  note al = "1.prems"(2) and w = "1.prems"(5) and nr = "1.prems"(1) [unfolded reorders.simps Let_def]
  have leaf: "populated (leaf r (Some h))" for r by (simp add: leaf_def)
  from al show ?case
  proof (cases rule: walk_cases [where p = p])
    case ends
    with walk_ends [OF al this] w show ?thesis by (metis panics_simps(2))
  next
    case (splits i r)
    have ne: "drop (lcp p (path f)) p \<noteq> []" using splits(1,3,4) by blast
    have stay: "\<not> priority (info (last [split_child i f cs])) < 1"
      using nr ne splits(2) by (simp add: split_child_def splits(1))
    have "no_wildcards r" using no_wildcards_drop "1.prems"(4) splits(3) by blast
    then have "\<not> is_wild (hd r)" using splits(4) by (simp add: no_wildcards_def)
    from add_new_child_stays [OF splits(4) this, of "split_top i f" "[split_child i f cs]"] stay walk_splits [OF al splits(3,4,1,2)] w
    show ?thesis using "1.prems"(3) leaf by (auto simp: split_child_def)
  next
    case (follows r k)
    let ?c = "bump_priority (cs ! k)"
    from nr follows have stay: "\<not> (0 < k \<and> priority (info (cs ! (k - 1))) < priority (info (cs ! k)) + 1)"
      and nr': "\<not> reorders r ?c" by auto
    from incrementChildPrio_stays [OF follows(5) stay, of f] walk_follows [OF al _ _ _ follows(4)] follows w
    obtain c2 where c2: "walk 0 r (Some h) ?c = Inr c2" "n' = RouterNode f (cs[k := c2])"
      by (auto simp: go_res)
    have "r = drop (lcp p (path f)) p" using follows(1,3) by simp
    then have "populated c2"
      using "1.IH" [of "lcp p (path f)" r k c2] follows(2-5) nr' c2(1) aligned_child [OF al follows(5)]
        populated_child [OF "1.prems"(3) follows(5)] no_wildcards_drop [OF "1.prems"(4)] by simp
    with c2(2) "1.prems"(3) follows(5) show ?thesis by (auto simp: list_all_length nth_list_update)
  next
    case (adds r)
    from nr adds have stay: "\<not> (cs \<noteq> [] \<and> priority (info (last cs)) < 1)" by auto
    have "\<not> is_wild (hd r)" using "1.prems"(4) adds(1,2) by (simp add: no_wildcards_def)
    from add_new_child_stays [OF adds(2) this aligned_fields(4) [OF al] stay] walk_adds [OF al _ adds(2,3,4)]
      adds(1) w
    show ?thesis using "1.prems"(3) leaf by auto
  qed
qed

end
