(* ===== verification/RouteTable.thy ===== *)
theory RouteTable
  imports TreeStatic
begin

text \<open>
  The contract between the tree of one request method and its clients (\<open>HttpRouter.Insert\<close>,
  \<open>HttpRouter.Match\<close> and the registration loop of \<open>Engine.init\<close>): what a lookup returns after
  a registration, and when a registration panics.  The routing tree of \<open>core/tree.go\<close> is an
  instance on static routes.
\<close>

section \<open>The contract and its client\<close>

text \<open>
  Registering the routes of one method in order, as the inner loop of \<open>Engine.init\<close> does; a
  panic ends the loop.  \<open>admissible_all\<close> says that each route is admissible when its turn comes.
\<close>

fun insert_all :: "(string \<Rightarrow> 'v \<Rightarrow> 't \<Rightarrow> 't res) \<Rightarrow> (string \<times> 'v) list \<Rightarrow> 't \<Rightarrow> 't res" where
  "insert_all ins [] t = Inr t"
| "insert_all ins ((p, v) # kvs) t = rbind (ins p v t) (insert_all ins kvs)"

fun admissible_all ::
  "(string \<Rightarrow> 'v \<Rightarrow> 't \<Rightarrow> 't res) \<Rightarrow> (string \<Rightarrow> 't \<Rightarrow> bool) \<Rightarrow> (string \<times> 'v) list \<Rightarrow> 't \<Rightarrow> bool" where
  "admissible_all ins adm [] t = True"
| "admissible_all ins adm ((p, v) # kvs) t =
     (adm p t \<and> (case ins p v t of Inl _ \<Rightarrow> True | Inr t' \<Rightarrow> admissible_all ins adm kvs t'))"

text \<open>No path is a prefix of one that comes before it.\<close>

definition never_shorter :: "string list \<Rightarrow> bool" where
  "never_shorter ps \<longleftrightarrow> sorted_wrt (\<lambda>q p. \<not> prefix p q) ps"

locale route_table =
  fixes inv :: "'t \<Rightarrow> bool"
    and ins :: "string \<Rightarrow> 'v \<Rightarrow> 't \<Rightarrow> 't res"
    and find :: "'t \<Rightarrow> string \<Rightarrow> 'v option"
    and adm :: "string \<Rightarrow> 't \<Rightarrow> bool"
  assumes ins_inv: "inv t \<Longrightarrow> adm p t \<Longrightarrow> ins p v t = Inr t' \<Longrightarrow> inv t'"
    and ins_find: "inv t \<Longrightarrow> adm p t \<Longrightarrow> ins p v t = Inr t' \<Longrightarrow> find t' = (find t)(p \<mapsto> v)"
    and ins_panics: "inv t \<Longrightarrow> adm p t \<Longrightarrow>
      panics (ins p v t) \<longleftrightarrow> (\<exists>q w. find t q = Some w \<and> prefix p q)"
begin

lemma insert_all_correct:
  "inv t \<Longrightarrow> admissible_all ins adm kvs t \<Longrightarrow> insert_all ins kvs t = Inr t' \<Longrightarrow>
   inv t' \<and> find t' = find t ++ map_of (rev kvs)"
proof (induction kvs arbitrary: t)
  case (Cons kv kvs)
  obtain p v where kv: "kv = (p, v)" by fastforce
  with Cons.prems(3) obtain t1 where t1: "ins p v t = Inr t1" "insert_all ins kvs t1 = Inr t'"
    by (auto simp: go_res)
  from Cons.prems(2) kv t1 have adm: "adm p t" "admissible_all ins adm kvs t1" by simp_all
  note ins = ins_inv [OF Cons.prems(1) adm(1) t1(1)] ins_find [OF Cons.prems(1) adm(1) t1(1)]
  have "find t ++ map_of (rev (kv # kvs)) = find t1 ++ map_of (rev kvs)"
    by (rule ext) (simp add: ins(2) kv map_add_def split: option.split)
  with Cons.IH [OF ins(1) adm(2) t1(2)] show ?case by simp
qed simp

lemma insert_all_returns_iff:
  "inv t \<Longrightarrow> admissible_all ins adm kvs t \<Longrightarrow>
   \<not> panics (insert_all ins kvs t) \<longleftrightarrow>
     never_shorter (map fst kvs) \<and>
     (\<forall>p\<in>fst ` set kvs. \<forall>q w. find t q = Some w \<longrightarrow> \<not> prefix p q)"
proof (induction kvs arbitrary: t)
  case Nil
  show ?case by (simp add: never_shorter_def)
next
  case (Cons kv kvs)
  obtain p v where kv: "kv = (p, v)" by fastforce
  with Cons.prems(2) have adm: "adm p t" by simp
  note pan = ins_panics [OF Cons.prems(1) adm, of v]
  show ?case
  proof (cases "ins p v t")
    case (Inl e)
    with pan kv show ?thesis by auto
  next
    case (Inr t1)
    with Cons.prems(2) kv have "admissible_all ins adm kvs t1" by simp
    note IH = Cons.IH [OF ins_inv [OF Cons.prems(1) adm Inr] this]
    have f: "(\<forall>q w. find t1 q = Some w \<longrightarrow> \<not> prefix a q) \<longleftrightarrow>
        \<not> prefix a p \<and> (\<forall>q w. find t q = Some w \<longrightarrow> \<not> prefix a q)" for a
      using ins_find [OF Cons.prems(1) adm Inr] by (metis fun_upd_apply option.inject)
    from pan Inr have "\<And>q w. find t q = Some w \<Longrightarrow> \<not> prefix p q" by (metis panics_simps(2))
    then have "(\<forall>q w. find t q = Some w \<longrightarrow> \<not> prefix p q)" by blast
    moreover have "\<not> panics (insert_all ins (kv # kvs) t) \<longleftrightarrow> \<not> panics (insert_all ins kvs t1)"
      by (simp add: kv Inr)
    ultimately show ?thesis
      unfolding IH f by (simp add: kv never_shorter_def ball_conj_distrib conj_ac)
  qed
qed

lemma registered_is_found:
  assumes "inv t" and "\<And>q. find t q = None" and "admissible_all ins adm kvs t"
    and "insert_all ins kvs t = Inr t'"
  shows "distinct (map fst kvs)" and "find t' = map_of kvs"
proof -
  have "never_shorter (map fst kvs)"
    using insert_all_returns_iff [OF assms(1,3)] assms(4) by simp
  then have "\<And>i j. i < j \<Longrightarrow> j < length kvs \<Longrightarrow> map fst kvs ! i \<noteq> map fst kvs ! j"
    unfolding never_shorter_def
    by (metis length_map prefix_order.refl sorted_wrt_iff_nth_less)
  then show d: "distinct (map fst kvs)"
    by (metis distinct_conv_nth length_map linorder_neqE_nat)
  have "find t' = map_of (rev kvs)"
    using insert_all_correct [OF assms(1,3,4)] assms(2) by (auto simp: fun_eq_iff map_add_def split: option.split)
  also have "map_of (rev kvs) = map_of kvs"
    using d by (auto intro!: map_of_inject_set [THEN iffD2] simp: rev_map [symmetric])
  finally show "find t' = map_of kvs" .
qed

end

section \<open>The routing tree as a table\<close>

definition empty_tree :: "'h router_node \<Rightarrow> bool" where
  "empty_tree t \<longleftrightarrow> path (info t) = [] \<and> children t = []"

text \<open>The tree of a method to which only static routes have been added, and whose indices still name its children
  (\<open>aligned\<close>): a tree of static routes stops to be one of these once a registration has moved a child.\<close>

definition static_table :: "'h router_node \<Rightarrow> bool" where
  "static_table t \<longleftrightarrow>
     aligned t \<and> (if empty_tree t then handle (info t) = None else populated t)"

text \<open>The node that \<open>addRoute\<close> starts its walk from: the root with its path and priority updated.\<close>

definition addRoute_root :: "string \<Rightarrow> 'h router_node \<Rightarrow> 'h router_node" where
  "addRoute_root p t = RouterNode ((info t)\<lparr>fullPath := p, priority := priority (info t) + 1\<rparr>) (children t)"

definition addRoute_reorders :: "string \<Rightarrow> 'h router_node \<Rightarrow> bool" where
  "addRoute_reorders p t \<longleftrightarrow> \<not> empty_tree t \<and> reorders p (addRoute_root p t)"

definition admissible :: "string \<Rightarrow> 'h router_node \<Rightarrow> bool" where
  "admissible p t \<longleftrightarrow> p \<noteq> [] \<and> no_wildcards p \<and> \<not> addRoute_reorders p t"

definition lookup_handle :: "'h router_node \<Rightarrow> string \<Rightarrow> 'h list option" where
  "lookup_handle t p = (case getValue t p of Inl _ \<Rightarrow> None | Inr (h, _, _) \<Rightarrow> h)"

lemma addRoute_walk:
  "\<not> empty_tree t \<Longrightarrow> no_wildcards p \<Longrightarrow> addRoute p h t = walk 0 p h (addRoute_root p t)"
  by (auto simp: addRoute_def empty_tree_def addRoute_root_def Let_def wildcardNum_static)

lemma addRoute_empty:
  "empty_tree t \<Longrightarrow> no_wildcards p \<Longrightarrow> addRoute p h t =
    Inr (RouterNode ((info t)\<lparr>fullPath := p, priority := priority (info t) + 1, path := p,
      handle := h, nType := Root\<rparr>) [])"
  by (simp add: addRoute_def empty_tree_def Let_def wildcardNum_static insertChild_def)

lemma addRoute_root_simps [simp]:
  "aligned (addRoute_root p t) = aligned t" "populated (addRoute_root p t) = populated t"
  "static_map (addRoute_root p t) = static_map t"
  by (cases t; auto simp: addRoute_root_def intro!: static_map_cong)+

lemma getValue_aligned:
  "aligned t \<Longrightarrow> \<exists>tsr. getValue t p = Inr (static_map t p, None, tsr)"
  unfolding getValue_def by (rule getValue_loop_aligned)

lemma lookup_aligned:
  assumes "aligned t" shows "lookup_handle t = static_map t"
proof
  fix q
  from getValue_aligned [OF assms, of q] show "lookup_handle t q = static_map t q"
    by (auto simp: lookup_handle_def)
qed

lemma static_map_empty_tree:
  "aligned t \<Longrightarrow> empty_tree t \<Longrightarrow> static_map t q = (if q = [] then handle (info t) else None)"
  by (cases t) (auto simp: empty_tree_def static_map.simps)

lemma static_table_zero: "static_table zero_node"
  by (simp add: static_table_def zero_node_def zero_fields_def empty_tree_def less_eq_node_type_def)

lemma lookup_zero: "lookup_handle zero_node q = None"
proof -
  have al: "aligned (zero_node :: 'a router_node)"
    by (simp add: zero_node_def zero_fields_def less_eq_node_type_def)
  show ?thesis
    using static_map_empty_tree [OF al] lookup_aligned [OF al]
    by (simp add: zero_node_def zero_fields_def empty_tree_def)
qed

lemma addRoute_static:
  assumes "static_table t" and "admissible p t" and "addRoute p (Some h) t = Inr t'"
  shows "static_table t'" and "static_map t' = (static_map t)(p \<mapsto> h)"
proof -
  from assms(1) have al: "aligned t" by (simp add: static_table_def)
  from assms(2) have p: "p \<noteq> []" "no_wildcards p" "\<not> addRoute_reorders p t"
    by (simp_all add: admissible_def)
  have "static_table t' \<and> static_map t' = (static_map t)(p \<mapsto> h)"
  proof (cases "empty_tree t")
    case True
    from addRoute_empty [OF True p(2)] assms(3) have t': "t' = RouterNode ((info t)\<lparr>fullPath := p,
      priority := priority (info t) + 1, path := p, handle := Some h, nType := Root\<rparr>) []" by simp
    from True al assms(1) p(1) show ?thesis
      by (cases t) (auto simp: t' static_table_def empty_tree_def static_map.simps)
  next
    case False
    from p(3) False have nr: "\<not> reorders p (addRoute_root p t)" by (simp add: addRoute_reorders_def)
    from addRoute_walk [OF False p(2)] assms(3)
    have w: "walk 0 p (Some h) (addRoute_root p t) = Inr t'" by simp
    from walk_static [OF nr _ p(2) w] al
    have t': "aligned t'" "static_map t' = (static_map t)(p \<mapsto> h)" by simp_all
    moreover have "populated t'"
      using walk_populated [OF nr _ _ p(2) w] al assms(1) False by (simp add: static_table_def)
    moreover have "\<not> empty_tree t'"
      using static_map_empty_tree [OF t'(1), of p] t'(2) p(1) by auto
    ultimately show ?thesis by (simp add: static_table_def)
  qed
  then show "static_table t'" "static_map t' = (static_map t)(p \<mapsto> h)" by simp_all
qed

lemma addRoute_panics:
  assumes "static_table t" and "admissible p t"
  shows "panics (addRoute p (Some h) t) \<longleftrightarrow> (\<exists>q w. static_map t q = Some w \<and> prefix p q)"
proof (cases "empty_tree t")
  case True
  then show ?thesis
    using assms static_map_empty_tree [of t] addRoute_empty [OF True, of p "Some h"]
    by (auto simp: static_table_def admissible_def split: if_splits)
next
  case False
  then show ?thesis
    using assms walk_panics_iff [of p "addRoute_root p t" "Some h"] addRoute_walk [OF False]
    by (simp add: static_table_def admissible_def addRoute_reorders_def)
qed

interpretation tree_table: route_table static_table "\<lambda>p h. addRoute p (Some h)" lookup_handle admissible
proof
  fix t :: "'h router_node" and p h t'
  assume t: "static_table t" "admissible p t"
  note al = this(1) [unfolded static_table_def, THEN conjunct1]
  show "panics (addRoute p (Some h) t) \<longleftrightarrow> (\<exists>q w. lookup_handle t q = Some w \<and> prefix p q)"
    using addRoute_panics [OF t] lookup_aligned [OF al] by simp
  assume a: "addRoute p (Some h) t = Inr t'"
  show st: "static_table t'" by (rule addRoute_static(1) [OF t a])
  show "lookup_handle t' = (lookup_handle t)(p \<mapsto> h)"
    unfolding lookup_aligned [OF st [unfolded static_table_def, THEN conjunct1]] lookup_aligned [OF al]
    by (rule addRoute_static(2) [OF t a])
qed

section \<open>Static routes: what the contract gives\<close>

text \<open>A table with one route, to apply the properties to.\<close>

definition table_a :: "nat router_node" where
  "table_a = RouterNode (zero_fields\<lparr>fullPath := ''/a'', path := ''/a'', nType := Root,
     priority := 1, handle := Some [1]\<rparr>) []"

declare table_a_def [code_unfold]

lemma table_a_from_zero: "addRoute ''/a'' (Some [1]) zero_node = Inr table_a"
  by code_simp

lemma admissible_zero: "admissible p zero_node \<longleftrightarrow> p \<noteq> [] \<and> no_wildcards p"
  by (simp add: admissible_def addRoute_reorders_def empty_tree_def zero_node_def zero_fields_def)

lemma table_a_static: "static_table table_a"
  by (rule addRoute_static(1) [OF static_table_zero _ table_a_from_zero])
    (simp add: admissible_zero no_wildcards_def is_wild_def)

lemma table_a_admissible: "admissible ''/b'' table_a" "admissible ''/'' table_a"
  by (simp_all add: admissible_def no_wildcards_def is_wild_def addRoute_reorders_def addRoute_root_def
      table_a_def zero_fields_def reorders.simps)

text \<open>C2: on a table of static routes whose indices still name the children (\<open>static_table\<close>), registering a
  static route that is not empty and moves no child (\<open>admissible\<close>) changes the lookup of exactly that path: \<open>getValue\<close> returns the new handler chain for it and what it returned before for
  every other path, without a panic and without captured parameters; and the tree stays one to
  which this applies again.\<close>

theorem addRoute_lookup:
  assumes "static_table t" and "admissible p t" and "addRoute p (Some h) t = Inr t'"
  shows "static_table t' \<and>
    (\<exists>tsr. getValue t' q = Inr (if q = p then Some h else lookup_handle t q, None, tsr))"
proof -
  note st = tree_table.ins_inv [OF assms]
  from st have al: "aligned t'" by (simp add: static_table_def)
  have "static_map t' = (lookup_handle t)(p \<mapsto> h)"
    using tree_table.ins_find [OF assms] lookup_aligned [OF al] by simp
  with getValue_aligned [OF al, of q] st show ?thesis by simp
qed

theorem addRoute_lookup_witness:
  "\<exists>t' tsr. addRoute ''/b'' (Some [2]) table_a = Inr t' \<and> getValue t' ''/a'' = Inr (Some [1], None, tsr)"
proof -
  have "\<not> panics (addRoute ''/b'' (Some [2]) table_a)" by code_simp
  then obtain t' where t': "addRoute ''/b'' (Some [2]) table_a = Inr t'"
    by (auto simp: panics_iff)
  have "lookup_handle table_a ''/a'' = Some [1]" by code_simp
  with addRoute_lookup [OF table_a_static table_a_admissible(1) t', of "''/a''"] t'
  show ?thesis by simp
qed

text \<open>C3: on a table of static routes whose indices still name the children, registering a static route that is
  not empty and moves no child panics exactly when its path is a prefix of a path that is registered already. For an equal path that is the panic the code means to raise; a proper
  prefix is refused because the code goes on to read the first byte of the empty rest.\<close>

theorem addRoute_panics_iff:
  assumes "static_table t" and "admissible p t"
  shows "panics (addRoute p (Some h) t) \<longleftrightarrow> (\<exists>q w. lookup_handle t q = Some w \<and> prefix p q)"
  by (rule tree_table.ins_panics [OF assms])

theorem addRoute_panics_iff_witness: "panics (addRoute ''/'' (Some [2]) table_a)"
proof -
  have "lookup_handle table_a ''/a'' = Some [1]" by code_simp
  then show ?thesis
    using addRoute_panics_iff [OF table_a_static table_a_admissible(2)] by auto
qed

text \<open>C1: registering a list of static routes, none of them empty, one after the other on an empty tree, where no
  registration moves a child (\<open>admissible_all\<close>), returns exactly when no path is a prefix of an earlier one;
  then the paths are distinct and the lookup of any path is the handler chain registered for it.  Once a
  registration has moved a child this is lost: \<open>indices\<close> no longer names the children.\<close>

theorem register_all_correct:
  assumes "admissible_all (\<lambda>p h. addRoute p (Some h)) admissible kvs (zero_node :: 'h router_node)"
  shows "case insert_all (\<lambda>p h. addRoute p (Some h)) kvs zero_node of
      Inl _ \<Rightarrow> \<not> never_shorter (map fst kvs)
    | Inr t \<Rightarrow> never_shorter (map fst kvs) \<and> distinct (map fst kvs) \<and> lookup_handle t = map_of kvs"
proof (cases "insert_all (\<lambda>p h. addRoute p (Some h)) kvs (zero_node :: 'h router_node)")
  case (Inl e)
  with tree_table.insert_all_returns_iff [OF static_table_zero assms] show ?thesis
    by (simp add: lookup_zero)
next
  case (Inr t)
  with tree_table.insert_all_returns_iff [OF static_table_zero assms]
    tree_table.registered_is_found [OF static_table_zero lookup_zero assms Inr]
  show ?thesis by (simp add: lookup_zero)
qed

theorem register_all_correct_witness:
  "\<exists>t. insert_all (\<lambda>p h. addRoute p (Some h)) [(''/a'', [1::nat]), (''/b'', [2])] zero_node = Inr t \<and>
     lookup_handle t ''/b'' = Some [2] \<and> lookup_handle t ''/c'' = None"
proof -
  let ?kvs = "[(''/a'', [1::nat]), (''/b'', [2])]"
  have adm: "admissible_all (\<lambda>p h. addRoute p (Some h)) admissible ?kvs zero_node"
    using table_a_admissible(1)
    by (simp add: table_a_from_zero [simplified] admissible_zero no_wildcards_def is_wild_def split: sum.split)
  have "never_shorter (map fst ?kvs)" by (simp add: never_shorter_def)
  then show ?thesis
    using register_all_correct [OF adm]
    by (cases "insert_all (\<lambda>p h. addRoute p (Some h)) ?kvs (zero_node :: nat router_node)") simp_all
qed

text \<open>C18: on a table of static routes whose indices still name the children, a registration of a static route
  that returns keeps the bytes of \<open>indices\<close> in step with the children, all
  the way down, exactly when no step of the walk moves a child: whenever \<open>incrementChildPrio\<close>
  reorders children the tree it leaves is broken.\<close>

theorem addRoute_aligned_iff:
  assumes "static_table t" and "p \<noteq> []" and "no_wildcards p" and "addRoute p (Some h) t = Inr t'"
  shows "aligned t' \<longleftrightarrow> \<not> addRoute_reorders p t"
proof
  show "aligned t'" if "\<not> addRoute_reorders p t"
    using addRoute_static(1) [OF assms(1) _ assms(4)] that assms(2,3)
    by (simp add: admissible_def static_table_def)
  show "\<not> addRoute_reorders p t" if al: "aligned t'"
  proof
    assume r: "addRoute_reorders p t"
    then have ne: "\<not> empty_tree t" "reorders p (addRoute_root p t)" by (simp_all add: addRoute_reorders_def)
    from assms(1) have "aligned (addRoute_root p t)" by (simp add: static_table_def)
    from walk_reorder_misaligns [OF ne(2) this assms(3)] assms(4) addRoute_walk [OF ne(1) assms(3)] al
    show False by simp
  qed
qed


theorem addRoute_aligned_iff_witness:
  "\<exists>t t'. addRoute ''/b1'' (Some [2]) table_a = Inr t \<and> addRoute ''/b2'' (Some [3]) t = Inr t' \<and>
     \<not> aligned t'"
proof -
  have adm: "admissible ''/b1'' table_a"
    by (simp add: admissible_def no_wildcards_def is_wild_def addRoute_reorders_def addRoute_root_def
        table_a_def zero_fields_def reorders.simps)
  define t where "t = projr (addRoute ''/b1'' (Some [2]) table_a)"
  have t: "addRoute ''/b1'' (Some [2]) table_a = Inr t" unfolding t_def by code_simp
  have "\<not> panics (addRoute ''/b2'' (Some [3]) t)" unfolding t_def by code_simp
  then obtain t' where t': "addRoute ''/b2'' (Some [3]) t = Inr t'" by (auto simp: panics_iff)
  have "addRoute_reorders ''/b2'' t" unfolding t_def by code_simp
  moreover have "no_wildcards ''/b2''" by (simp add: no_wildcards_def is_wild_def)
  ultimately have "\<not> aligned t'"
    using addRoute_aligned_iff [OF addRoute_static(1) [OF table_a_static adm t] _ _ t'] by simp
  with t t' show ?thesis by blast
qed

end
