(* ===== verification/TreeWildcard.thy ===== *)
theory TreeWildcard
  imports RouteTable
begin

text \<open>
  Routes with wildcards.  \<open>parse\<close> is the pattern that a route's text denotes; the main result
  says which routes a fresh node holds after \<open>insertChild\<close>: the pattern with its handler chain
  when the route ends in a catch-all, and nothing at all when its last wildcard is a parameter,
  because the code stores a handler only in the catch-all branch.
\<close>

section \<open>The pattern of a route's text\<close>

definition segment :: "string \<Rightarrow> string" where
  "segment s = takeWhile (\<lambda>c. c \<noteq> CHR ''/'') s"

definition after_segment :: "string \<Rightarrow> string" where
  "after_segment s = dropWhile (\<lambda>c. c \<noteq> CHR ''/'') s"

lemma after_segment_length [termination_simp]:
  "length (after_segment s) < Suc (length s)" "length (after_segment (tl s)) < Suc (length s)"
  using length_dropWhile_le [of "\<lambda>c. c \<noteq> CHR ''/''" s]
    length_dropWhile_le [of "\<lambda>c. c \<noteq> CHR ''/''" "tl s"]
  by (simp_all add: after_segment_def)

fun parse :: "string \<Rightarrow> pattern" where
  "parse [] = []"
| "parse (c # s) =
     (if c = CHR '':'' then PVar (segment s) # parse (after_segment s)
      else if c = CHR ''/'' \<and> s \<noteq> [] \<and> hd s = CHR ''*''
        then PRest (segment (tl s)) # parse (after_segment (tl s))
      else Byte c # parse s)"

definition wilds :: "string \<Rightarrow> nat" where
  "wilds s = length (filter is_wild s)"

definition has_rest :: "pattern \<Rightarrow> bool" where
  "has_rest q \<longleftrightarrow> list_ex (\<lambda>x. case x of PRest _ \<Rightarrow> True | _ \<Rightarrow> False) q"

lemma has_rest_simps [simp]:
  "has_rest (q @ r) \<longleftrightarrow> has_rest q \<or> has_rest r" "\<not> has_rest (map Byte s)" "\<not> has_rest []"
  "has_rest (PRest k # q)" "has_rest (PVar k # q) \<longleftrightarrow> has_rest q"
  "has_rest (Byte c # q) \<longleftrightarrow> has_rest q"
  by (auto simp: has_rest_def list_ex_iff)

lemma wilds_simps [simp]:
  "wilds [] = 0" "wilds (c # s) = (if is_wild c then Suc (wilds s) else wilds s)"
  "wilds (s @ t) = wilds s + wilds t"
  by (simp_all add: wilds_def)

lemma wilds_0: "wilds s = 0 \<longleftrightarrow> no_wildcards s"
  by (simp add: wilds_def no_wildcards_def filter_empty_conv)

lemma wildcardNum_exact: "wilds p \<le> 255 \<Longrightarrow> wildcardNum p = of_nat (wilds p)"
proof (cases "wilds p = 255")
  case True
  then have "wildcardNum p = maxParamCount" by (simp add: wildcardNum_def wilds_def)
  also have "\<dots> = 255" by (simp add: maxParamCount_def)
  finally show ?thesis by (simp add: True)
qed (simp add: wildcardNum_def wilds_def)

lemma parse_static_append:
  "no_wildcards s \<Longrightarrow> \<not> (t \<noteq> [] \<and> hd t = CHR ''*'') \<Longrightarrow> parse (s @ t) = map Byte s @ parse t"
proof (induction s)
  case (Cons c s)
  then have "c \<noteq> CHR '':''" "\<not> (s @ t \<noteq> [] \<and> hd (s @ t) = CHR ''*'')"
    by (auto simp: is_wild_def hd_append no_wildcards_def)
  with Cons show ?case by simp
qed simp

lemma parse_static: "no_wildcards s \<Longrightarrow> parse s = map Byte s"
  using parse_static_append [of s "[]"] by simp

lemma wildcard_end_segment:
  assumes "wildcard_end s k = Some e"
  shows "e = k + length (segment s)" and "no_wildcards (segment s)"
  using assms
proof (induction s arbitrary: k)
  case (Cons c s)
  {
    case 1
    then show ?case using Cons.IH(1) [of "Suc k"] by (simp add: segment_def split: if_splits)
  next
    case 2
    then show ?case using Cons.IH(2) [of "Suc k"] by (auto simp: segment_def split: if_splits)
  }
qed (simp_all add: segment_def)

lemma segment_after: "segment s @ after_segment s = s"
  by (simp add: segment_def after_segment_def)

lemma segment_full:
  assumes "length (segment s) = length s"
  shows "segment s = s" and "after_segment s = []"
proof -
  have "length (after_segment s) = 0"
    using arg_cong [OF segment_after [of s], of length] assms by simp
  then show "after_segment s = []" by simp
  with segment_after [of s] show "segment s = s" by simp
qed

lemma after_segment_hd: "after_segment s \<noteq> [] \<Longrightarrow> hd (after_segment s) = CHR ''/''"
  unfolding after_segment_def by (induction s) auto

text \<open>The bytes between the part already stored and the scan are free of wildcards.\<close>

lemma scan_offset:
  assumes "wilds (drop i p) = wilds (drop ofs p)" and "i < length p" and "is_wild (p ! i)"
  shows "ofs \<le> i" and "no_wildcards (take (i - ofs) (drop ofs p))"
proof -
  have d: "drop i p = p ! i # drop (Suc i) p" using assms(2) by (simp add: Cons_nth_drop_Suc)
  show le: "ofs \<le> i"
  proof (rule ccontr)
    assume "\<not> ofs \<le> i"
    then have "drop (Suc i) p = take (ofs - Suc i) (drop (Suc i) p) @ drop ofs p"
      by (metis append_take_drop_id drop_drop not_less_eq_eq le_add_diff_inverse2)
    then have "wilds (drop ofs p) \<le> wilds (drop (Suc i) p)" by (metis le_add2 wilds_simps(3))
    with d assms(1,3) show False by simp
  qed
  then have "drop ofs p = take (i - ofs) (drop ofs p) @ drop i p"
    by (metis append_take_drop_id drop_drop le_add_diff_inverse2)
  with assms(1) have "wilds (take (i - ofs) (drop ofs p)) = 0"
    by (metis add_cancel_right_left wilds_simps(3))
  then show "no_wildcards (take (i - ofs) (drop ofs p))" by (simp add: wilds_0)
qed


section \<open>What insertChild stores\<close>

text \<open>A node of which only the bookkeeping fields are set, as \<open>insertChild\<close> gets it.\<close>

definition fresh :: "'h router_node \<Rightarrow> bool" where
  "fresh n \<longleftrightarrow> children n = [] \<and> path (info n) = [] \<and> handle (info n) = None \<and> \<not> wildChild (info n)"

definition stored_routes :: "string \<Rightarrow> 'h list \<Rightarrow> (pattern \<times> 'h list) list" where
  "stored_routes p h = (if has_rest (parse p) then [(parse p, h)] else [])"

lemma fresh_routes: "fresh n \<Longrightarrow> routes n = []"
  by (cases n) (simp add: fresh_def own_route_def)

lemma fresh_created [simp]:
  "fresh (RouterNode (zero_fields\<lparr>maxParams := m, priority := q\<rparr>) [])"
  "fresh (RouterNode (zero_fields\<lparr>nType := t, maxParams := m, priority := q\<rparr>) [])"
  by (simp_all add: fresh_def zero_fields_def)

lemma insert_catchAll_Inr:
  assumes "insert_catchAll w p full h ofs i e f = Inr n'"
  shows "e = length p" and "0 < i" and "p ! (i - 1) = CHR ''/''" and "ofs \<le> i - 1"
    and "n' = RouterNode (f\<lparr>path := take (i - 1 - ofs) (drop ofs p),
        maxParams := (if maxParams f < 1 then 1 else maxParams f), indices := [p ! (i - 1)]\<rparr>)
      [RouterNode (zero_fields\<lparr>wildChild := True, nType := CatchAll, maxParams := 1, priority := 1\<rparr>)
        [RouterNode (zero_fields\<lparr>path := drop (i - 1) p, nType := CatchAll, maxParams := 1,
          handle := h, priority := 1\<rparr>) []]]"
proof -
  from assms show e: "e = length p"
    unfolding insert_catchAll_def by (rule contrapos_pp) simp
  with assms show i: "0 < i"
    unfolding insert_catchAll_def by (cases i) (simp_all split: if_splits)
  with e assms show sl: "p ! (i - 1) = CHR ''/''"
    unfolding insert_catchAll_def Let_def by (simp split: if_splits)
  from assms e i sl have "rbind (substr p ofs (i - 1)) (\<lambda>pre. Inr (RouterNode (f\<lparr>path := pre,
        maxParams := (if maxParams f < 1 then 1 else maxParams f), indices := [p ! (i - 1)]\<rparr>)
      [RouterNode (zero_fields\<lparr>wildChild := True, nType := CatchAll, maxParams := 1, priority := 1\<rparr>)
        [RouterNode (zero_fields\<lparr>path := drop (i - 1) p, nType := CatchAll, maxParams := 1,
          handle := h, priority := 1\<rparr>) []]])) = Inr n'"
    unfolding insert_catchAll_def Let_def by (simp split: if_splits)
  then show "ofs \<le> i - 1"
    and "n' = RouterNode (f\<lparr>path := take (i - 1 - ofs) (drop ofs p),
        maxParams := (if maxParams f < 1 then 1 else maxParams f), indices := [p ! (i - 1)]\<rparr>)
      [RouterNode (zero_fields\<lparr>wildChild := True, nType := CatchAll, maxParams := 1, priority := 1\<rparr>)
        [RouterNode (zero_fields\<lparr>path := drop (i - 1) p, nType := CatchAll, maxParams := 1,
          handle := h, priority := 1\<rparr>) []]]"
    unfolding rbind_eq_Inr substr_eq_Inr by blast+
qed

lemma catchAll_routes:
  assumes ins: "insert_catchAll w p full (Some h) ofs i e (info n) = Inr n'"
    and n: "fresh n" and e: "e = Suc i + length (segment (drop (Suc i) p))" and i: "i < length p"
    and star: "p ! i = CHR ''*''" and pre: "no_wildcards (take (i - ofs) (drop ofs p))"
  shows "routes n' = stored_routes (drop ofs p) h"
proof -
  let ?name = "drop (Suc i) p" and ?pre = "take (i - 1 - ofs) (drop ofs p)"
  note inv = insert_catchAll_Inr [OF ins]
  have d: "drop (i - 1) p = CHR ''/'' # CHR ''*'' # ?name"
    using Cons_nth_drop_Suc [of "i - 1" p] Cons_nth_drop_Suc [of i p] inv(2,3) i star by simp
  have "length (segment ?name) = length ?name" using e inv(1) i unfolding length_drop by linarith
  then have seg: "segment ?name = ?name" "after_segment ?name = []"
    by (simp_all add: segment_full)
  have p: "drop ofs p = ?pre @ CHR ''/'' # CHR ''*'' # ?name"
    using d inv(4) by (metis append_take_drop_id drop_drop le_add_diff_inverse2)
  have "?pre = take (i - 1 - ofs) (take (i - ofs) (drop ofs p))" by (simp add: min_def)
  then have "no_wildcards ?pre"
    using pre by (metis append_take_drop_id no_wildcards_append(1))
  then have "parse (?pre @ CHR ''/'' # CHR ''*'' # ?name) = map Byte ?pre @ [PRest ?name]"
    using parse_static_append [of ?pre "CHR ''/'' # CHR ''*'' # ?name"] by (simp add: seg)
  then have "stored_routes (drop ofs p) h = [(map Byte ?pre @ [PRest ?name], h)]"
    by (simp only: p [symmetric] stored_routes_def) simp
  moreover have "routes n' = [(map Byte ?pre @ [PRest ?name], h)]"
    using n d by (simp add: inv(5) own_route_def under_def zero_fields_def fresh_def)
  ultimately show ?thesis by simp
qed

text \<open>The parameter branch: the node ends at the parameter, which ends the path or goes on.\<close>

definition param_parent :: "'h node_fields \<Rightarrow> string \<Rightarrow> 'h node_fields" where
  "param_parent f pre = f\<lparr>path := pre, wildChild := True\<rparr>"

definition param_fields :: "8 word \<Rightarrow> string \<Rightarrow> 'h node_fields" where
  "param_fields w name = zero_fields\<lparr>nType := Param, maxParams := w, priority := 1, path := name\<rparr>"

lemma insert_loop_colon:
  assumes "w \<noteq> 0" and "i < length p" and "p ! i = CHR '':''"
    and "wildcard_end (drop (Suc i) p) (Suc i) = Some e" and "ofs \<le> i" and "children n = []"
    and "i = 0 \<Longrightarrow> path (info n) = []"
  shows "insert_loop w p full h ofs i n =
    (if e - i < 2 then Inl (msg_empty_name full)
     else if e < length p then
       rbind (substr p i e) (\<lambda>name.
       rbind (insert_loop (w - 1) p full h e (Suc i)
                (RouterNode (zero_fields\<lparr>maxParams := w - 1, priority := 1\<rparr>) []))
         (\<lambda>d. Inr (RouterNode (param_parent (info n) (take (i - ofs) (drop ofs p)))
                [RouterNode (param_fields w name) [d]])))
     else
       rbind (insert_loop (w - 1) p full h i (Suc i)
                (RouterNode (zero_fields\<lparr>nType := Param, maxParams := w, priority := 1\<rparr>) []))
         (\<lambda>c. Inr (RouterNode (param_parent (info n) (take (i - ofs) (drop ofs p))) [c])))"
proof -
  have pre: "(if i > 0 then substr p ofs i else Inr (path (info n))) = Inr (take (i - ofs) (drop ofs p))"
    using assms(2,5,7) by (simp add: substr_def)
  have off: "(if i > 0 then i else ofs) = i" using assms(5) by simp
  have wild: "is_wild (p ! i)" by (simp add: assms(3) is_wild_def)
  have le: "\<not> length p \<le> i" using assms(2) by simp
  show ?thesis
    by (subst insert_loop.simps, simp only: assms(1,3,4,6) wild [unfolded assms(3)] le pre off if_False if_True not_True_eq_False
        option.case rbind_simps Let_def param_parent_def param_fields_def simp_thms refl)
qed

lemma param_routes:
  assumes "fresh n"
  shows "name \<noteq> [] \<Longrightarrow> routes (RouterNode (param_parent (info n) pre) [RouterNode (param_fields w name) [d]]) =
      under (map Byte pre @ [PVar (drop 1 name)]) (routes d)"
    and "routes (RouterNode (param_parent (info n) pre)
      [RouterNode (zero_fields\<lparr>nType := Param, maxParams := w, priority := 1\<rparr>) []]) = []"
  using assms by (simp_all add: fresh_def param_parent_def param_fields_def own_route_def zero_fields_def)

lemma stored_routes_param:
  assumes "no_wildcards pre"
  shows "stored_routes (pre @ CHR '':'' # s) h =
    under (map Byte pre @ [PVar (segment s)]) (stored_routes (after_segment s) h)"
  using parse_static_append [OF assms, of "CHR '':'' # s"]
  by (simp add: stored_routes_def under_def)

lemma stored_routes_static: "no_wildcards p \<Longrightarrow> stored_routes p h = []"
  by (simp add: stored_routes_def parse_static)

lemma byte_zero: "n < 256 \<Longrightarrow> (of_nat n :: 8 word) = 0 \<longleftrightarrow> n = 0"
  by (auto simp: word_of_nat_eq_0_iff dest: dvd_imp_le)

lemma insert_loop_zero: "insert_loop 0 p full h ofs i n = Inr n"
  by (simp add: insert_loop.simps [of 0])

lemma insert_loop_skip:
  assumes "w \<noteq> 0" and "i < length p" and "\<not> is_wild (p ! i)"
  shows "insert_loop w p full h ofs i n = insert_loop w p full h ofs (Suc i) n"
  using assms by (subst insert_loop.simps) simp

lemma insert_loop_wild_Inr:
  assumes "insert_loop w p full h ofs i n = Inr n'" and "w \<noteq> 0"
  shows "i < length p"
    and "is_wild (p ! i) \<Longrightarrow> \<exists>e. wildcard_end (drop (Suc i) p) (Suc i) = Some e"
proof -
  show i: "i < length p"
  proof (rule ccontr)
    assume "\<not> i < length p"
    with assms(2) have "insert_loop w p full h ofs i n = Inl IndexOutOfRange"
      by (subst insert_loop.simps) simp
    with assms(1) show False by simp
  qed
  assume wild: "is_wild (p ! i)"
  show "\<exists>e. wildcard_end (drop (Suc i) p) (Suc i) = Some e"
  proof (rule ccontr)
    assume "\<nexists>e. wildcard_end (drop (Suc i) p) (Suc i) = Some e"
    then have "insert_loop w p full h ofs i n = Inl (msg_one_wildcard p i full)"
      using assms(2) i wild by (subst insert_loop.simps) simp
    with assms(1) show False by simp
  qed
qed

lemma insert_loop_star:
  assumes "w \<noteq> 0" and "i < length p" and "p ! i = CHR ''*''"
    and "wildcard_end (drop (Suc i) p) (Suc i) = Some e" and "children n = []"
  shows "insert_loop w p full h ofs i n = (if e - i < 2 then Inl (msg_empty_name full)
    else insert_catchAll w p full h ofs i e (info n))"
proof -
  have wild: "is_wild (CHR ''*'')" by (simp add: is_wild_def)
  have le: "\<not> length p \<le> i" using assms(2) by simp
  have nc: "p ! i \<noteq> CHR '':''" by (simp add: assms(3))
  show ?thesis
    by (subst insert_loop.simps)
      (simp only: nc assms(1,4,5) wild [folded assms(3)] le if_False if_True not_True_eq_False
        option.case simp_thms refl)
qed

lemma after_segment_drop:
  assumes "wildcard_end (drop (Suc i) p) (Suc i) = Some e"
  shows "after_segment (drop (Suc i) p) = drop e p"
proof -
  have "after_segment s = drop (length (segment s)) s" for s
    using segment_after [of s] by (metis append_eq_conv_conj)
  then show ?thesis using wildcard_end_segment(1) [OF assms] by (simp add: add.commute)
qed

lemma wilds_after:
  assumes "wildcard_end (drop (Suc i) p) (Suc i) = Some e"
  shows "wilds (drop (Suc i) p) = wilds (drop e p)"
  using segment_after [of "drop (Suc i) p"] after_segment_drop [OF assms]
    wildcard_end_segment(2) [OF assms] by (metis add_0 wilds_0 wilds_simps(3))

lemma substr_segment:
  assumes "wildcard_end (drop (Suc i) p) (Suc i) = Some e" and "substr p i e = Inr name" and "i < length p"
  shows "name = p ! i # segment (drop (Suc i) p)"
proof -
  have e: "e = Suc i + length (segment (drop (Suc i) p))" by (rule wildcard_end_segment(1) [OF assms(1)])
  have "name = take (e - i) (drop i p)" using assms(2) by (simp add: substr_eq_Inr)
  also have "drop i p = p ! i # drop (Suc i) p" using assms(3) by (simp add: Cons_nth_drop_Suc)
  also have "take (e - i) (p ! i # drop (Suc i) p) = p ! i # take (length (segment (drop (Suc i) p))) (drop (Suc i) p)"
    by (simp add: e)
  also have "take (length (segment (drop (Suc i) p))) (drop (Suc i) p) = segment (drop (Suc i) p)"
    using segment_after [of "drop (Suc i) p"] by (metis append_eq_conv_conj)
  finally show ?thesis .
qed

lemma insert_loop_routes:
  assumes "insert_loop w p full (Some h) ofs i n = Inr n'" and "fresh n"
    and "w = of_nat (wilds (drop i p))" and "wilds (drop i p) < 256"
    and "wilds (drop i p) = wilds (drop ofs p)"
  shows "routes n' = stored_routes (drop ofs p) h"
  using assms
proof (induction "length p - i" arbitrary: w ofs i n n' rule: less_induct)
  case less
  show ?case
  proof (cases "w = 0")
    case True
    then have "no_wildcards (drop ofs p)"
      using less.prems(3-5) by (simp add: wilds_0 [symmetric] byte_zero)
    moreover have "n' = n" using less.prems(1) True by (simp add: insert_loop_zero)
    ultimately show ?thesis
      using fresh_routes [OF less.prems(2)] by (simp add: stored_routes_static)
  next
    case w: False
    note i = insert_loop_wild_Inr(1) [OF less.prems(1) w]
    have d: "drop i p = p ! i # drop (Suc i) p" using i by (simp add: Cons_nth_drop_Suc)
    have dec: "length p - Suc i < length p - i" using i by simp
    show ?thesis
    proof (cases "is_wild (p ! i)")
      case False
      have "wilds (drop (Suc i) p) = wilds (drop i p)" using d False by simp
      moreover have "insert_loop w p full (Some h) ofs (Suc i) n = Inr n'"
        using less.prems(1) by (simp add: insert_loop_skip [OF w i False])
      ultimately show ?thesis
        using less.hyps [OF dec _ less.prems(2), of w ofs n'] less.prems(3-5) by simp
    next
      case wild: True
      note ofs = scan_offset [OF less.prems(5) i wild]
      obtain e where e: "wildcard_end (drop (Suc i) p) (Suc i) = Some e"
        using insert_loop_wild_Inr(2) [OF less.prems(1) w wild] by blast
      note seg = wildcard_end_segment [OF e]
      have ch: "children n = []" "path (info n) = []"
        using less.prems(2) by (simp_all add: fresh_def)
      show ?thesis
      proof (cases "p ! i = CHR '':''")
        case False
        then have star: "p ! i = CHR ''*''" using wild by (simp add: is_wild_def)
        have "insert_catchAll w p full (Some h) ofs i e (info n) = Inr n'"
          using less.prems(1) [unfolded insert_loop_star [OF w i star e ch(1)]]
          by (simp split: if_splits)
        then show ?thesis
          by (rule catchAll_routes [OF _ less.prems(2) seg(1) i star ofs(2)])
      next
        case True
        note step = less.prems(1) [unfolded insert_loop_colon [OF w i True e ofs(1) ch]]
        let ?pre = "take (i - ofs) (drop ofs p)" and ?rest = "drop (Suc i) p"
        have "drop ofs p = ?pre @ drop i p"
          using ofs(1) by (metis append_take_drop_id drop_drop le_add_diff_inverse2)
        then have p: "drop ofs p = ?pre @ CHR '':'' # ?rest" using d True by metis
        have rest: "after_segment ?rest = drop e p"
          by (rule after_segment_drop [OF e])
        have goal: "stored_routes (drop ofs p) h =
            under (map Byte ?pre @ [PVar (segment ?rest)]) (stored_routes (drop e p) h)"
          using stored_routes_param [OF ofs(2), of ?rest h] rest p by metis
        have wr: "wilds (drop i p) = Suc (wilds ?rest)" using d wild by simp
        have w1: "w - 1 = of_nat (wilds ?rest)" "wilds ?rest < 256"
          using less.prems(3,4) wr by simp_all
        have we: "wilds ?rest = wilds (drop e p)"
          using wilds_after [OF e] .
        show ?thesis
        proof (cases "e < length p")
          case more: True
          obtain name d' where name: "substr p i e = Inr name"
            and loop: "insert_loop (w - 1) p full (Some h) e (Suc i)
              (RouterNode (zero_fields\<lparr>maxParams := w - 1, priority := 1\<rparr>) []) = Inr d'"
            and n': "n' = RouterNode (param_parent (info n) ?pre) [RouterNode (param_fields w name) [d']]"
            using step more by (auto simp: rbind_eq_Inr split: if_splits)
          have "routes d' = stored_routes (drop e p) h"
            by (rule less.hyps [OF dec loop fresh_created(1) w1 we])
          moreover have "name = p ! i # segment ?rest"
            by (rule substr_segment [OF e name i])
          ultimately show ?thesis
            using goal n' param_routes(1) [OF less.prems(2), where name = name and d = d'] by simp
        next
          case False
          then obtain d' where loop: "insert_loop (w - 1) p full (Some h) i (Suc i)
              (RouterNode (zero_fields\<lparr>nType := Param, maxParams := w, priority := 1\<rparr>) []) = Inr d'"
            and n': "n' = RouterNode (param_parent (info n) ?pre) [d']"
            using step by (auto simp: rbind_eq_Inr split: if_splits)
          have dn: "drop e p = []" using False by simp
          then have "w - 1 = 0" using w1 we by simp
          with loop have "d' = RouterNode (zero_fields\<lparr>nType := Param, maxParams := w, priority := 1\<rparr>) []"
            by (simp add: insert_loop_zero)
          then show ?thesis
            using n' goal dn param_routes(2) [OF less.prems(2)] by (simp add: stored_routes_static under_def)
        qed
      qed
    qed
  qed
qed

lemma addRoute_fresh:
  assumes "addRoute p (Some h) n = Inr t" and "fresh n" and "wilds p < 256"
  shows "routes t = (if no_wildcards p then [(map Byte p, h)] else stored_routes p h)"
proof -
  let ?n = "RouterNode ((info n)\<lparr>fullPath := p, priority := priority (info n) + 1\<rparr>) (children n)"
  have fr: "fresh ?n" and emp: "path (info n) = []" "children n = []"
    using assms(2) by (simp_all add: fresh_def)
  have wn: "wildcardNum p = of_nat (wilds p)" using assms(3) by (simp add: wildcardNum_exact)
  from assms(1) obtain c where c: "insertChild (wildcardNum p) p p (Some h) ?n = Inr c"
    and t: "t = RouterNode ((info c)\<lparr>nType := Root\<rparr>) (children c)"
    by (auto simp: addRoute_def Let_def emp go_res)
  have rt: "routes t = routes c" by (cases c) (auto simp: t own_route_def split: list.split router_node.split)
  show ?thesis
  proof (cases "no_wildcards p")
    case True
    then have "wildcardNum p = 0" using wilds_0 [of p] wn by simp
    with c emp have "c = RouterNode ((info ?n)\<lparr>path := p, handle := Some h\<rparr>) []"
      by (simp add: insertChild_def)
    with rt True fr show ?thesis by (simp add: own_route_def fresh_def)
  next
    case False
    then have "wildcardNum p \<noteq> 0" using wilds_0 [of p] assms(3) byte_zero [of "wilds p"] wn by simp
    with c have "insert_loop (wildcardNum p) p p (Some h) 0 0 ?n = Inr c"
      by (simp add: insertChild_def)
    from insert_loop_routes [OF this fr] wn assms(3) False rt show ?thesis by simp
  qed
qed

section \<open>Two shapes of route in full\<close>

text \<open>A route whose only wildcard is a final parameter, and one that ends in a catch-all.\<close>

lemma insert_loop_scan:
  assumes "no_wildcards pre" and "w \<noteq> 0" and "r \<noteq> []" and "i \<le> length pre"
  shows "insert_loop w (pre @ r) full h ofs i n = insert_loop w (pre @ r) full h ofs (length pre) n"
  using assms(4)
proof (induction "length pre - i" arbitrary: i)
  case (Suc k)
  then have i: "i < length pre" by simp
  then have "\<not> is_wild ((pre @ r) ! i)"
    using assms(1) by (simp add: nth_append no_wildcards_def)
  with Suc i assms(2) show ?case by (simp add: insert_loop_skip)
qed simp

lemma wildcard_end_full:
  "no_wildcards s \<Longrightarrow> CHR ''/'' \<notin> set s \<Longrightarrow> wildcard_end s k = Some (k + length s)"
  by (induction s arbitrary: k) (auto simp: no_wildcards_def)

lemma wildcardNum_one:
  "no_wildcards pre \<Longrightarrow> no_wildcards name \<Longrightarrow> is_wild c \<Longrightarrow> wildcardNum (pre @ c # name) = 1"
  using wildcardNum_exact [of "pre @ c # name"] wilds_0 [of pre] wilds_0 [of name] by simp

definition param_tree :: "string \<Rightarrow> string \<Rightarrow> 'h router_node" where
  "param_tree p pre =
     RouterNode (zero_fields\<lparr>fullPath := p, path := pre, wildChild := True, nType := Root, priority := 1\<rparr>)
       [RouterNode (zero_fields\<lparr>nType := Param, maxParams := 1, priority := 1\<rparr>) []]"

lemma addRoute_param:
  assumes "no_wildcards pre" and "no_wildcards name" and "CHR ''/'' \<notin> set name" and "name \<noteq> []"
  defines "p \<equiv> pre @ CHR '':'' # name"
  shows "addRoute p h zero_node = Inr (param_tree p pre)"
proof -
  let ?n = "RouterNode (zero_fields\<lparr>fullPath := p, priority := 1\<rparr>) []"
  let ?i = "length pre"
  have nth: "p ! ?i = CHR '':''" and len: "?i < length p" and dr: "drop (Suc ?i) p = name"
    by (simp_all add: p_def)
  have e: "wildcard_end (drop (Suc ?i) p) (Suc ?i) = Some (length p)"
    unfolding dr wildcard_end_full [OF assms(2,3)] by (simp add: p_def)
  have "insert_loop 1 p p h 0 0 ?n = insert_loop 1 p p h 0 ?i ?n"
    unfolding p_def by (rule insert_loop_scan) (use assms in simp_all)
  also have "\<dots> = Inr (RouterNode (param_parent (info ?n) pre)
      [RouterNode (zero_fields\<lparr>nType := Param, maxParams := 1, priority := 1\<rparr>) []])"
    using assms(4) by (subst insert_loop_colon [OF _ len nth e])
      (simp_all add: insert_loop_zero p_def zero_fields_def length_greater_0_conv [symmetric] del: length_greater_0_conv)
  finally have "insertChild 1 p p h ?n = Inr (RouterNode (param_parent (info ?n) pre)
      [RouterNode (zero_fields\<lparr>nType := Param, maxParams := 1, priority := 1\<rparr>) []])"
    by (simp add: insertChild_def)
  moreover have "wildcardNum p = 1"
    unfolding p_def using wildcardNum_one [OF assms(1,2)] by (simp add: is_wild_def)
  ultimately show ?thesis
    by (simp add: addRoute_def zero_node_def zero_fields_def param_tree_def param_parent_def)
qed

lemma param_tree_lookup:
  "v \<noteq> [] \<Longrightarrow> getValue (param_tree p pre) (pre @ v) = Inl SliceBounds"
  by (simp add: getValue_def param_tree_def getValue_loop.simps zero_fields_def save_param_def suffix_from_def)

definition catchAll_tree :: "string \<Rightarrow> string \<Rightarrow> string \<Rightarrow> 'h list \<Rightarrow> 'h router_node" where
  "catchAll_tree p pre name h =
     RouterNode (zero_fields\<lparr>fullPath := p, path := pre, nType := Root, maxParams := 1, priority := 1,
         indices := ''/''\<rparr>)
       [RouterNode (zero_fields\<lparr>wildChild := True, nType := CatchAll, maxParams := 1, priority := 1\<rparr>)
         [RouterNode (zero_fields\<lparr>path := ''/*'' @ name, nType := CatchAll, maxParams := 1,
            handle := Some h, priority := 1\<rparr>) []]]"

lemma addRoute_catchAll:
  assumes "no_wildcards pre" and "no_wildcards name" and "CHR ''/'' \<notin> set name" and "name \<noteq> []"
  defines "p \<equiv> pre @ ''/*'' @ name"
  shows "addRoute p (Some h) zero_node = Inr (catchAll_tree p pre name h)"
proof -
  let ?n = "RouterNode (zero_fields\<lparr>fullPath := p, priority := 1\<rparr>) []"
  let ?i = "Suc (length pre)"
  have p': "p = (pre @ ''/'') @ CHR ''*'' # name" by (simp add: p_def)
  have nth: "p ! ?i = CHR ''*''" and nth': "p ! length pre = CHR ''/''" and len: "?i < length p"
    and dr: "drop (Suc ?i) p = name" and dr': "drop (length pre) p = ''/*'' @ name"
    by (simp_all add: p_def nth_append)
  have e: "wildcard_end (drop (Suc ?i) p) (Suc ?i) = Some (length p)"
    unfolding dr wildcard_end_full [OF assms(2,3)] by (simp add: p_def)
  have "insert_loop 1 p p (Some h) 0 0 ?n = insert_loop 1 p p (Some h) 0 (length (pre @ ''/'')) ?n"
    unfolding p' by (rule insert_loop_scan) (use assms in \<open>simp_all add: no_wildcards_def is_wild_def\<close>)
  also have "\<dots> = insert_catchAll 1 p p (Some h) 0 ?i (length p) (info ?n)"
  proof -
    have "\<not> length p - ?i < 2" using assms(4) by (cases name) (simp_all add: p_def)
    then show ?thesis
      using insert_loop_star [OF _ len nth e, of 1 ?n p "Some h" 0] by simp
  qed
  also have "\<dots> = Inr (RouterNode (zero_fields\<lparr>fullPath := p, path := pre, maxParams := 1, priority := 1,
         indices := ''/''\<rparr>)
       [RouterNode (zero_fields\<lparr>wildChild := True, nType := CatchAll, maxParams := 1, priority := 1\<rparr>)
         [RouterNode (zero_fields\<lparr>path := ''/*'' @ name, nType := CatchAll, maxParams := 1,
            handle := Some h, priority := 1\<rparr>) []]])"
    using nth' dr' by (simp add: insert_catchAll_def substr_def zero_fields_def p_def)
  finally show ?thesis
    using wildcardNum_one [of "pre @ ''/''" name "CHR ''*''"] assms(1,2)
    by (simp add: addRoute_def insertChild_def zero_node_def catchAll_tree_def p_def no_wildcards_def is_wild_def
        zero_fields_def)
qed

lemma catchAll_tree_lookup:
  "getValue (catchAll_tree p pre name h) (pre @ CHR ''/'' # rest) =
     Inr (Some h, Some (1, [\<lparr>Key = name, Val = CHR ''/'' # rest\<rparr>]), False)"
  by (simp add: getValue_def catchAll_tree_def getValue_loop.simps zero_fields_def save_param_def suffix_from_def)

section \<open>What a fresh tree holds after a registration\<close>

text \<open>C7: a registration on a fresh node that returns has stored the pattern that the path denotes,
  with its handler chain, when the path has no wildcard or ends in a catch-all; and it has stored no
  route at all when the last wildcard is a parameter.\<close>

theorem addRoute_stores:
  assumes "addRoute p (Some h) zero_node = Inr t" and "wilds p \<le> 255"
  shows "routes t = (if no_wildcards p \<or> has_rest (parse p) then [(parse p, h)] else [])"
  using addRoute_fresh [OF assms(1)] assms(2)
  by (auto simp: fresh_def zero_node_def zero_fields_def stored_routes_def parse_static)

theorem addRoute_stores_witness:
  "\<exists>t. addRoute ''/u/:id/f/*p'' (Some [3::nat]) zero_node = Inr t \<and>
     routes t = [(map Byte ''/u/'' @ [PVar ''id''] @ map Byte ''/f'' @ [PRest ''p''], [3])]"
proof -
  have "\<not> panics (addRoute ''/u/:id/f/*p'' (Some [3::nat]) zero_node)" by code_simp
  then obtain t where t: "addRoute ''/u/:id/f/*p'' (Some [3::nat]) zero_node = Inr t"
    by (auto simp: panics_iff)
  have "wilds ''/u/:id/f/*p'' \<le> 255" by (simp add: is_wild_def)
  from addRoute_stores [OF t this] t show ?thesis
    by (simp add: segment_def after_segment_def no_wildcards_def is_wild_def)
qed

text \<open>C19: a catch-all route after a literal text, registered on a fresh tree and the only route of it, is found
  for every path that continues the text with a slash, and its parameter holds the path from that slash on.\<close>

theorem catchAll_roundtrip:
  assumes "no_wildcards pre" and "no_wildcards name" and "CHR ''/'' \<notin> set name" and "name \<noteq> []"
  shows "\<exists>t. addRoute (pre @ ''/*'' @ name) (Some h) zero_node = Inr t \<and>
    getValue t (pre @ CHR ''/'' # rest) =
      Inr (Some h, Some (1, [\<lparr>Key = name, Val = CHR ''/'' # rest\<rparr>]), False)"
  using addRoute_catchAll [OF assms, of h] catchAll_tree_lookup by blast

theorem catchAll_roundtrip_witness:
  "\<exists>t. addRoute (''/s'' @ ''/*'' @ ''f'') (Some [3::nat]) zero_node = Inr t \<and>
    getValue t (''/s'' @ CHR ''/'' # ''x/y'') =
      Inr (Some [3], Some (1, [\<lparr>Key = ''f'', Val = CHR ''/'' # ''x/y''\<rparr>]), False)"
  by (rule catchAll_roundtrip) (simp_all add: no_wildcards_def is_wild_def)

text \<open>C20: a route of a literal text with one parameter at its end, registered on a fresh tree and the only route
  of it, cannot be served: the registration returns, and then every path that continues the text before the
  parameter makes the lookup panic, because the parameter node never got its name.\<close>

theorem param_route_panics:
  assumes "no_wildcards pre" and "no_wildcards name" and "CHR ''/'' \<notin> set name" and "name \<noteq> []"
    and "v \<noteq> []"
  shows "\<exists>t. addRoute (pre @ CHR '':'' # name) (Some h) zero_node = Inr t \<and>
    getValue t (pre @ v) = Inl SliceBounds"
  using addRoute_param [OF assms(1-4), of "Some h"] param_tree_lookup [OF assms(5)] by blast

theorem param_route_panics_witness:
  "\<exists>t. addRoute (''/u/'' @ CHR '':'' # ''id'') (Some [3::nat]) zero_node = Inr t \<and>
    getValue t (''/u/'' @ ''5'') = Inl SliceBounds"
  by (rule param_route_panics) (simp_all add: no_wildcards_def is_wild_def)

end
