(* ===== verification/Strconv.thy ===== *)
theory Strconv
  imports Prelude
begin

text \<open>
  What the program uses of \<open>strconv\<close> and \<open>strings\<close>: parsing decimal integers of a bit size,
  parsing booleans, splitting at a byte; and the decimal notation that the parsers read, for the
  round trips.
\<close>

section \<open>Parsing integers\<close>

datatype num_error = ErrSyntax | ErrRange

definition digit :: "char \<Rightarrow> nat option" where
  "digit c = (let n = of_char c in if 48 \<le> n \<and> n \<le> 57 then Some (n - 48) else None)"

text \<open>
  The loop of \<open>ParseUint\<close> in base 10, with the value so far: the first byte that is no digit is a
  syntax error, and the first digit that takes the value over the maximum ends it with a range error.
\<close>

fun parse_digits :: "nat \<Rightarrow> nat \<Rightarrow> string \<Rightarrow> nat \<times> num_error option" where
  "parse_digits maxVal n [] = (n, None)"
| "parse_digits maxVal n (c # s) =
     (case digit c of
        None \<Rightarrow> (0, Some ErrSyntax)
      | Some d \<Rightarrow> if n * 10 + d > maxVal then (maxVal, Some ErrRange) else parse_digits maxVal (n * 10 + d) s)"

text \<open>The bit size 0 stands for 64.\<close>

definition bits_of :: "nat \<Rightarrow> nat" where
  "bits_of bitSize = (if bitSize = 0 then 64 else bitSize)"

definition ParseUint :: "string \<Rightarrow> nat \<Rightarrow> nat \<times> num_error option" where
  "ParseUint s bitSize =
     (if s = [] then (0, Some ErrSyntax) else parse_digits (2 ^ bits_of bitSize - 1) 0 s)"

definition ParseInt :: "string \<Rightarrow> nat \<Rightarrow> int \<times> num_error option" where
  "ParseInt s bitSize =
     (if s = [] then (0, Some ErrSyntax)
      else
        let neg = (hd s = CHR ''-'');
            s1 = (if hd s = CHR ''+'' \<or> hd s = CHR ''-'' then tl s else s);
            (un, err) = ParseUint s1 bitSize;
            cutoff = 2 ^ (bits_of bitSize - 1)
        in if err = Some ErrSyntax then (0, err)
           else if \<not> neg \<and> un \<ge> cutoff then (int cutoff - 1, Some ErrRange)
           else if neg \<and> un > cutoff then (- int cutoff, Some ErrRange)
           else (if neg then - int un else int un, None))"

definition Atoi :: "string \<Rightarrow> int \<times> num_error option" where
  "Atoi s = ParseInt s 0"

definition ParseBool :: "string \<Rightarrow> bool \<times> num_error option" where
  "ParseBool s =
     (if s \<in> set [''1'', ''t'', ''T'', ''TRUE'', ''true'', ''True''] then (True, None)
      else if s \<in> set [''0'', ''f'', ''F'', ''FALSE'', ''false'', ''False''] then (False, None)
      else (False, Some ErrSyntax))"

section \<open>Decimal notation\<close>

definition digit_char :: "nat \<Rightarrow> char" where
  "digit_char d = char_of (d + 48)"

fun nat_digits :: "nat \<Rightarrow> string" where
  "nat_digits n = (if n < 10 then [digit_char n] else nat_digits (n div 10) @ [digit_char (n mod 10)])"

declare nat_digits.simps [simp del]

definition decimal :: "int \<Rightarrow> string" where
  "decimal z = (if z < 0 then CHR ''-'' # nat_digits (nat (- z)) else nat_digits (nat z))"

lemma digit_digit_char: "d < 10 \<Longrightarrow> digit (digit_char d) = Some d"
  by (simp add: digit_def digit_char_def Let_def)

lemma nat_digits_not_Nil: "nat_digits n \<noteq> []"
  by (subst nat_digits.simps) simp

lemma digit_char_range: "d < 10 \<Longrightarrow> (of_char (digit_char d) :: nat) = d + 48"
  by (simp add: digit_char_def)

lemma nat_digits_digits: "c \<in> set (nat_digits n) \<Longrightarrow> \<exists>d<10. c = digit_char d"
proof (induction n rule: nat_digits.induct)
  case (1 n)
  show ?case
  proof (cases "n < 10")
    case True
    with 1(2) show ?thesis by (auto simp: nat_digits.simps [of n])
  next
    case False
    with 1(2) consider "c \<in> set (nat_digits (n div 10))" | "c = digit_char (n mod 10)"
      by (auto simp: nat_digits.simps [of n])
    then show ?thesis
    proof cases
      case 2
      then show ?thesis by (intro exI [of _ "n mod 10"]) simp
    qed (use 1(1) False in blast)
  qed
qed

lemma digit_char_neq: "d < 10 \<Longrightarrow> digit_char d \<notin> {CHR ''-'', CHR ''+'', CHR '','', CHR '' '', CHR ''=''}"
  by (auto simp: digit_char_range dest!: arg_cong [of _ _ "of_char :: char \<Rightarrow> nat"])

lemma nat_digits_plain: "c \<in> set (nat_digits n) \<Longrightarrow> c \<notin> {CHR ''-'', CHR ''+'', CHR '','', CHR '' '', CHR ''=''}"
proof -
  assume "c \<in> set (nat_digits n)"
  then obtain d where "d < 10" "c = digit_char d" using nat_digits_digits by blast
  then show ?thesis using digit_char_neq [of d] by metis
qed

text \<open>Reading digits after the value \<open>m\<close>: the value grows as the notation says, or is out of range.\<close>

lemma parse_digits_append:
  "parse_digits b m (s @ t) =
     (case parse_digits b m s of (n, None) \<Rightarrow> parse_digits b n t | (n, Some e) \<Rightarrow> (n, Some e))"
  by (induction b m s rule: parse_digits.induct) (auto split: option.split)

lemma parse_digits_value:
  "parse_digits b 0 (nat_digits n) = (if n \<le> b then (n, None) else (b, Some ErrRange))"
proof (induction n rule: nat_digits.induct)
  case (1 n)
  show ?case
  proof (cases "n < 10")
    case True
    then show ?thesis by (simp add: nat_digits.simps [of n] digit_digit_char)
  next
    case False
    have "n div 10 * 10 + n mod 10 = n" by simp
    moreover have "n mod 10 < 10" by simp
    ultimately show ?thesis
      using 1 False
      by (auto simp: nat_digits.simps [of n] parse_digits_append digit_digit_char simp del: mod_less_divisor
          div_mult_mod_eq)
  qed
qed

lemma ParseUint_decimal:
  "ParseUint (nat_digits n) b =
     (if n < 2 ^ bits_of b then (n, None) else (2 ^ bits_of b - 1, Some ErrRange))"
proof -
  have "n \<le> 2 ^ bits_of b - 1 \<longleftrightarrow> n < 2 ^ bits_of b"
    using zero_less_power [of "2 :: nat" "bits_of b"] by linarith
  then show ?thesis by (simp add: ParseUint_def nat_digits_not_Nil parse_digits_value)
qed

text \<open>The range of a signed integer of the bit size.\<close>

definition in_range :: "nat \<Rightarrow> int \<Rightarrow> bool" where
  "in_range b z \<longleftrightarrow> - (2 ^ (bits_of b - 1)) \<le> z \<and> z < 2 ^ (bits_of b - 1)"

lemma ParseInt_decimal:
  assumes "1 < bits_of b"
  shows "ParseInt (decimal z) b =
     (if in_range b z then (z, None)
      else if z < 0 then (- (2 ^ (bits_of b - 1)), Some ErrRange)
      else (2 ^ (bits_of b - 1) - 1, Some ErrRange))"
proof -
  let ?c = "2 ^ (bits_of b - 1) :: nat"
  have b: "2 ^ bits_of b = 2 * ?c"
    by (cases "bits_of b") (simp_all add: bits_of_def split: if_splits)
  have c: "int ?c = 2 ^ (bits_of b - 1)" "1 < ?c"
    using assms one_less_power [of "2 :: nat" "bits_of b - 1"] by simp_all
  show ?thesis
  proof (cases "z < 0")
    case True
    obtain u err where u: "ParseUint (nat_digits (nat (- z))) b = (u, err)" by fastforce
    from True u ParseUint_decimal [of "nat (- z)" b] b c show ?thesis
      by (auto simp: decimal_def ParseInt_def in_range_def Let_def nat_less_iff split: if_splits)
  next
    case False
    let ?s = "nat_digits (nat z)"
    have "hd ?s \<in> set ?s" using nat_digits_not_Nil by simp
    then have h: "hd ?s \<noteq> CHR ''-''" "hd ?s \<noteq> CHR ''+''" using nat_digits_plain by blast+
    from False h ParseUint_decimal [of "nat z" b] b c nat_digits_not_Nil show ?thesis
      by (auto simp: decimal_def ParseInt_def in_range_def Let_def nat_less_iff split: if_splits)
  qed
qed

section \<open>Strings\<close>

text \<open>\<open>strings.Split(s, sep)\<close> for a separator of one byte: one part more than there are separators.\<close>

fun split_at :: "char \<Rightarrow> string \<Rightarrow> string list" where
  "split_at sep [] = [[]]"
| "split_at sep (c # s) =
     (if c = sep then [] # split_at sep s
      else case split_at sep s of [] \<Rightarrow> [[c]] | p # ps \<Rightarrow> (c # p) # ps)"

definition TrimPrefix :: "string \<Rightarrow> string \<Rightarrow> string" where
  "TrimPrefix s pre = (if prefix pre s then drop (length pre) s else s)"

text \<open>\<open>strings.ReplaceAll(s, " ", "")\<close>.\<close>

definition remove_spaces :: "string \<Rightarrow> string" where
  "remove_spaces s = filter (\<lambda>c. c \<noteq> CHR '' '') s"

lemma split_at_not_Nil [simp]: "split_at sep s \<noteq> []"
  by (induction s) (auto split: list.split)

lemma split_at_none: "sep \<notin> set s \<Longrightarrow> split_at sep s = [s]"
  by (induction s) auto

lemma split_at_append: "sep \<notin> set s \<Longrightarrow> split_at sep (s @ sep # t) = s # split_at sep t"
  by (induction s) (auto split: list.split)

lemma decimal_plain: "c \<in> set (decimal z) \<Longrightarrow> c \<notin> {CHR ''+'', CHR '','', CHR '' '', CHR ''=''}"
  using nat_digits_plain by (auto simp: decimal_def split: if_splits)

lemma digit_char_code: "d < 10 \<Longrightarrow> digit_char d = c \<Longrightarrow> (of_char c :: nat) < 58 \<and> 48 \<le> (of_char c :: nat)"
  by (auto simp: digit_char_range)

lemma nat_digits_chars: "c \<in> set (nat_digits n) \<Longrightarrow> 48 \<le> (of_char c :: nat) \<and> (of_char c :: nat) < 58"
  using nat_digits_digits digit_char_code by blast

lemma decimal_chars: "c \<in> set (decimal z) \<Longrightarrow> c = CHR ''-'' \<or> 48 \<le> (of_char c :: nat) \<and> (of_char c :: nat) < 58"
  using nat_digits_chars by (auto simp: decimal_def split: if_splits)

lemma decimal_not_Nil: "decimal z \<noteq> []"
  by (simp add: decimal_def nat_digits_not_Nil)

lemma remove_spaces_decimal: "remove_spaces (decimal z) = decimal z"
  unfolding remove_spaces_def filter_id_conv using decimal_plain by blast

end
