(* ===== verification/Http.thy ===== *)
theory Http
  imports Strconv
begin

text \<open>
  What the program uses of \<open>net/http\<close>, and its own \<open>core/http.go\<close>: the response that a handler
  writes to, with the rules of the server's \<open>ResponseWriter\<close> (the first \<open>WriteHeader\<close> counts,
  a \<open>Write\<close> without one sends 200, a header set after the status line is not sent, an invalid
  code panics, a body is refused for the codes that have none), and the test for those codes.
\<close>

section \<open>Headers\<close>

text \<open>
  \<open>textproto.CanonicalMIMEHeaderKey\<close> for keys of ASCII letters and other token bytes: a letter at
  the start or after a hyphen is upper case, every other letter is lower case.
\<close>

definition to_upper :: "char \<Rightarrow> char" where
  "to_upper c = (if 97 \<le> (of_char c :: nat) \<and> (of_char c :: nat) \<le> 122
     then char_of ((of_char c :: nat) - 32) else c)"

definition to_lower :: "char \<Rightarrow> char" where
  "to_lower c = (if 65 \<le> (of_char c :: nat) \<and> (of_char c :: nat) \<le> 90
     then char_of ((of_char c :: nat) + 32) else c)"

fun canonical_from :: "bool \<Rightarrow> string \<Rightarrow> string" where
  "canonical_from up [] = []"
| "canonical_from up (c # s) =
     (if up then to_upper c else to_lower c) # canonical_from (c = CHR ''-'') s"

definition canonical_key :: "string \<Rightarrow> string" where
  "canonical_key = canonical_from True"

text \<open>\<open>http.Header\<close>: the values of each key, and its methods \<open>Set\<close>, \<open>Add\<close> and \<open>Del\<close>.\<close>

type_synonym header = "string \<rightharpoonup> string list"

definition header_set :: "string \<Rightarrow> string \<Rightarrow> header \<Rightarrow> header" where
  "header_set k v h = h(canonical_key k \<mapsto> [v])"

definition header_add :: "string \<Rightarrow> string \<Rightarrow> header \<Rightarrow> header" where
  "header_add k v h =
     h(canonical_key k \<mapsto> (case h (canonical_key k) of None \<Rightarrow> [] | Some vs \<Rightarrow> vs) @ [v])"

definition header_del :: "string \<Rightarrow> header \<Rightarrow> header" where
  "header_del k h = h(canonical_key k := None)"

section \<open>The response\<close>

text \<open>
  A \<open>gzip.Writer\<close> of \<open>compress/gzip\<close>: the text it was given so far, whether it wrote its header, whether it
  is closed, and the error it remembers.  The compressor is a parameter; it holds back its output
  until it is closed.
\<close>

record codec =
  Deflate :: "string \<Rightarrow> string"
  Checksum :: "string \<Rightarrow> string"

record gzip_writer =
  gz_codec :: codec
  gz_level :: int
  gz_data :: string
  gz_wroteHeader :: bool
  gz_closed :: bool
  gz_err :: "string option"

text \<open>
  What a handler writes to: \<open>sent\<close> is the status line and the headers that went out with it, once they
  have; \<open>tried\<close> counts the bytes given to the body, accepted or not; \<open>layers\<close> are the gzip writers
  between the handler and the server, the outermost first.
\<close>

record response =
  hdr :: header
  sent :: "(int \<times> header) option"
  out :: string
  tried :: nat
  layers :: "gzip_writer list"

definition new_response :: response where
  "new_response = \<lparr>hdr = Map.empty, sent = None, out = [], tried = 0, layers = []\<rparr>"

definition informational :: "int \<Rightarrow> bool" where
  "informational code \<longleftrightarrow> 100 \<le> code \<and> code \<le> 199 \<and> code \<noteq> 101"

definition msg_invalid_code :: panic where
  "msg_invalid_code = PanicMsg ''invalid WriteHeader code''"

definition writeHeader :: "int \<Rightarrow> response \<Rightarrow> response res" where
  "writeHeader code r =
     (if sent r \<noteq> None then Inr r
      else if code < 100 \<or> code > 999 then Inl msg_invalid_code
      else if informational code then Inr r
      else Inr (r\<lparr>sent := Some (code, hdr r)\<rparr>))"

text \<open>\<open>bodyAllowedForStatus\<close> of \<open>core/http.go\<close>; \<open>net/http\<close> has the same test.\<close>

definition bodyAllowedForStatus :: "int \<Rightarrow> bool" where
  "bodyAllowedForStatus status =
     (if 100 \<le> status \<and> status \<le> 199 then False
      else if status = 204 then False
      else if status = 304 then False
      else True)"

text \<open>
  The server's own \<open>Write\<close>: it sends 200 where there was no status line, accepts an empty text, returns
  \<open>http.ErrBodyNotAllowed\<close> where there can be no body, and \<open>http.ErrContentLength\<close> once more bytes were
  tried than the header \<open>Content-Length\<close> that went out had declared.
\<close>

definition send_ok :: "response \<Rightarrow> response" where
  "send_ok r = (case sent r of None \<Rightarrow> r\<lparr>sent := Some (200, hdr r)\<rparr> | Some _ \<Rightarrow> r)"

definition body_error :: string where
  "body_error = ''http: request method or response status code does not allow body''"

definition length_error :: string where
  "length_error = ''http: wrote more than the declared Content-Length''"

definition declared_length :: "header \<Rightarrow> nat option" where
  "declared_length h =
     (case h ''Content-Length'' of
        Some (cl # _) \<Rightarrow>
          (case ParseInt cl 64 of
            (v, None) \<Rightarrow> if v \<ge> 0 then Some (nat v) else None
          | (_, Some _) \<Rightarrow> None)
      | _ \<Rightarrow> None)"

definition over_length :: "header \<Rightarrow> nat \<Rightarrow> bool" where
  "over_length h n = (case declared_length h of None \<Rightarrow> False | Some k \<Rightarrow> k < n)"

definition server_write :: "string \<Rightarrow> response \<Rightarrow> string option \<times> response" where
  "server_write bytes r =
     (let r1 = send_ok r; st = the (sent r1)
      in if bytes = [] then (None, r1)
         else if \<not> bodyAllowedForStatus (fst st) then (Some body_error, r1)
         else let r2 = r1\<lparr>tried := tried r1 + length bytes\<rparr>
              in if over_length (snd st) (tried r2) then (Some length_error, r2)
                 else (None, r2\<lparr>out := out r2 @ bytes\<rparr>))"

section \<open>Gzip writers\<close>

text \<open>The ten bytes in front, and the checksum and the length at the end.\<close>

definition gzip_header :: "int \<Rightarrow> string" where
  "gzip_header level =
     [CHR 0x1F, CHR 0x8B, CHR 0x08, CHR 0x00, CHR 0x00, CHR 0x00, CHR 0x00, CHR 0x00,
      if level = 9 then CHR 0x02 else if level = 1 then CHR 0x04 else CHR 0x00, CHR 0xFF]"

definition le32 :: "nat \<Rightarrow> string" where
  "le32 n = map (\<lambda>k. char_of (n div 256 ^ k mod 256)) [0, 1, 2, 3]"

definition gzip_trailer :: "codec \<Rightarrow> string \<Rightarrow> string" where
  "gzip_trailer c data = Checksum c data @ le32 (length data)"

definition new_gzip :: "codec \<Rightarrow> int \<Rightarrow> gzip_writer" where
  "new_gzip c level = \<lparr>gz_codec = c, gz_level = level, gz_data = [], gz_wroteHeader = False,
     gz_closed = False, gz_err = None\<rparr>"

definition closed_error :: string where
  "closed_error = ''flate: closed writer''"

text \<open>A write goes to the outermost layer; the first one writes the layer's header to what is below.\<close>

fun layered_write ::
  "gzip_writer list \<Rightarrow> string \<Rightarrow> response \<Rightarrow> string option \<times> gzip_writer list \<times> response" where
  "layered_write [] bytes r = (case server_write bytes r of (err, r1) \<Rightarrow> (err, [], r1))"
| "layered_write (z # zs) bytes r =
     (case gz_err z of
        Some e \<Rightarrow> (Some e, z # zs, r)
      | None \<Rightarrow>
          (case (if gz_wroteHeader z then (None, zs, r) else layered_write zs (gzip_header (gz_level z)) r) of
             (Some e, zs1, r1) \<Rightarrow> (Some e, z\<lparr>gz_wroteHeader := True, gz_err := Some e\<rparr> # zs1, r1)
           | (None, zs1, r1) \<Rightarrow>
               if gz_closed z
               then (Some closed_error, z\<lparr>gz_wroteHeader := True, gz_err := Some closed_error\<rparr> # zs1, r1)
               else (None, z\<lparr>gz_wroteHeader := True, gz_data := gz_data z @ bytes\<rparr> # zs1, r1)))"

text \<open>The three writes of \<open>Close\<close>, each of which may fail.\<close>

fun write_each ::
  "string list \<Rightarrow> gzip_writer list \<Rightarrow> response \<Rightarrow> string option \<times> gzip_writer list \<times> response" where
  "write_each [] zs r = (None, zs, r)"
| "write_each (b # bs) zs r =
     (case layered_write zs b r of
        (Some e, zs1, r1) \<Rightarrow> (Some e, zs1, r1)
      | (None, zs1, r1) \<Rightarrow> write_each bs zs1 r1)"

definition close_pieces :: "gzip_writer \<Rightarrow> string list" where
  "close_pieces z = (if gz_wroteHeader z then [] else [gzip_header (gz_level z)]) @
     [Deflate (gz_codec z) (gz_data z), gzip_trailer (gz_codec z) (gz_data z)]"

definition close_layer ::
  "gzip_writer \<Rightarrow> gzip_writer list \<Rightarrow> response \<Rightarrow> string option \<times> gzip_writer list \<times> response" where
  "close_layer z zs r =
     (if gz_err z \<noteq> None then (gz_err z, z # zs, r)
      else if gz_closed z then (None, z # zs, r)
      else case write_each (close_pieces z) zs r of
        (e, zs1, r1) \<Rightarrow> (e, z\<lparr>gz_closed := True, gz_wroteHeader := True, gz_err := e\<rparr> # zs1, r1))"

text \<open>\<open>d\<close> tells which writer it is: the number of layers below.\<close>

definition gzip_close :: "nat \<Rightarrow> response \<Rightarrow> string option \<times> response" where
  "gzip_close d r =
     (let k = length (layers r) - Suc d in
      case drop k (layers r) of
        [] \<Rightarrow> (None, r)
      | z # zs \<Rightarrow>
          (case close_layer z zs r of (e, zs1, r1) \<Rightarrow> (e, r1\<lparr>layers := take k (layers r) @ zs1\<rparr>)))"

text \<open>\<open>Write\<close> on the writer that the context holds.\<close>

definition write_body :: "string \<Rightarrow> response \<Rightarrow> string option \<times> response" where
  "write_body bytes r =
     (case layered_write (layers r) bytes r of (err, zs, r1) \<Rightarrow> (err, r1\<lparr>layers := zs\<rparr>))"

text \<open>\<open>writeContentType\<close> of \<open>core/render.go\<close>.\<close>

definition writeContentType :: "string \<Rightarrow> response \<Rightarrow> response" where
  "writeContentType ct r =
     r\<lparr>hdr := header_set ''Content-Type'' ct (header_del ''Content-Type'' (hdr r))\<rparr>"

section \<open>Facts\<close>

text \<open>What has gone out stays as it is, whatever is called later.\<close>

lemma sent_writeHeader: "sent r = Some s \<Longrightarrow> writeHeader code r = Inr r"
  by (simp add: writeHeader_def)

lemma sent_send_ok: "sent r = Some s \<Longrightarrow> send_ok r = r"
  by (simp add: send_ok_def)

lemma sent_server_write: "server_write bytes r = (e, r') \<Longrightarrow> sent r = Some s \<Longrightarrow> sent r' = Some s"
  by (auto simp: server_write_def sent_send_ok Let_def split: if_splits)

lemma sent_layered_write:
  "layered_write zs bytes r = (e, zs', r') \<Longrightarrow> sent r = Some s \<Longrightarrow> sent r' = Some s"
  by (induction zs arbitrary: bytes r e zs' r')
    (fastforce simp: sent_server_write split: prod.splits option.splits if_splits)+

lemma sent_write_each: "write_each bs zs r = (e, zs', r') \<Longrightarrow> sent r = Some s \<Longrightarrow> sent r' = Some s"
  by (induction bs arbitrary: zs r) (auto dest: sent_layered_write split: prod.splits option.splits)

lemma sent_write_body: "write_body bytes r = (e, r') \<Longrightarrow> sent r = Some s \<Longrightarrow> sent r' = Some s"
  by (auto simp: write_body_def dest: sent_layered_write split: prod.splits)

lemma sent_gzip_close: "gzip_close d r = (e, r') \<Longrightarrow> sent r = Some s \<Longrightarrow> sent r' = Some s"
  by (auto simp: gzip_close_def close_layer_def Let_def dest: sent_write_each
      split: prod.splits list.splits if_splits)

lemma declared_length_none [simp]: "h ''Content-Length'' = None \<Longrightarrow> declared_length h = None"
  by (simp add: declared_length_def)

lemma declared_length_upd [simp]: "k \<noteq> ''Content-Length'' \<Longrightarrow> declared_length (h(k := v)) = declared_length h"
  by (simp add: declared_length_def)

text \<open>Without layers and without a declared length it is the plain \<open>Write\<close> of the server.\<close>

lemma write_body_plain:
  assumes "layers r = []" and "declared_length (hdr r) = None"
    and "\<And>code h. sent r = Some (code, h) \<Longrightarrow> bodyAllowedForStatus code \<and> declared_length h = None"
  shows "\<exists>r'. write_body bytes r = (None, r') \<and> out r' = out r @ bytes \<and> layers r' = [] \<and>
    hdr r' = hdr r \<and> sent r' = Some (case sent r of None \<Rightarrow> (200, hdr r) | Some x \<Rightarrow> x)"
  using assms
  by (auto simp: write_body_def server_write_def send_ok_def over_length_def bodyAllowedForStatus_def Let_def
      split: option.splits)

lemma sent_writeContentType [simp]: "sent (writeContentType ct r) = sent r"
  by (simp add: writeContentType_def)

lemma canonical_content_type: "canonical_key ''Content-Type'' = ''Content-Type''"
  by code_simp

lemma hdr_writeContentType: "hdr (writeContentType ct r) ''Content-Type'' = Some [ct]"
  by (simp add: writeContentType_def header_set_def canonical_content_type)

text \<open>Once a valid final code has been written, it is the one the client sees.\<close>

lemma writeHeader_sent:
  "sent r = None \<Longrightarrow> 100 \<le> code \<Longrightarrow> code \<le> 999 \<Longrightarrow> \<not> informational code \<Longrightarrow>
   writeHeader code r = Inr (r\<lparr>sent := Some (code, hdr r)\<rparr>)"
  by (simp add: writeHeader_def)

end
