(* ===== verification/Context.thy ===== *)
theory Context
  imports Http TreeLookup
begin

text \<open>
  The request context of \<open>core/context.go\<close>: its state, the calls a handler makes on it, and
  \<open>Next\<close>, which runs the handlers of the group by a \<open>uint8\<close> index that every call of \<open>Next\<close>
  and every finished handler moves on.  A handler is arbitrary Go code; what matters here is the
  calls it makes on the context, so it is a tree of calls that branches on what it reads.
\<close>

section \<open>The request\<close>

text \<open>
  What the control of a request reads of \<open>*http.Request\<close>: the method, \<open>URL.Path\<close>, the headers in
  canonical form, and the values that its \<open>Context()\<close> carries, of which the program puts in two.
\<close>

datatype context_key = ContextKey | ContextExist

datatype context_value = ThisContext | ExistMark | OtherValue

record wire =
  rq_method :: string
  rq_path :: string
  rq_header :: form
  rq_values :: "(context_key \<times> context_value) list"

definition get_request :: wire where
  "get_request = \<lparr>rq_method = ''GET'', rq_path = ''/'', rq_header = Map.empty, rq_values = []\<rparr>"

text \<open>\<open>http.Header.Get\<close> puts the key in canonical form first.\<close>

definition header_get :: "'x wire_scheme \<Rightarrow> string \<Rightarrow> string" where
  "header_get r key = get_first (rq_header r) (canonical_key key)"

text \<open>\<open>SetContextIntoRequest\<close>: the marks are added to a request that has none.\<close>

definition SetContextIntoRequest :: "wire \<Rightarrow> wire" where
  "SetContextIntoRequest r =
     (if map_of (rq_values r) ContextExist \<noteq> None then r
      else r\<lparr>rq_values := (ContextKey, ThisContext) # (ContextExist, ExistMark) # rq_values r\<rparr>)"

section \<open>State\<close>

text \<open>\<open>shared\<close> holds the fields that do not take part in the control of the handlers.\<close>

record 'v shared =
  matched :: bool
  escape :: bool
  status :: "64 word"
  written :: bool
  items :: "(string \<rightharpoonup> 'v) option"
  ctx_request :: wire
  writer :: response
  ctx_params :: params_slice
  ctx_fullPath :: string

record 'v ctx =
  shared :: "'v shared"
  index :: "8 word"
  abortIndex :: "8 word"

text \<open>A run of Go code ends normally, in a panic with the state at that moment, or not at all.\<close>

datatype ('a, 's) outcome = Done 'a 's | Panicked panic 's | OutOfFuel

fun map_state :: "('s \<Rightarrow> 't) \<Rightarrow> ('a, 's) outcome \<Rightarrow> ('a, 't) outcome" where
  "map_state f (Done x s) = Done x (f s)"
| "map_state f (Panicked p s) = Panicked p (f s)"
| "map_state f OutOfFuel = OutOfFuel"

section \<open>Handlers\<close>

text \<open>
  What code outside the program does to a response writer that is handed to it: a sequence of
  operations, chosen by the request and the headers it finds.
\<close>

datatype writer_op =
    OpSet string string
  | OpAdd string string
  | OpDel string
  | OpStatus int
  | OpWrite string

type_synonym serving = "wire \<Rightarrow> header \<Rightarrow> writer_op list"

text \<open>
  The calls on the context.  \<open>RenderOps\<close> is \<open>c.Render\<close> with a renderer that hands the writer on to
  \<open>net/http\<close>, \<open>RawOps\<close> hands \<open>c.ResponseWriter\<close> and \<open>c.Request\<close> on without \<open>Render\<close>; \<open>SetRequest\<close> and
  \<open>SetMatched\<close> assign fields; \<open>OpenGzip\<close> and \<open>CloseGzip\<close> are those of the gzip middleware, and
  \<open>LogError\<close> is \<open>c.Logger().Error\<close>.
\<close>

datatype 'v call =
    SetStatus "64 word"
  | SetHeader string string
  | SetValue string 'v
  | Write string
  | WriteHeader int
  | JSON 'v
  | XML 'v
  | String string "'v list"
  | Escape
  | RenderOps serving
  | RawOps serving
  | SetRequest "wire \<Rightarrow> wire"
  | SetMatched bool
  | OpenGzip codec int
  | CloseGzip nat
  | LogError string

text \<open>
  \<open>Call\<close> passes the call's error to the rest of the handler; \<open>Ask\<close> lets it read the context and
  whether it is aborted; \<open>NextRecover\<close> is the body of \<open>RecoverHandler\<close>: \<open>Next\<close> with a deferred
  function that recovers a panic, after which the handler returns.
\<close>

datatype 'v handler =
    Return
  | Panic panic
  | Ask "'v shared \<times> bool \<Rightarrow> 'v handler"
  | Call "'v call" "string option \<Rightarrow> 'v handler"
  | Next "'v handler"
  | NextRecover "panic \<Rightarrow> 'v handler" "'v handler"
  | Abort "'v handler"

definition RecoverHandler :: "(panic \<Rightarrow> 'v handler) \<Rightarrow> 'v handler" where
  "RecoverHandler rec = NextRecover rec Return"

definition AbortWithJSON :: "'v \<Rightarrow> 'v handler \<Rightarrow> 'v handler" where
  "AbortWithJSON data h = Call (JSON data) (\<lambda>_. Abort h)"

definition AbortWithXML :: "'v \<Rightarrow> 'v handler \<Rightarrow> 'v handler" where
  "AbortWithXML data h = Call (XML data) (\<lambda>_. Abort h)"

definition AbortWithString :: "string \<Rightarrow> 'v list \<Rightarrow> 'v handler \<Rightarrow> 'v handler" where
  "AbortWithString text data h = Call (String text data) (\<lambda>_. Abort h)"

definition AbortWithStatus :: "64 word \<Rightarrow> 'v handler \<Rightarrow> 'v handler" where
  "AbortWithStatus code h = Call (SetStatus code) (\<lambda>_. Abort h)"

text \<open>\<open>HandleNotFound\<close>: what \<open>http.NotFound\<close> does to the response.\<close>

definition HandleNotFound :: "'v handler" where
  "HandleNotFound =
     Call (SetHeader ''Content-Type'' ''text/plain; charset=utf-8'') (\<lambda>_.
     Call (SetHeader ''X-Content-Type-Options'' ''nosniff'') (\<lambda>_.
     Call (WriteHeader 404) (\<lambda>_.
     Call (Write (''404 page not found'' @ [CHR 0x0A])) (\<lambda>_. Return))))"

text \<open>
  The closures that \<open>RawHandlerFuncGroup\<close> makes in its loop store the context in the request and call
  \<open>handler\<close>; they all refer to the one variable of that name (the module is for Go 1.19), which holds
  the last handler once the loop is done.
\<close>

definition raw_closure :: "'v handler \<Rightarrow> 'v handler" where
  "raw_closure handler = Call (SetRequest SetContextIntoRequest) (\<lambda>_. handler)"

definition RawHandlerFuncGroup :: "'v handler list \<Rightarrow> 'v handler list" where
  "RawHandlerFuncGroup handlers = map (\<lambda>_. raw_closure (last handlers)) handlers"

record ('v, 'b) handleFuncNode =
  HandleFunc :: "'v handler"
  BluePrint :: 'b

text \<open>\<open>[]*handleFuncNode\<close>; a nil pointer is \<open>None\<close>.\<close>

type_synonym ('v, 'b) group = "('v, 'b) handleFuncNode option list"

text \<open>
  The code outside \<open>src\<close> that rendering uses: the encoder of the serializer a blueprint resolves
  to (\<open>None\<close> where the serializer is nil), which fails or writes its bytes in one piece,
  \<open>fmt.Sprintf\<close>, and whether the logger that a blueprint resolves to is not nil.
\<close>

record ('v, 'b) env =
  json :: "'b \<Rightarrow> ('v \<Rightarrow> string + string) option"
  xml :: "'b \<Rightarrow> ('v \<Rightarrow> string + string) option"
  sprintf :: "string \<Rightarrow> 'v list \<Rightarrow> string"
  has_logger :: "'b \<Rightarrow> bool"

section \<open>Rendering\<close>

definition write_out :: "string \<Rightarrow> response \<Rightarrow> (string option, response) outcome" where
  "write_out bytes r = (case write_body bytes r of (err, r1) \<Rightarrow> Done err r1)"

definition encode :: "('v \<Rightarrow> string + string) option \<Rightarrow> 'v \<Rightarrow> response \<Rightarrow> (string option, response) outcome" where
  "encode ser v r =
     (case ser of None \<Rightarrow> Panicked NilDeref r
      | Some enc \<Rightarrow> (case enc v of Inl err \<Rightarrow> Done (Some err) r | Inr bytes \<Rightarrow> write_out bytes r))"

definition JsonRender :: "('v \<Rightarrow> string + string) option \<Rightarrow> 'v \<Rightarrow> response \<Rightarrow> (string option, response) outcome" where
  "JsonRender ser v r = encode ser v (writeContentType ''application/json;charset=utf-8'' r)"

definition XmlRender :: "('v \<Rightarrow> string + string) option \<Rightarrow> 'v \<Rightarrow> response \<Rightarrow> (string option, response) outcome" where
  "XmlRender ser v r = encode ser v (writeContentType ''text/xml;charset=utf-8'' r)"

definition StringRender ::
  "(string \<Rightarrow> 'v list \<Rightarrow> string) \<Rightarrow> string \<Rightarrow> 'v list \<Rightarrow> response \<Rightarrow> (string option, response) outcome" where
  "StringRender fmt format data r =
     (let r1 = writeContentType ''text/html;charset=utf-8'' r
      in if length data > 0 then write_out (fmt format data) r1 else write_out format r1)"

fun run_op :: "writer_op \<Rightarrow> response \<Rightarrow> (string option, response) outcome" where
  "run_op (OpSet k v) r = Done None (r\<lparr>hdr := header_set k v (hdr r)\<rparr>)"
| "run_op (OpAdd k v) r = Done None (r\<lparr>hdr := header_add k v (hdr r)\<rparr>)"
| "run_op (OpDel k) r = Done None (r\<lparr>hdr := header_del k (hdr r)\<rparr>)"
| "run_op (OpStatus code) r = (case writeHeader code r of Inl p \<Rightarrow> Panicked p r | Inr r1 \<Rightarrow> Done None r1)"
| "run_op (OpWrite bytes) r = write_out bytes r"

text \<open>The results of the writes are dropped.\<close>

fun run_ops :: "writer_op list \<Rightarrow> response \<Rightarrow> (string option, response) outcome" where
  "run_ops [] r = Done None r"
| "run_ops (p # ps) r =
     (case run_op p r of Done _ r1 \<Rightarrow> run_ops ps r1 | Panicked q r1 \<Rightarrow> Panicked q r1 | OutOfFuel \<Rightarrow> OutOfFuel)"

definition serve :: "serving \<Rightarrow> wire \<Rightarrow> response \<Rightarrow> (string option, response) outcome" where
  "serve f req r = run_ops (f req (hdr r)) r"

text \<open>
  \<open>Render\<close> sends the status line first and clears \<open>status\<close>, so that the test that follows it,
  whether the status allows a body, is always made for status 0.
\<close>

definition Render ::
  "(response \<Rightarrow> (string option, response) outcome) \<Rightarrow> 'v shared \<Rightarrow> (string option, 'v shared) outcome" where
  "Render render c =
     (case (if status c \<noteq> 0 then
              rbind (writeHeader (sint (status c)) (writer c)) (\<lambda>w. Inr (c\<lparr>writer := w, status := 0\<rparr>))
            else Inr c) of
        Inl p \<Rightarrow> Panicked p c
      | Inr c1 \<Rightarrow>
          if \<not> bodyAllowedForStatus (sint (status c1)) then Done None c1
          else let c2 = c1\<lparr>written := True\<rparr>
               in map_state (\<lambda>w. c2\<lparr>writer := w\<rparr>) (render (writer c2)))"

section \<open>The calls\<close>

definition set_value :: "string \<Rightarrow> 'v \<Rightarrow> 'v shared \<Rightarrow> 'v shared" where
  "set_value key val c =
     (let m = (case items c of None \<Rightarrow> Map.empty | Some m \<Rightarrow> m) in c\<lparr>items := Some (m(key \<mapsto> val))\<rparr>)"

definition get_value :: "string \<Rightarrow> 'v shared \<Rightarrow> 'v option" where
  "get_value key c = (case items c of None \<Rightarrow> None | Some m \<Rightarrow> m key)"

text \<open>\<open>bp\<close> is the outcome of \<open>c.BluePrint()\<close>, which \<open>JSON\<close> and \<open>XML\<close> call first.\<close>

definition with_blueprint :: "'b res \<Rightarrow> 's \<Rightarrow> ('b \<Rightarrow> ('a, 's) outcome) \<Rightarrow> ('a, 's) outcome" where
  "with_blueprint bp c f = (case bp of Inl p \<Rightarrow> Panicked p c | Inr b \<Rightarrow> f b)"

fun run_call :: "('v, 'b) env \<Rightarrow> 'b res \<Rightarrow> 'v call \<Rightarrow> 'v shared \<Rightarrow> (string option, 'v shared) outcome" where
  "run_call env bp (SetStatus code) c = Done None (c\<lparr>status := code\<rparr>)"
| "run_call env bp (SetHeader key val) c =
     Done None (c\<lparr>writer := (writer c)\<lparr>hdr := header_set key val (hdr (writer c))\<rparr>\<rparr>)"
| "run_call env bp (SetValue key val) c = Done None (set_value key val c)"
| "run_call env bp (Write data) c = map_state (\<lambda>w. c\<lparr>writer := w\<rparr>) (write_out data (writer c))"
| "run_call env bp (WriteHeader code) c =
     (case writeHeader code (writer c) of Inl p \<Rightarrow> Panicked p c | Inr w \<Rightarrow> Done None (c\<lparr>writer := w\<rparr>))"
| "run_call env bp (JSON v) c = with_blueprint bp c (\<lambda>b. Render (JsonRender (json env b) v) c)"
| "run_call env bp (XML v) c = with_blueprint bp c (\<lambda>b. Render (XmlRender (xml env b) v) c)"
| "run_call env bp (String format data) c = Render (StringRender (sprintf env) format data) c"
| "run_call env bp Escape c = Done None (c\<lparr>escape := True\<rparr>)"
| "run_call env bp (RenderOps f) c = Render (serve f (ctx_request c)) c"
| "run_call env bp (RawOps f) c = map_state (\<lambda>w. c\<lparr>writer := w\<rparr>) (serve f (ctx_request c) (writer c))"
| "run_call env bp (SetRequest f) c = Done None (c\<lparr>ctx_request := f (ctx_request c)\<rparr>)"
| "run_call env bp (SetMatched b) c = Done None (c\<lparr>matched := b\<rparr>)"
| "run_call env bp (OpenGzip k level) c =
     Done None (c\<lparr>writer := (writer c)\<lparr>layers := new_gzip k level # layers (writer c)\<rparr>\<rparr>)"
| "run_call env bp (CloseGzip d) c = (case gzip_close d (writer c) of (err, w) \<Rightarrow> Done err (c\<lparr>writer := w\<rparr>))"
| "run_call env bp (LogError msg) c =
     with_blueprint bp c (\<lambda>b. if has_logger env b then Done None c else Panicked NilDeref c)"

section \<open>Running the group\<close>

definition IsAborted :: "'v ctx \<Rightarrow> bool" where
  "IsAborted c \<longleftrightarrow> abortIndex c \<noteq> 0"

definition node_at :: "('v, 'b) group \<Rightarrow> 8 word \<Rightarrow> ('v, 'b) handleFuncNode res" where
  "node_at g i = rbind (index_at g (unat i)) (\<lambda>n. case n of None \<Rightarrow> Inl NilDeref | Some m \<Rightarrow> Inr m)"

definition current_blueprint :: "('v, 'b) group \<Rightarrow> 'v ctx \<Rightarrow> 'b res" where
  "current_blueprint g c = rbind (node_at g (index c - 1)) (\<lambda>n. Inr (BluePrint n))"

primrec exec ::
  "('v, 'b) env \<Rightarrow> ('v, 'b) group \<Rightarrow> ('v ctx \<Rightarrow> (unit, 'v ctx) outcome) \<Rightarrow> 'v handler \<Rightarrow>
   'v ctx \<Rightarrow> (unit, 'v ctx) outcome" where
  "exec env g nxt Return = (\<lambda>c. Done () c)"
| "exec env g nxt (Panic p) = (\<lambda>c. Panicked p c)"
| "exec env g nxt (Ask f) = (\<lambda>c. exec env g nxt (f (shared c, IsAborted c)) c)"
| "exec env g nxt (Call a f) = (\<lambda>c.
     case run_call env (current_blueprint g c) a (shared c) of
       Done err s \<Rightarrow> exec env g nxt (f err) (c\<lparr>shared := s\<rparr>)
     | Panicked p s \<Rightarrow> Panicked p (c\<lparr>shared := s\<rparr>)
     | OutOfFuel \<Rightarrow> OutOfFuel)"
| "exec env g nxt (Next h) = (\<lambda>c.
     case nxt c of Done _ c1 \<Rightarrow> exec env g nxt h c1 | Panicked p c1 \<Rightarrow> Panicked p c1 | OutOfFuel \<Rightarrow> OutOfFuel)"
| "exec env g nxt (NextRecover rec h) = (\<lambda>c.
     case nxt c of Done _ c1 \<Rightarrow> exec env g nxt h c1 | Panicked p c1 \<Rightarrow> exec env g nxt (rec p) c1
     | OutOfFuel \<Rightarrow> OutOfFuel)"
| "exec env g nxt (Abort h) = (\<lambda>c. exec env g nxt h (c\<lparr>abortIndex := index c\<rparr>))"

text \<open>
  The loop of \<open>Next\<close>, with fuel for its turns; \<open>index\<close> is compared with \<open>uint8(len(group))\<close>.
\<close>

fun next_loop ::
  "('v, 'b) env \<Rightarrow> nat \<Rightarrow> ('v, 'b) group \<Rightarrow> 'v ctx \<Rightarrow> (unit, 'v ctx) outcome" where
  "next_loop env 0 g c = OutOfFuel"
| "next_loop env (Suc k) g c =
     (if index c \<le> of_nat (length g) \<and> \<not> IsAborted c then
        (case node_at g (index c - 1) of
           Inl p \<Rightarrow> Panicked p c
         | Inr n \<Rightarrow>
             (case exec env g (\<lambda>c. next_loop env k g (c\<lparr>index := index c + 1\<rparr>)) (HandleFunc n) c of
                Done _ c1 \<Rightarrow> next_loop env k g (c1\<lparr>index := index c1 + 1\<rparr>)
              | Panicked p c1 \<Rightarrow> Panicked p c1
              | OutOfFuel \<Rightarrow> OutOfFuel))
      else Done () c)"

definition NextFn ::
  "('v, 'b) env \<Rightarrow> nat \<Rightarrow> ('v, 'b) group \<Rightarrow> 'v ctx \<Rightarrow> (unit, 'v ctx) outcome" where
  "NextFn env k g c = next_loop env k g (c\<lparr>index := index c + 1\<rparr>)"

text \<open>\<open>finish\<close>, deferred by \<open>start\<close>, so it runs after a panic as well.\<close>

definition finish :: "'v shared \<Rightarrow> 'v shared res" where
  "finish c =
     (if status c \<noteq> 0 \<and> \<not> written c
      then rbind (writeHeader (sint (status c)) (writer c)) (\<lambda>w. Inr (c\<lparr>writer := w\<rparr>))
      else Inr c)"

definition finish_ctx :: "'v ctx \<Rightarrow> 'v ctx res" where
  "finish_ctx c = rbind (finish (shared c)) (\<lambda>s. Inr (c\<lparr>shared := s\<rparr>))"

definition start ::
  "('v, 'b) env \<Rightarrow> nat \<Rightarrow> ('v, 'b) group \<Rightarrow> 'v ctx \<Rightarrow> (unit, 'v ctx) outcome" where
  "start env k g c =
     (case NextFn env k g c of
        Done _ c1 \<Rightarrow> (case finish_ctx c1 of Inl p \<Rightarrow> Panicked p c1 | Inr c2 \<Rightarrow> Done () c2)
      | Panicked p c1 \<Rightarrow> (case finish_ctx c1 of Inl p' \<Rightarrow> Panicked p' c1 | Inr c2 \<Rightarrow> Panicked p c2)
      | OutOfFuel \<Rightarrow> OutOfFuel)"

text \<open>\<open>reset\<close> runs before the context goes back to the pool; it does not touch \<open>items\<close>.\<close>

definition reset :: "'v ctx \<Rightarrow> 'v ctx" where
  "reset c = c\<lparr>index := 0, abortIndex := 0,
     shared := (shared c)\<lparr>matched := False, status := 0, written := False\<rparr>\<rparr>"

text \<open>\<open>AbortHandler\<close> reads the group at \<open>abortIndex\<close>, where \<open>Next\<close> ran the handler at \<open>index - 1\<close>.\<close>

definition AbortHandler :: "('v, 'b) group \<Rightarrow> 'v ctx \<Rightarrow> 'v handler option res" where
  "AbortHandler g c =
     (if \<not> IsAborted c then Inr None
      else rbind (node_at g (abortIndex c)) (\<lambda>n. Inr (Some (HandleFunc n))))"

end
