(* ===== verification/Router.thy ===== *)
theory Router
  imports TreeWildcard Context
begin

text \<open>
  \<open>core/router.go\<close>: one routing tree per request method.  The handler chain that a tree holds
  is the group of the context.
\<close>

type_synonym ('v, 'b) httpRouter = "string \<rightharpoonup> ('v, 'b) handleFuncNode option router_node"

definition msg_no_root :: "string \<Rightarrow> panic" where
  "msg_no_root p = PanicMsg (''path must begin with '' @ [CHR 0x27] @ ''/'' @ [CHR 0x27] @ '' in path '' @
     [CHR 0x27] @ p @ [CHR 0x27])"

definition Insert ::
  "string \<Rightarrow> string \<Rightarrow> ('v, 'b) group option \<Rightarrow> ('v, 'b) httpRouter \<Rightarrow> ('v, 'b) httpRouter res" where
  "Insert meth p h r =
     (if length p < 1 \<or> p ! 0 \<noteq> CHR ''/'' then Inl (msg_no_root p)
      else
        let rootVal = (case r meth of None \<Rightarrow> zero_node | Some n \<Rightarrow> n)
        in rbind (addRoute p h rootVal) (\<lambda>n. Inr (r(meth \<mapsto> n))))"

text \<open>
  \<open>Match\<close> returns the group with the context; where the method has no tree it leaves the
  context alone.  The full path it records is that of the root, the last path registered.
\<close>

definition Match ::
  "('v, 'b) httpRouter \<Rightarrow> 'v shared \<Rightarrow> (bool \<times> ('v, 'b) group option \<times> 'v shared) res" where
  "Match r c =
     (case r (rq_method (ctx_request c)) of
        None \<Rightarrow> Inr (False, None, c)
      | Some rootVal \<Rightarrow>
          rbind (getValue rootVal (rq_path (ctx_request c))) (\<lambda>(group, params, _).
            Inr (group \<noteq> None, group,
              c\<lparr>ctx_fullPath := fullPath (info rootVal), ctx_params := params\<rparr>)))"

section \<open>Params\<close>

text \<open>\<open>byName\<close> of \<open>core/params.go\<close>: the first parameter of the name, or the empty string.\<close>

fun byName :: "param list \<Rightarrow> string \<Rightarrow> string" where
  "byName [] name = []"
| "byName (p # ps) name = (if Key p = name then Val p else byName ps name)"

text \<open>\<open>ToURLValues\<close>: \<open>url.Values\<close> maps a key to the list of its values; \<open>Add\<close> appends.\<close>

definition values_add :: "string \<Rightarrow> string \<Rightarrow> (string \<rightharpoonup> string list) \<Rightarrow> (string \<rightharpoonup> string list)" where
  "values_add k v m = m(k \<mapsto> (case m k of None \<Rightarrow> [] | Some vs \<Rightarrow> vs) @ [v])"

definition ToURLValues :: "param list \<Rightarrow> (string \<rightharpoonup> string list)" where
  "ToURLValues ps = fold (\<lambda>p. values_add (Key p) (Val p)) ps Map.empty"

section \<open>Facts\<close>

lemma fold_values_add:
  "fold (\<lambda>p. values_add (Key p) (Val p)) ps m k =
     (let vs = map Val (filter (\<lambda>p. Key p = k) ps)
      in if vs = [] then m k else Some ((case m k of None \<Rightarrow> [] | Some ws \<Rightarrow> ws) @ vs))"
  by (induction ps arbitrary: m) (auto simp: values_add_def Let_def split: option.split)

text \<open>\<open>ToURLValues\<close> keeps every value of every parameter, in the order of the path, and \<open>byName\<close>
  reads the first of them, or the empty string when there is none.\<close>

theorem params_views:
  "ToURLValues ps k = (let vs = map Val (filter (\<lambda>p. Key p = k) ps) in if vs = [] then None else Some vs) \<and>
   byName ps k = (case ToURLValues ps k of None \<Rightarrow> [] | Some vs \<Rightarrow> hd vs)"
proof -
  have t: "ToURLValues ps k = (let vs = map Val (filter (\<lambda>p. Key p = k) ps) in if vs = [] then None else Some vs)"
    unfolding ToURLValues_def fold_values_add by (simp add: Let_def)
  have "byName ps k = (case map Val (filter (\<lambda>p. Key p = k) ps) of [] \<Rightarrow> [] | v # _ \<Rightarrow> v)"
    by (induction ps) auto
  with t show ?thesis by (auto simp: Let_def split: list.split)
qed

lemma Insert_frame_lemma:
  assumes "Insert meth p h r = Inr r'"
  shows "hd p = CHR ''/'' \<and> p \<noteq> [] \<and> (\<forall>m. m \<noteq> meth \<longrightarrow> r' m = r m) \<and>
    (\<exists>n. r' meth = Some n \<and>
      addRoute p h (case r meth of None \<Rightarrow> zero_node | Some n \<Rightarrow> n) = Inr n)"
  using assms by (cases p) (auto simp: Insert_def Let_def rbind_eq_Inr split: if_splits)

text \<open>\<open>Insert\<close> changes the tree of its own method only, and refuses a path that does not begin with
  a slash whatever the tree holds.\<close>

theorem Insert_frame:
  assumes "Insert meth p h r = Inr r'"
  shows "hd p = CHR ''/'' \<and> p \<noteq> [] \<and> (\<forall>m. m \<noteq> meth \<longrightarrow> r' m = r m) \<and>
    (\<exists>n. r' meth = Some n \<and>
      addRoute p h (case r meth of None \<Rightarrow> zero_node | Some n \<Rightarrow> n) = Inr n)"
  by (rule Insert_frame_lemma [OF assms])

theorem Insert_frame_witness:
  "\<exists>n. (projr (Insert ''GET'' ''/a'' (Some [None :: (nat, nat) handleFuncNode option]) Map.empty)) ''GET'' = Some n"
proof -
  have "\<not> panics (Insert ''GET'' ''/a'' (Some [None :: (nat, nat) handleFuncNode option]) Map.empty)"
    by code_simp
  then obtain r where r: "Insert ''GET'' ''/a'' (Some [None :: (nat, nat) handleFuncNode option]) Map.empty = Inr r"
    by (auto simp: panics_iff)
  from Insert_frame [OF r] show ?thesis by (auto simp: r)
qed

end
