(* ===== verification/ContextQueue.thy ===== *)
theory ContextQueue
  imports Context
begin

text \<open>
  What \<open>Next\<close> means, without indices: the handlers that have not started form a queue, and
  \<open>Next\<close> takes them off it one by one until it is empty or the context is aborted.  The index
  arithmetic of \<open>core/context.go\<close> implements this as long as its \<open>uint8\<close> does not run over, and
  for handlers that look up their blueprint before they call \<open>Next\<close>.
\<close>

section \<open>The queue\<close>

record ('v, 'b) qstate =
  q_shared :: "'v shared"
  q_aborted :: bool
  pending :: "('v, 'b) group"

primrec q_exec ::
  "('v, 'b) env \<Rightarrow> 'b \<Rightarrow> (('v, 'b) qstate \<Rightarrow> (unit, ('v, 'b) qstate) outcome) \<Rightarrow> 'v handler \<Rightarrow>
   ('v, 'b) qstate \<Rightarrow> (unit, ('v, 'b) qstate) outcome" where
  "q_exec env b nxt Return = (\<lambda>s. Done () s)"
| "q_exec env b nxt (Panic p) = (\<lambda>s. Panicked p s)"
| "q_exec env b nxt (Ask f) = (\<lambda>s. q_exec env b nxt (f (q_shared s, q_aborted s)) s)"
| "q_exec env b nxt (Call a f) = (\<lambda>s.
     case run_call env (Inr b) a (q_shared s) of
       Done err x \<Rightarrow> q_exec env b nxt (f err) (s\<lparr>q_shared := x\<rparr>)
     | Panicked p x \<Rightarrow> Panicked p (s\<lparr>q_shared := x\<rparr>)
     | OutOfFuel \<Rightarrow> OutOfFuel)"
| "q_exec env b nxt (Next h) = (\<lambda>s.
     case nxt s of Done _ s1 \<Rightarrow> q_exec env b nxt h s1 | Panicked p s1 \<Rightarrow> Panicked p s1 | OutOfFuel \<Rightarrow> OutOfFuel)"
| "q_exec env b nxt (NextRecover rec h) = (\<lambda>s.
     case nxt s of Done _ s1 \<Rightarrow> q_exec env b nxt h s1 | Panicked p s1 \<Rightarrow> q_exec env b nxt (rec p) s1
     | OutOfFuel \<Rightarrow> OutOfFuel)"
| "q_exec env b nxt (Abort h) = (\<lambda>s. q_exec env b nxt h (s\<lparr>q_aborted := True\<rparr>))"

fun q_next :: "('v, 'b) env \<Rightarrow> nat \<Rightarrow> ('v, 'b) qstate \<Rightarrow> (unit, ('v, 'b) qstate) outcome" where
  "q_next env 0 s = OutOfFuel"
| "q_next env (Suc k) s =
     (if q_aborted s then Done () s
      else case pending s of
        [] \<Rightarrow> Done () s
      | None # ns \<Rightarrow> Panicked NilDeref (s\<lparr>pending := ns\<rparr>)
      | Some n # ns \<Rightarrow>
          (case q_exec env (BluePrint n) (q_next env k) (HandleFunc n) (s\<lparr>pending := ns\<rparr>) of
             Done _ s1 \<Rightarrow> q_next env k s1
           | Panicked p s1 \<Rightarrow> Panicked p s1
           | OutOfFuel \<Rightarrow> OutOfFuel))"

section \<open>Handlers within the bounds\<close>

fun uses_blueprint :: "'v call \<Rightarrow> bool" where
  "uses_blueprint (JSON v) = True"
| "uses_blueprint (XML v) = True"
| "uses_blueprint (LogError msg) = True"
| "uses_blueprint _ = False"

text \<open>At most \<open>m\<close> calls of \<open>Next\<close> on every path, and no blueprint looked up after one.\<close>

primrec within :: "nat \<Rightarrow> bool \<Rightarrow> 'v handler \<Rightarrow> bool" where
  "within m first Return = True"
| "within m first (Panic p) = True"
| "within m first (Ask f) = (\<forall>x. within m first (f x))"
| "within m first (Call a f) = ((uses_blueprint a \<longrightarrow> first) \<and> (\<forall>x. within m first (f x)))"
| "within m first (Next h) = (0 < m \<and> within (m - 1) False h)"
| "within m first (NextRecover rec h) =
     (0 < m \<and> within (m - 1) False h \<and> (\<forall>p. within (m - 1) False (rec p)))"
| "within m first (Abort h) = within m first h"

lemma run_call_no_blueprint:
  "\<not> uses_blueprint a \<Longrightarrow> run_call env bp a s = run_call env bp' a s"
  by (cases a) simp_all

lemma Render_ends: "(\<And>r. render r \<noteq> OutOfFuel) \<Longrightarrow> Render render c \<noteq> OutOfFuel"
proof -
  assume "\<And>r. render r \<noteq> OutOfFuel"
  then have "map_state f (render r) \<noteq> OutOfFuel" for f :: "response \<Rightarrow> 'a shared" and r
    by (cases "render r") auto
  then show ?thesis by (auto simp: Render_def Let_def split: sum.split)
qed

lemma encode_ends: "encode ser v r \<noteq> OutOfFuel"
  by (auto simp: encode_def write_out_def split: option.split sum.split prod.split)

lemma write_out_ends: "write_out bytes r \<noteq> OutOfFuel"
  by (simp add: write_out_def split: prod.split)

lemma run_op_ends: "run_op p r \<noteq> OutOfFuel"
  by (cases p) (auto simp: write_out_ends split: sum.split)

lemma run_ops_ends: "run_ops ps r \<noteq> OutOfFuel"
  by (induction ps arbitrary: r) (auto simp: run_op_ends split: outcome.split)

lemma map_state_ends: "o1 \<noteq> OutOfFuel \<Longrightarrow> map_state f o1 \<noteq> OutOfFuel"
  by (cases o1) auto

lemma run_call_ends [simp]: "run_call env bp a c \<noteq> OutOfFuel"
proof (cases a)
  case (String format data)
  then show ?thesis
    by (auto simp: StringRender_def write_out_ends Let_def split: if_splits intro!: Render_ends)
qed (auto simp: with_blueprint_def JsonRender_def XmlRender_def encode_ends write_out_def serve_def
    run_ops_ends intro!: Render_ends map_state_ends split: sum.split prod.split)

section \<open>The simulation\<close>

text \<open>
  The index counts the handlers that have started, or is past the end; in the head of the loop it
  already stands at the next one.
\<close>

definition ahead :: "('v, 'b) group \<Rightarrow> nat \<Rightarrow> 'v ctx \<Rightarrow> ('v, 'b) qstate \<Rightarrow> bool" where
  "ahead g i c s \<longleftrightarrow> shared c = q_shared s \<and> IsAborted c = q_aborted s \<and> 1 \<le> unat (index c) \<and>
     (q_aborted s \<or> pending s = drop i g)"

abbreviation "sim g c s \<equiv> ahead g (unat (index c)) c s"
abbreviation "at_head g c s \<equiv> ahead g (unat (index c) - 1) c s"

definition weight :: "nat \<Rightarrow> 'v ctx \<Rightarrow> ('v, 'b) qstate \<Rightarrow> nat" where
  "weight b c s = unat (index c) + Suc b * length (pending s)"

text \<open>Both runs end the same way, in related states, no heavier than \<open>w\<close> and with no longer queue.\<close>

fun tracks ::
  "('v, 'b) group \<Rightarrow> nat \<Rightarrow> nat \<Rightarrow> nat \<Rightarrow> (unit, 'v ctx) outcome \<Rightarrow> (unit, ('v, 'b) qstate) outcome \<Rightarrow> bool" where
  "tracks g b w l (Done _ c) (Done _ s) = (sim g c s \<and> weight b c s \<le> w \<and> length (pending s) \<le> l)"
| "tracks g b w l (Panicked p c) (Panicked p' s) =
     (p = p' \<and> sim g c s \<and> weight b c s \<le> w \<and> length (pending s) \<le> l)"
| "tracks g b w l _ _ = False"

lemma tracks_mono: "tracks g b w l o1 o2 \<Longrightarrow> w \<le> w' \<Longrightarrow> l \<le> l' \<Longrightarrow> tracks g b w' l' o1 o2"
  by (cases "(g, b, w, l, o1, o2)" rule: tracks.cases) auto

lemma tracks_cases [consumes 1, case_names returned panicked]:
  assumes "tracks g b w l o1 o2"
    and "\<And>c s. o1 = Done () c \<Longrightarrow> o2 = Done () s \<Longrightarrow> sim g c s \<Longrightarrow> weight b c s \<le> w \<Longrightarrow>
      length (pending s) \<le> l \<Longrightarrow> P"
    and "\<And>p c s. o1 = Panicked p c \<Longrightarrow> o2 = Panicked p s \<Longrightarrow> sim g c s \<Longrightarrow> weight b c s \<le> w \<Longrightarrow>
      length (pending s) \<le> l \<Longrightarrow> P"
  shows P
  using assms by (cases "(g, b, w, l, o1, o2)" rule: tracks.cases) auto

text \<open>The handler \<open>n\<close> is the one that runs: the index is at its place.\<close>

definition running :: "('v, 'b) group \<Rightarrow> 'b \<Rightarrow> 'v ctx \<Rightarrow> bool" where
  "running g b c \<longleftrightarrow> current_blueprint g c = Inr b"

lemma running_simps [simp]:
  "running g b (c\<lparr>shared := x\<rparr>) = running g b c"
  "running g b (c\<lparr>abortIndex := i\<rparr>) = running g b c"
  by (simp_all add: running_def current_blueprint_def)

lemma ahead_shared:
  "ahead g i c s \<Longrightarrow> ahead g i (c\<lparr>shared := x\<rparr>) (s\<lparr>q_shared := x\<rparr>)"
  by (auto simp: ahead_def IsAborted_def)

lemma weight_simps [simp]:
  "weight b (c\<lparr>shared := x\<rparr>) (s\<lparr>q_shared := y\<rparr>) = weight b c s"
  "weight b (c\<lparr>abortIndex := i\<rparr>) (s\<lparr>q_aborted := a\<rparr>) = weight b c s"
  by (simp_all add: weight_def)

lemma unat_Suc: "unat i < 255 \<Longrightarrow> unat (i + 1 :: 8 word) = Suc (unat i)"
  by (simp add: unat_word_ariths)

lemma step_index:
  assumes "sim g c s" and "weight b c s < 255"
  shows "at_head g (c\<lparr>index := index c + 1\<rparr>) s" and "weight b (c\<lparr>index := index c + 1\<rparr>) s = Suc (weight b c s)"
proof -
  have "unat (index c + 1) = Suc (unat (index c))"
    using assms(2) by (intro unat_Suc) (simp add: weight_def)
  then show "at_head g (c\<lparr>index := index c + 1\<rparr>) s"
    "weight b (c\<lparr>index := index c + 1\<rparr>) s = Suc (weight b c s)"
    using assms(1) by (auto simp: ahead_def weight_def IsAborted_def)
qed

lemma exec_tracks:
  assumes loop: "\<And>c s. at_head g c s \<Longrightarrow> weight b c s \<le> 255 \<Longrightarrow> length (pending s) < k \<Longrightarrow>
      tracks g b (weight b c s) (length (pending s)) (next_loop env k g c) (q_next env k s)"
    and "within m first h" and "sim g c s" and "weight b c s + m \<le> w" and "w \<le> 254"
    and "length (pending s) \<le> l" and "l < k" and "first \<Longrightarrow> running g bp c"
  shows "tracks g b w l
    (exec env g (\<lambda>c. next_loop env k g (c\<lparr>index := index c + 1\<rparr>)) h c) (q_exec env bp (q_next env k) h s)"
  using assms(2-4,6-8)
proof (induction h arbitrary: m first c s)
  case Return
  then show ?case by simp
next
  case (Panic p)
  then show ?case by simp
next
  case (Ask f)
  then have "q_shared s = shared c" "q_aborted s = IsAborted c" by (simp_all add: ahead_def)
  then show ?case
    using Ask.prems Ask.IH [OF rangeI, of m first _ c s] by simp
next
  case (Call a f)
  have sh: "q_shared s = shared c" using Call.prems(2) by (simp add: ahead_def)
  have "run_call env (current_blueprint g c) a (shared c) = run_call env (Inr bp) a (q_shared s)"
  proof (cases "uses_blueprint a")
    case True
    with Call.prems(1,6) show ?thesis by (simp add: sh running_def)
  qed (simp add: sh run_call_no_blueprint)
  then show ?case
    using Call.prems ahead_shared [OF Call.prems(2)]
    using run_call_ends [of env "Inr bp" a "q_shared s"]
    by (cases "run_call env (Inr bp) a (q_shared s)") (auto intro!: Call.IH)
next
  case (Next h)
  let ?c = "c\<lparr>index := index c + 1\<rparr>"
  have w: "weight b c s < 255" "0 < m" using Next.prems(1,3) assms(5) by simp_all
  note st = step_index [OF Next.prems(2) w(1)]
  have "tracks g b (Suc (weight b c s)) l (next_loop env k g ?c) (q_next env k s)"
    by (rule tracks_mono [OF loop [OF st(1)]]) (use st(2) w Next.prems assms(7) in simp_all)
  then show ?case
  proof (cases rule: tracks_cases)
    case (returned c1 s1)
    moreover have "tracks g b w l (exec env g (\<lambda>c. next_loop env k g (c\<lparr>index := index c + 1\<rparr>)) h c1)
        (q_exec env bp (q_next env k) h s1)"
      by (rule Next.IH [of "m - 1" False]) (use Next.prems returned w in auto)
    ultimately show ?thesis by simp
  next
    case (panicked p c1 s1)
    with Next.prems(3) w(2) show ?thesis by simp
  qed
next
  case (NextRecover rec h)
  let ?c = "c\<lparr>index := index c + 1\<rparr>"
  have w: "weight b c s < 255" "0 < m" using NextRecover.prems(1,3) assms(5) by simp_all
  note st = step_index [OF NextRecover.prems(2) w(1)]
  have "tracks g b (Suc (weight b c s)) l (next_loop env k g ?c) (q_next env k s)"
    by (rule tracks_mono [OF loop [OF st(1)]]) (use st(2) w NextRecover.prems assms(7) in simp_all)
  then show ?case
  proof (cases rule: tracks_cases)
    case (returned c1 s1)
    moreover have "tracks g b w l (exec env g (\<lambda>c. next_loop env k g (c\<lparr>index := index c + 1\<rparr>)) h c1)
        (q_exec env bp (q_next env k) h s1)"
      by (rule NextRecover.IH(2) [of "m - 1" False]) (use NextRecover.prems returned w in auto)
    ultimately show ?thesis by simp
  next
    case (panicked p c1 s1)
    moreover have "tracks g b w l (exec env g (\<lambda>c. next_loop env k g (c\<lparr>index := index c + 1\<rparr>)) (rec p) c1)
        (q_exec env bp (q_next env k) (rec p) s1)"
      by (rule NextRecover.IH(1) [OF rangeI, of "m - 1" False]) (use NextRecover.prems panicked w in auto)
    ultimately show ?thesis by simp
  qed
next
  case (Abort h)
  have "1 \<le> unat (index c)" using Abort.prems(2) by (simp add: ahead_def)
  then have "index c \<noteq> 0" by auto
  with Abort.prems(2) have "sim g (c\<lparr>abortIndex := index c\<rparr>) (s\<lparr>q_aborted := True\<rparr>)"
    by (auto simp: ahead_def IsAborted_def)
  with Abort show ?case by simp
qed


text \<open>The handlers of a group whose index cannot run over.\<close>

definition disciplined :: "nat \<Rightarrow> ('v, 'b) group \<Rightarrow> bool" where
  "disciplined b g \<longleftrightarrow> Suc b * length g \<le> 254 \<and>
     (\<forall>n\<in>set g. case n of None \<Rightarrow> True | Some m \<Rightarrow> within b True (HandleFunc m))"

lemma disciplined_length: "disciplined b g \<Longrightarrow> length g \<le> 254"
  by (simp add: disciplined_def)

lemma index_le_length:
  "length g \<le> 254 \<Longrightarrow> i \<le> (of_nat (length g) :: 8 word) \<longleftrightarrow> unat i \<le> length g"
  by (simp add: word_le_nat_alt unat_of_nat take_bit_eq_mod)

lemma unat_pred: "1 \<le> unat i \<Longrightarrow> unat (i - 1 :: 8 word) = unat i - 1"
  by (metis One_nat_def nat_1_add_1 not_one_le_zero unat_minus_one unat_0)

lemma next_loop_tracks:
  assumes "disciplined b g"
  shows "at_head g c s \<Longrightarrow> weight b c s \<le> 255 \<Longrightarrow> length (pending s) < k \<Longrightarrow>
    tracks g b (weight b c s) (length (pending s)) (next_loop env k g c) (q_next env k s)"
proof (induction k arbitrary: c s)
  case (Suc k)
  note h = Suc.prems(1) [unfolded ahead_def]
  note le = index_le_length [OF disciplined_length [OF assms]]
  let ?i = "unat (index c)"
  show ?case
  proof (cases "q_aborted s \<or> pending s = []")
    case True
    have "\<not> (index c \<le> of_nat (length g) \<and> \<not> IsAborted c)"
      using h True le by auto
    moreover have "sim g c s" using h True unfolding ahead_def by auto
    ultimately show ?thesis using True by (auto split: list.split)
  next
    case False
    then have ab: "\<not> IsAborted c" "\<not> q_aborted s" and p: "pending s = drop (?i - 1) g" "pending s \<noteq> []"
      using h by auto
    from p have i: "?i - 1 < length g" by simp
    with h le ab have go: "index c \<le> of_nat (length g) \<and> \<not> IsAborted c" by simp
    have pd: "pending s = g ! (?i - 1) # drop ?i g"
      using h i p(1) Cons_nth_drop_Suc [OF i] by simp
    let ?s = "s\<lparr>pending := drop ?i g\<rparr>"
    have at: "node_at g (index c - 1) = (case g ! (?i - 1) of None \<Rightarrow> Inl NilDeref | Some m \<Rightarrow> Inr m)"
      using i h by (simp add: node_at_def unat_pred index_at_def)
    have sim: "sim g c ?s" using h ab by (simp add: ahead_def)
    have w: "weight b c ?s + Suc b = weight b c s" "length (drop ?i g) < length (pending s)"
      using pd by (simp_all add: weight_def)
    show ?thesis
    proof (cases "g ! (?i - 1)")
      case None
      with pd at go ab sim w show ?thesis by simp
    next
      case (Some n)
      have "running g (BluePrint n) c"
        by (simp add: running_def current_blueprint_def at Some del: One_nat_def)
      moreover have "within b True (HandleFunc n)"
        using assms Some i unfolding disciplined_def by (metis nth_mem option.simps(5))
      ultimately have tr: "tracks g b (weight b c ?s + b) (length (drop ?i g))
          (exec env g (\<lambda>c. next_loop env k g (c\<lparr>index := index c + 1\<rparr>)) (HandleFunc n) c)
          (q_exec env (BluePrint n) (q_next env k) (HandleFunc n) ?s)"
        by (intro exec_tracks [OF Suc.IH]) (use sim w Suc.prems(2,3) in auto)
      then show ?thesis
      proof (cases rule: tracks_cases)
        case (returned c1 s1)
        have w1: "weight b c1 s1 < 255" using returned(4) w(1) Suc.prems(2) by simp
        note st = step_index [OF returned(3) w1]
        have "tracks g b (weight b c s) (length (pending s))
            (next_loop env k g (c1\<lparr>index := index c1 + 1\<rparr>)) (q_next env k s1)"
          by (rule tracks_mono [OF Suc.IH [OF st(1)]])
            (use st(2) w1 returned(4,5) w Suc.prems(3) in simp_all)
        then show ?thesis using returned(1,2) pd at go ab Some by simp
      next
        case (panicked p' c1 s1)
        have "weight b c1 s1 \<le> weight b c s" using panicked(4) w(1) by simp
        with panicked w pd at go ab Some show ?thesis by simp
      qed
    qed
  qed
qed simp

section \<open>Next is the queue\<close>

definition queue_of :: "('v, 'b) group \<Rightarrow> 'v ctx \<Rightarrow> ('v, 'b) qstate" where
  "queue_of g c = \<lparr>q_shared = shared c, q_aborted = IsAborted c, pending = g\<rparr>"

definition observed :: "'v ctx \<Rightarrow> 'v shared \<times> bool" where
  "observed c = (shared c, IsAborted c)"

definition q_observed :: "('v, 'b) qstate \<Rightarrow> 'v shared \<times> bool" where
  "q_observed s = (q_shared s, q_aborted s)"

lemma NextFn_tracks:
  assumes "disciplined b g" and "index c = 0" and "length g < k"
  shows "tracks g b 255 (length g) (NextFn env k g c) (q_next env k (queue_of g c))"
proof -
  let ?c = "c\<lparr>index := index c + 1\<rparr>" and ?s = "queue_of g c"
  have h: "at_head g ?c ?s" using assms(2) by (simp add: ahead_def queue_of_def IsAborted_def)
  have w: "weight b ?c ?s \<le> 255"
    using assms(1,2) by (simp add: weight_def queue_of_def disciplined_def)
  have "tracks g b (weight b ?c ?s) (length (pending ?s)) (next_loop env k g ?c) (q_next env k ?s)"
    by (rule next_loop_tracks [OF assms(1) h w]) (simp add: queue_of_def assms(3))
  then show ?thesis
    unfolding NextFn_def by (rule tracks_mono) (use w in \<open>simp_all add: queue_of_def\<close>)
qed

lemma tracks_observed:
  assumes "tracks g b w l o1 o2"
  shows "map_state observed o1 = map_state q_observed o2" and "o1 \<noteq> OutOfFuel"
  using assms by (cases rule: tracks_cases; simp add: ahead_def observed_def q_observed_def)+

text \<open>A context before its first handler, to apply the properties to.\<close>

definition idle_ctx :: "nat ctx" where
  "idle_ctx = \<lparr>shared = \<lparr>matched = True, escape = False, status = 0, written = False, items = None,
     ctx_request = get_request, writer = new_response, ctx_params = None, ctx_fullPath = []\<rparr>, index = 0, abortIndex = 0\<rparr>"

lemma Next_eq_queue:
  assumes "disciplined b g" and "index c = 0" and "length g < k"
  shows "map_state observed (NextFn env k g c) = map_state q_observed (q_next env k (queue_of g c))"
    and "NextFn env k g c \<noteq> OutOfFuel"
  using tracks_observed [OF NextFn_tracks [OF assms]] by simp_all

text \<open>C8: on a context whose index is 0, as \<open>reset\<close> leaves it, \<open>Next\<close> does what taking the handlers off a queue
  does: same panic or return, same response and other fields, same abort flag.  It needs no more
  than one turn per handler and one to stop.  The group is \<open>disciplined\<close>: each handler calls \<open>Next\<close> at most \<open>b\<close>
  times on every path through it, \<open>b + 1\<close> times the number of handlers is at most 254, so that the \<open>uint8\<close> index
  cannot run over, and no handler makes a call that looks up its blueprint (\<open>JSON\<close>, \<open>XML\<close>, \<open>Logger\<close>) after it has
  called \<open>Next\<close>; after \<open>Next\<close> such a call panics (\<open>blueprint_after_Next\<close>).\<close>

theorem Next_refines_queue:
  assumes "disciplined b g" and "index c = 0" and "length g < k"
  shows "map_state observed (NextFn env k g c) = map_state q_observed (q_next env k (queue_of g c)) \<and>
    NextFn env k g c \<noteq> OutOfFuel"
  using Next_eq_queue [OF assms] by simp

theorem Next_refines_queue_witness:
  "map_state observed (NextFn \<lparr>json = (\<lambda>_. None), xml = (\<lambda>_. None), sprintf = (\<lambda>f (_ :: nat list). f), has_logger = (\<lambda>_. True)\<rparr> 3
      [Some \<lparr>HandleFunc = Next Return, BluePrint = 0 :: nat\<rparr>, None] idle_ctx) =
    Panicked NilDeref (observed idle_ctx)"
proof -
  let ?g = "[Some \<lparr>HandleFunc = Next Return :: nat handler, BluePrint = 0 :: nat\<rparr>, None]"
  have "disciplined 1 ?g" "index idle_ctx = 0" "length ?g < 3"
    by (simp_all add: disciplined_def idle_ctx_def)
  from Next_refines_queue [OF this, of "\<lparr>json = (\<lambda>_. None), xml = (\<lambda>_. None), sprintf = (\<lambda>f _. f), has_logger = (\<lambda>_. True)\<rparr>"]
  show ?thesis
    by (simp add: queue_of_def eval_nat_numeral q_observed_def observed_def idle_ctx_def IsAborted_def)
qed

section \<open>The order of middleware\<close>

text \<open>A middleware that writes before and after it calls \<open>Next\<close>, and a handler that aborts.\<close>

definition around :: "string \<Rightarrow> string \<Rightarrow> 'v handler" where
  "around a z = Call (Write a) (\<lambda>_. Next (Call (Write z) (\<lambda>_. Return)))"

definition aborting :: "string \<Rightarrow> 'v handler" where
  "aborting a = Call (Write a) (\<lambda>_. Abort Return)"

definition around_node :: "'b \<Rightarrow> string \<times> string \<Rightarrow> ('v, 'b) handleFuncNode option" where
  "around_node b x = Some \<lparr>HandleFunc = around (fst x) (snd x), BluePrint = b\<rparr>"

text \<open>A plain writer whose body is unlimited: every write is accepted.\<close>

definition body_ok :: "response \<Rightarrow> bool" where
  "body_ok r \<longleftrightarrow> layers r = [] \<and> declared_length (hdr r) = None \<and>
     (case sent r of None \<Rightarrow> True | Some (code, h) \<Rightarrow> bodyAllowedForStatus code \<and> declared_length h = None)"

lemma body_ok_200: "bodyAllowedForStatus 200"
  by (simp add: bodyAllowedForStatus_def)

lemma write_out_ok:
  assumes "body_ok r"
  shows "\<exists>r'. write_out d r = Done None r' \<and> body_ok r' \<and> out r' = out r @ d"
proof -
  have "\<exists>r'. write_body d r = (None, r') \<and> out r' = out r @ d \<and> layers r' = [] \<and>
      hdr r' = hdr r \<and> sent r' = Some (case sent r of None \<Rightarrow> (200, hdr r) | Some x \<Rightarrow> x)"
    by (rule write_body_plain) (use assms in \<open>auto simp: body_ok_def split: option.splits\<close>)
  then show ?thesis
    using assms body_ok_200 by (auto simp: write_out_def body_ok_def split: option.splits)
qed

lemma Write_ok:
  assumes "body_ok (writer c)"
  obtains w where "run_call env bp (Write d) c = Done None (c\<lparr>writer := w\<rparr>)" and "body_ok w"
    and "out w = out (writer c) @ d"
proof -
  from write_out_ok [OF assms, of d] obtain w where "write_out d (writer c) = Done None w"
    "body_ok w" "out w = out (writer c) @ d" by blast
  with that show ?thesis by simp
qed

text \<open>The state at the end of a run of the queue: nothing is left to start.\<close>

definition finished :: "('v, 'b) qstate \<Rightarrow> string \<Rightarrow> bool" where
  "finished s o' \<longleftrightarrow> (q_aborted s \<or> pending s = []) \<and> body_ok (writer (q_shared s)) \<and>
     out (writer (q_shared s)) = o'"

lemma q_next_finished: "finished s x \<Longrightarrow> q_next env (Suc k) s = Done () s"
  by (auto simp: finished_def)

lemma q_next_Some:
  "\<not> q_aborted s \<Longrightarrow> pending s = Some n # ns \<Longrightarrow>
   q_exec env (BluePrint n) (q_next env k) (HandleFunc n) (s\<lparr>pending := ns\<rparr>) = Done () s1 \<Longrightarrow>
   q_next env (Suc k) s = q_next env k s1"
  by simp

lemma q_next_around:
  assumes rest: "\<And>k s. 0 < k \<Longrightarrow> \<not> q_aborted s \<Longrightarrow> pending s = rest \<Longrightarrow> body_ok (writer (q_shared s)) \<Longrightarrow>
      \<exists>s'. q_next env (k + length rest) s = Done () s' \<and> finished s' (out (writer (q_shared s)) @ z)"
  shows "0 < k \<Longrightarrow> \<not> q_aborted s \<Longrightarrow> pending s = map (around_node b) xs @ rest \<Longrightarrow>
    body_ok (writer (q_shared s)) \<Longrightarrow>
    \<exists>s'. q_next env (k + length xs + length rest) s = Done () s' \<and>
      finished s' (out (writer (q_shared s)) @ concat (map fst xs) @ z @ concat (rev (map snd xs)))"
proof (induction xs arbitrary: s)
  case Nil
  with rest [of k s] show ?case by simp
next
  case (Cons x xs)
  let ?k = "k + length xs + length rest" and ?tl = "map (around_node b) xs @ rest"
  obtain w where w: "run_call env (Inr b) (Write (fst x)) (q_shared s) = Done None ((q_shared s)\<lparr>writer := w\<rparr>)"
    "body_ok w" "out w = out (writer (q_shared s)) @ fst x"
    using Write_ok [OF Cons.prems(4)] by metis
  let ?s1 = "s\<lparr>pending := ?tl, q_shared := (q_shared s)\<lparr>writer := w\<rparr>\<rparr>"
  obtain s2 where s2: "q_next env ?k ?s1 = Done () s2"
    "finished s2 (out w @ concat (map fst xs) @ z @ concat (rev (map snd xs)))"
    using Cons.IH [of ?s1] Cons.prems w(2) by auto
  then have "body_ok (writer (q_shared s2))" by (simp add: finished_def)
  then obtain w' where w': "run_call env (Inr b) (Write (snd x)) (q_shared s2) =
      Done None ((q_shared s2)\<lparr>writer := w'\<rparr>)"
    "body_ok w'" "out w' = out (writer (q_shared s2)) @ snd x"
    using Write_ok by metis
  let ?s3 = "s2\<lparr>q_shared := (q_shared s2)\<lparr>writer := w'\<rparr>\<rparr>"
  have fin: "finished ?s3 (out (writer (q_shared s)) @ concat (map fst (x # xs)) @ z @
      concat (rev (map snd (x # xs))))"
    using s2(2) w w' by (simp add: finished_def)
  have "q_exec env b (q_next env ?k) (around (fst x) (snd x)) (s\<lparr>pending := ?tl\<rparr>) = Done () ?s3"
    using w(1) w'(1) s2(1) by (simp add: around_def)
  moreover have "pending s = Some \<lparr>HandleFunc = around (fst x) (snd x), BluePrint = b\<rparr> # ?tl"
    using Cons.prems(3) by (simp add: around_node_def [of b x])
  ultimately have "q_next env (Suc ?k) s = q_next env ?k ?s3"
    using q_next_Some [OF Cons.prems(2)] by fastforce
  moreover obtain j where "?k = Suc j" using Cons.prems(1) by (cases ?k) auto
  ultimately have "q_next env (Suc ?k) s = Done () ?s3"
    using q_next_finished [OF fin] by (simp del: q_next.simps)
  with fin show ?case by auto
qed

lemma q_next_empty:
  "0 < k \<Longrightarrow> pending s = [] \<Longrightarrow> body_ok (writer (q_shared s)) \<Longrightarrow>
   \<exists>s'. q_next env (k + length []) s = Done () s' \<and> finished s' (out (writer (q_shared s)) @ [])"
  by (cases k) (auto simp: finished_def)

lemma q_next_aborting:
  assumes "0 < k" and "\<not> q_aborted s"
    and "pending s = Some \<lparr>HandleFunc = aborting a, BluePrint = b\<rparr> # rest"
    and "body_ok (writer (q_shared s))"
  shows "\<exists>s'. q_next env (k + length (pending s)) s = Done () s' \<and> finished s' (out (writer (q_shared s)) @ a)"
proof -
  obtain w where w: "run_call env (Inr b) (Write a) (q_shared s) = Done None ((q_shared s)\<lparr>writer := w\<rparr>)"
    "body_ok w" "out w = out (writer (q_shared s)) @ a"
    using Write_ok [OF assms(4)] by metis
  let ?s = "s\<lparr>pending := rest, q_shared := (q_shared s)\<lparr>writer := w\<rparr>, q_aborted := True\<rparr>"
  have fin: "finished ?s (out (writer (q_shared s)) @ a)" using w by (simp add: finished_def)
  obtain j where j: "k + length rest = Suc j" using assms(1) by (cases k) auto
  have "q_next env (Suc (k + length rest)) s = q_next env (k + length rest) ?s"
    using assms(2,3) w(1) by (simp add: aborting_def)
  also have "\<dots> = Done () ?s" using q_next_finished [OF fin] j by simp
  finally show ?thesis using fin assms(3) by auto
qed

text \<open>The body that a run of \<open>Next\<close> leaves, read off the queue.\<close>

definition body_after :: "(unit, 'v ctx) outcome \<Rightarrow> string option" where
  "body_after r = (case r of Done _ c \<Rightarrow> Some (out (writer (shared c))) | _ \<Rightarrow> None)"

lemma body_after_observed:
  assumes "map_state observed r = map_state q_observed r'" and "r' = Done () s" and "finished s x"
  shows "body_after r = Some x"
  using assms by (cases r) (auto simp: body_after_def observed_def q_observed_def finished_def)

lemma within_around [simp]: "within (Suc 0) f (around a z)" "within (Suc 0) f (aborting a)"
  by (simp_all add: around_def aborting_def)

text \<open>C25: middleware nests like the layers of an onion: up to 127 handlers that each write before
  and after their call of \<open>Next\<close> produce the first parts in the order of the group and then the
  second parts in the opposite order.\<close>

theorem middleware_order:
  assumes "length xs \<le> 127" and "index c = 0" and "abortIndex c = 0" and "body_ok (writer (shared c))"
    and "length xs < k"
  shows "body_after (NextFn env k (map (around_node b) xs) c) =
    Some (out (writer (shared c)) @ concat (map fst xs) @ concat (rev (map snd xs)))"
proof -
  let ?g = "map (around_node b) xs"
  have d: "disciplined 1 ?g" using assms(1) by (auto simp: disciplined_def around_node_def)
  let ?s = "queue_of ?g c"
  have s: "\<not> q_aborted ?s" "pending ?s = map (around_node b) xs @ []" "body_ok (writer (q_shared ?s))"
    and o: "out (writer (q_shared ?s)) = out (writer (shared c))"
    using assms by (simp_all add: queue_of_def IsAborted_def)
  have k: "0 < k - length xs" "k - length xs + length xs = k" using assms(5) by simp_all
  from q_next_around [OF q_next_empty k(1) s, of env]
  obtain s' where "q_next env k ?s = Done () s'"
    and "finished s' (out (writer (shared c)) @ concat (map fst xs) @ concat (rev (map snd xs)))"
    unfolding o by (simp only: k(2) list.size add_0_right append_Nil) blast
  from body_after_observed [OF Next_eq_queue(1) [OF d assms(2)] this] show ?thesis
    using assms(5) by simp
qed

theorem middleware_order_witness:
  "body_after (NextFn \<lparr>json = (\<lambda>_. None), xml = (\<lambda>_. None), sprintf = (\<lambda>f (_ :: nat list). f), has_logger = (\<lambda>_. True)\<rparr> 9
      (map (around_node (0 :: nat)) [(''a'', ''z''), (''b'', ''y'')])
      idle_ctx) =
    Some ''abyz''"
  by (subst middleware_order) (simp_all add: body_ok_def new_response_def idle_ctx_def)

text \<open>C26: once a handler has aborted, no handler after it starts: the body is the one that the
  middleware before it and the handler itself write, whatever the rest of the group is, and the
  middleware still runs what comes after its call of \<open>Next\<close>.  The group has at most 127 handlers, each of which
  calls \<open>Next\<close> at most once and looks up no blueprint after it (\<open>disciplined\<close>).\<close>

theorem abort_stops_group:
  fixes c :: "'v ctx" and b :: 'b
  assumes "disciplined 1 (map (around_node b) xs @ Some \<lparr>HandleFunc = aborting a, BluePrint = b'\<rparr> # rest)"
    and "index c = 0" and "abortIndex c = 0" and "body_ok (writer (shared c))"
    and "Suc (length xs + length rest) < k"
  shows "body_after (NextFn env k
      (map (around_node b) xs @ Some \<lparr>HandleFunc = aborting a, BluePrint = b'\<rparr> # rest) c) =
    Some (out (writer (shared c)) @ concat (map fst xs) @ a @ concat (rev (map snd xs)))"
proof -
  let ?r = "Some \<lparr>HandleFunc = aborting a, BluePrint = b'\<rparr> # rest"
  let ?g = "map (around_node b) xs @ ?r"
  let ?s = "queue_of ?g c" and ?k = "k - Suc (length xs + length rest)"
  have s: "\<not> q_aborted ?s" "pending ?s = map (around_node b) xs @ ?r" "body_ok (writer (q_shared ?s))"
    and o: "out (writer (q_shared ?s)) = out (writer (shared c))"
    using assms by (simp_all add: queue_of_def IsAborted_def)
  have k: "0 < ?k" "?k + length xs + length ?r = k" using assms(5) by simp_all
  have "\<exists>s'. q_next env (j + length ?r) s = Done () s' \<and> finished s' (out (writer (q_shared s)) @ a)"
    if "0 < j" "\<not> q_aborted s" "pending s = ?r" "body_ok (writer (q_shared s))" for j and s :: "('v, 'b) qstate"
    using q_next_aborting [OF that, of env] that(3) by simp
  from q_next_around [OF this k(1) s]
  obtain s' where "q_next env k ?s = Done () s'"
    and "finished s' (out (writer (shared c)) @ concat (map fst xs) @ a @ concat (rev (map snd xs)))"
    unfolding o k(2) by blast
  from body_after_observed [OF Next_eq_queue(1) [OF assms(1,2)] this] show ?thesis
    using assms(5) by simp
qed

theorem abort_stops_group_witness:
  "body_after (NextFn \<lparr>json = (\<lambda>_. None), xml = (\<lambda>_. None), sprintf = (\<lambda>f (_ :: nat list). f), has_logger = (\<lambda>_. True)\<rparr> 9
      (map (around_node (0 :: nat)) [(''a'', ''z'')] @
       Some \<lparr>HandleFunc = aborting ''!'', BluePrint = 0\<rparr> # [around_node 0 (''b'', ''y'')])
      idle_ctx) =
    Some ''a!z''"
  by (subst abort_stops_group)
    (simp_all add: body_ok_def new_response_def disciplined_def around_node_def idle_ctx_def)

section \<open>Where the index gives out\<close>

lemma next_loop_past:
  "next_loop env k g c = Done () c1 \<Longrightarrow> IsAborted c1 \<or> \<not> index c1 \<le> of_nat (length g)"
proof (induction k arbitrary: c)
  case (Suc k)
  then show ?case
    by (auto split: if_splits sum.splits outcome.splits)
qed simp

lemma past_out_of_range:
  assumes "\<not> i \<le> (of_nat (length g) :: 8 word)" and "length g \<le> 255"
  shows "node_at g (i - 1) = Inl IndexOutOfRange"
proof -
  have "unat (of_nat (length g) :: 8 word) = length g"
    using assms(2) by (simp add: unat_of_nat take_bit_eq_mod)
  then have "length g < unat i" using assms(1) by (simp add: word_le_nat_alt)
  moreover from this have "unat (i - 1) = unat i - 1" by (intro unat_pred) simp
  ultimately have "\<not> unat (i - 1) < length g" by linarith
  then show ?thesis by (simp add: node_at_def index_at_def)
qed

text \<open>After \<open>Next\<close> has returned in a context that is not aborted, the index is past the end of
  the group, so that a handler that looks up its blueprint then, as \<open>JSON\<close>, \<open>XML\<close>, \<open>Data\<close> and
  \<open>Logger\<close> do, panics with an index out of range.\<close>

theorem blueprint_after_Next:
  assumes "NextFn env k g c = Done () c1" and "\<not> IsAborted c1" and "length g \<le> 255"
  shows "current_blueprint g c1 = Inl IndexOutOfRange \<and>
    run_call env (current_blueprint g c1) (JSON v) (shared c1) = Panicked IndexOutOfRange (shared c1)"
proof -
  have "\<not> index c1 \<le> of_nat (length g)"
    using next_loop_past [of env k g _ c1] assms(1,2) by (auto simp: NextFn_def)
  from past_out_of_range [OF this assms(3)] show ?thesis
    by (simp add: current_blueprint_def with_blueprint_def)
qed

theorem blueprint_after_Next_witness:
  "\<exists>c1. NextFn \<lparr>json = (\<lambda>_. None), xml = (\<lambda>_. None), sprintf = (\<lambda>f (_ :: nat list). f), has_logger = (\<lambda>_. True)\<rparr> (Suc (Suc 0))
      [Some \<lparr>HandleFunc = Return, BluePrint = 0 :: nat\<rparr>] idle_ctx = Done () c1 \<and>
    current_blueprint [Some \<lparr>HandleFunc = Return :: nat handler, BluePrint = 0 :: nat\<rparr>] c1 = Inl IndexOutOfRange"
proof -
  have two: "\<not> (2 :: 8 word) \<le> 1" by (simp add: word_le_nat_alt)
  have n: "NextFn \<lparr>json = (\<lambda>_. None), xml = (\<lambda>_. None), sprintf = (\<lambda>f (_ :: nat list). f), has_logger = (\<lambda>_. True)\<rparr> (Suc (Suc 0))
      [Some \<lparr>HandleFunc = Return, BluePrint = 0 :: nat\<rparr>] idle_ctx = Done () (idle_ctx\<lparr>index := 2\<rparr>)"
    unfolding NextFn_def using two
    by (simp add: idle_ctx_def IsAborted_def node_at_def index_at_def word_le_nat_alt)
  show ?thesis
    using n blueprint_after_Next [OF n] by (simp add: idle_ctx_def IsAborted_def)
qed

lemma returning_loop:
  assumes g: "length g = 255" "\<And>n. n \<in> set g \<Longrightarrow> \<exists>m. n = Some m \<and> HandleFunc m = Return"
    and "abortIndex c = 0"
  shows "1 \<le> i \<Longrightarrow> i \<le> 255 \<Longrightarrow> 256 - i < k \<Longrightarrow>
    next_loop env k g (c\<lparr>index := of_nat i\<rparr>) = Panicked IndexOutOfRange (c\<lparr>index := 0\<rparr>)"
proof (induction k arbitrary: i)
  case (Suc k)
  have u: "unat (of_nat i :: 8 word) = i" using Suc.prems(2) by (simp add: unat_of_nat take_bit_eq_mod)
  have le: "(of_nat i :: 8 word) \<le> of_nat (length g)"
    using g(1) u Suc.prems(2) by (simp add: word_le_nat_alt)
  have "i - 1 < length g" using g(1) Suc.prems(1,2) by simp
  from g(2) [OF nth_mem [OF this]] obtain m where m: "g ! (i - 1) = Some m" "HandleFunc m = Return"
    by blast
  have "node_at g (of_nat i - 1) = Inr m"
    using u Suc.prems(1,2) m(1) g(1) by (simp add: node_at_def unat_pred index_at_def)
  then have step: "next_loop env (Suc k) g (c\<lparr>index := of_nat i\<rparr>) =
      next_loop env k g (c\<lparr>index := of_nat i + 1\<rparr>)"
    using le m(2) assms(3) by (simp add: IsAborted_def)
  show ?case
  proof (cases "i = 255")
    case False
    then show ?thesis using Suc.IH [of "Suc i"] Suc.prems unfolding step by (simp add: add.commute)
  next
    case True
    then have "(of_nat i :: 8 word) + 1 = 0" by simp
    moreover obtain k' where "k = Suc k'" using Suc.prems True by (cases k) auto
    ultimately show ?thesis
      unfolding step using g(1) assms(3) by (simp add: node_at_def index_at_def IsAborted_def unsigned_minus_1_eq_mask mask_eq_exp_minus_1)
  qed
qed simp

text \<open>C40: a group of 255 handlers that do nothing panics after the last of them: the index wraps to
  zero, which is not past the end, and \<open>group[index-1]\<close> is read at 255.\<close>

theorem group_of_255_panics:
  assumes "length g = 255" and "\<And>n. n \<in> set g \<Longrightarrow> \<exists>m. n = Some m \<and> HandleFunc m = Return"
    and "index c = 0" and "abortIndex c = 0" and "256 \<le> k"
  shows "NextFn env k g c = Panicked IndexOutOfRange (c\<lparr>index := 0\<rparr>)"
  using returning_loop [OF assms(1,2,4), of 1 k env] assms(3,5) by (simp add: NextFn_def)

theorem group_of_255_panics_witness:
  "NextFn \<lparr>json = (\<lambda>_. None), xml = (\<lambda>_. None), sprintf = (\<lambda>f (_ :: nat list). f), has_logger = (\<lambda>_. True)\<rparr> 256
      (replicate 255 (Some \<lparr>HandleFunc = Return, BluePrint = 0 :: nat\<rparr>)) idle_ctx =
    Panicked IndexOutOfRange (idle_ctx\<lparr>index := 0\<rparr>)"
  by (rule group_of_255_panics) (auto simp: idle_ctx_def)

text \<open>A group whose length is a multiple of 256 runs no handler at all, because its length is
  converted to \<open>uint8\<close>.\<close>

theorem group_of_256_skipped:
  assumes "256 dvd length g" and "index c = 0"
  shows "NextFn env (Suc k) g c = Done () (c\<lparr>index := 1\<rparr>)"
proof -
  have "(of_nat (length g) :: 8 word) = 0" using assms(1) by (simp add: word_of_nat_eq_0_iff)
  then show ?thesis using assms(2) by (simp add: NextFn_def)
qed


theorem group_of_256_skipped_witness:
  "NextFn \<lparr>json = (\<lambda>_. None), xml = (\<lambda>_. None), sprintf = (\<lambda>f (_ :: nat list). f), has_logger = (\<lambda>_. True)\<rparr> (Suc 0)
      (replicate 256 (None :: (nat, nat) handleFuncNode option)) idle_ctx = Done () (idle_ctx\<lparr>index := 1\<rparr>)"
  by (rule group_of_256_skipped) (simp_all add: idle_ctx_def)

end
