(* ===== verification/ContextResponse.thy ===== *)
theory ContextResponse
  imports ContextQueue
begin

text \<open>
  What holds of the response throughout a request: an invariant of the calls is an invariant of
  every handler and of the whole run, which is stated once as a locale; and what \<open>Render\<close> sends.
\<close>

section \<open>Invariants of the calls\<close>

fun holds_after :: "('s \<Rightarrow> bool) \<Rightarrow> ('a, 's) outcome \<Rightarrow> bool" where
  "holds_after P (Done _ s) = P s"
| "holds_after P (Panicked _ s) = P s"
| "holds_after P OutOfFuel = True"

locale call_invariant =
  fixes P :: "'v shared \<Rightarrow> bool" and env :: "('v, 'b) env"
  assumes call_keeps: "P s \<Longrightarrow> holds_after P (run_call env bp a s)"
    and finish_keeps: "P s \<Longrightarrow> finish s = Inr s' \<Longrightarrow> P s'"
begin

lemma exec_keeps:
  assumes "\<And>c. P (shared c) \<Longrightarrow> holds_after (\<lambda>c. P (shared c)) (nxt c)"
  shows "P (shared c) \<Longrightarrow> holds_after (\<lambda>c. P (shared c)) (exec env g nxt h c)"
proof (induction h arbitrary: c)
  case (Ask f)
  then show ?case using Ask.IH [OF rangeI] by simp
next
  case (Call a f)
  then show ?case
    using Call.IH [OF rangeI] call_keeps [OF Call.prems, of "current_blueprint g c" a]
    by (cases "run_call env (current_blueprint g c) a (shared c)") simp_all
next
  case (Next h)
  then show ?case using assms [OF Next.prems] by (cases "nxt c") simp_all
next
  case (NextRecover rec h)
  then show ?case using assms [OF NextRecover.prems] by (cases "nxt c") auto
qed simp_all

lemma next_loop_keeps:
  "P (shared c) \<Longrightarrow> holds_after (\<lambda>c. P (shared c)) (next_loop env k g c)"
proof (induction k arbitrary: c)
  case (Suc k)
  have nxt: "holds_after (\<lambda>c. P (shared c)) (next_loop env k g (c\<lparr>index := index c + 1\<rparr>))"
    if "P (shared c)" for c
    by (rule Suc.IH) (simp add: that)
  show ?case
  proof (cases "index c \<le> of_nat (length g) \<and> \<not> IsAborted c")
    case True
    show ?thesis
    proof (cases "node_at g (index c - 1)")
      case (Inr n)
      have "holds_after (\<lambda>c. P (shared c))
          (exec env g (\<lambda>c. next_loop env k g (c\<lparr>index := index c + 1\<rparr>)) (HandleFunc n) c)"
        by (rule exec_keeps [OF nxt]) (simp_all add: Suc.prems)
      then show ?thesis
        using True Inr nxt
        by (cases "exec env g (\<lambda>c. next_loop env k g (c\<lparr>index := index c + 1\<rparr>)) (HandleFunc n) c") simp_all
    qed (use True Suc.prems in simp)
  qed (use Suc.prems in auto)
qed simp

lemma start_keeps: "P (shared c) \<Longrightarrow> holds_after (\<lambda>c. P (shared c)) (start env k g c)"
proof -
  assume "P (shared c)"
  then have n: "holds_after (\<lambda>c. P (shared c)) (NextFn env k g c)"
    unfolding NextFn_def by (intro next_loop_keeps) simp
  then show ?thesis
    by (cases "NextFn env k g c")
      (auto simp: start_def finish_ctx_def rbind_eq_Inr finish_keeps split: sum.split)
qed

end

section \<open>The status line is written once\<close>

lemma holds_after_writer:
  "holds_after (\<lambda>r. sent r = Some x) o1 \<Longrightarrow>
   holds_after (\<lambda>c. sent (writer c) = Some x) (map_state (\<lambda>w. c\<lparr>writer := w\<rparr>) o1)"
  by (cases o1) simp_all

lemma Render_sent:
  assumes "\<And>r. sent r = Some x \<Longrightarrow> holds_after (\<lambda>r. sent r = Some x) (render r)"
    and "sent (writer c) = Some x"
  shows "holds_after (\<lambda>c. sent (writer c) = Some x) (Render render c)"
proof -
  have "holds_after (\<lambda>c. sent (writer c) = Some x) (map_state (\<lambda>w. c'\<lparr>writer := w\<rparr>) (render (writer c)))" for c'
    by (rule holds_after_writer [OF assms(1) [OF assms(2)]])
  then show ?thesis
    using assms(2) by (auto simp: Render_def Let_def sent_writeHeader)
qed

lemma write_out_sent: "sent r = Some x \<Longrightarrow> holds_after (\<lambda>r. sent r = Some x) (write_out d r)"
  by (auto simp: write_out_def dest: sent_write_body split: prod.split)

lemma run_op_sent: "sent r = Some x \<Longrightarrow> holds_after (\<lambda>r. sent r = Some x) (run_op p r)"
  by (cases p) (simp_all add: sent_writeHeader write_out_sent)

lemma run_ops_sent: "sent r = Some x \<Longrightarrow> holds_after (\<lambda>r. sent r = Some x) (run_ops ps r)"
proof (induction ps arbitrary: r)
  case (Cons p ps)
  then show ?case using run_op_sent [OF Cons.prems, of p] by (cases "run_op p r") simp_all
qed simp

lemma serve_sent: "sent r = Some x \<Longrightarrow> holds_after (\<lambda>r. sent r = Some x) (serve f req r)"
  by (simp add: serve_def run_ops_sent)

lemma encode_sent: "sent r = Some x \<Longrightarrow> holds_after (\<lambda>r. sent r = Some x) (encode ser v r)"
  by (auto simp: encode_def write_out_sent split: option.split sum.split)

lemma run_call_sent:
  assumes "sent (writer c) = Some x"
  shows "holds_after (\<lambda>c. sent (writer c) = Some x) (run_call env bp a c)"
proof (cases a)
  case (WriteHeader code)
  with sent_writeHeader [OF assms] assms show ?thesis by simp
next
  case (CloseGzip d)
  then show ?thesis using assms by (auto dest: sent_gzip_close split: prod.split)
qed (use assms in \<open>auto simp: set_value_def with_blueprint_def JsonRender_def XmlRender_def StringRender_def
    encode_sent write_out_sent serve_sent Let_def intro!: Render_sent holds_after_writer split: sum.split\<close>)

interpretation status_line: call_invariant "\<lambda>s. sent (writer s) = Some x" env for x env
proof
  show "holds_after (\<lambda>s. sent (writer s) = Some x) (run_call env bp a s)"
    if "sent (writer s) = Some x" for s bp a
    by (rule run_call_sent [OF that])
  show "sent (writer s') = Some x" if "sent (writer s) = Some x" "finish s = Inr s'" for s s'
    using that by (auto simp: finish_def sent_writeHeader split: if_splits)
qed

text \<open>So what the client has been sent of the status line and its headers stays the same, whatever the
  handlers of a request do afterwards.\<close>

lemma status_line_stays:
  "sent (writer (shared c)) = Some x \<Longrightarrow> holds_after (\<lambda>c. sent (writer (shared c)) = Some x) (start env k g c)"
  by (rule status_line.start_keeps)

section \<open>The status that is left at the end\<close>

text \<open>A group whose first handler aborts: none of the others runs.\<close>

lemma start_aborted:
  fixes c :: "'v ctx"
  assumes "index c = 0" and "abortIndex c = 0" and "length rest < 254" and "1 < k"
    and "\<And>nxt. exec env (Some n # rest) nxt (HandleFunc n) (c\<lparr>index := 1\<rparr>) =
      Done () (c\<lparr>index := 1, abortIndex := 1, shared := s\<rparr>)"
  shows "start env k (Some n # rest) c =
    (case finish s of Inl p \<Rightarrow> Panicked p (c\<lparr>index := 2, abortIndex := 1, shared := s\<rparr>)
     | Inr s1 \<Rightarrow> Done () (c\<lparr>index := 2, abortIndex := 1, shared := s1\<rparr>))"
proof -
  obtain k1 where k: "k = Suc (Suc k1)" using assms(4) by (metis One_nat_def Suc_lessE less_imp_Suc_add)
  have "length (Some n # rest) \<le> 254" using assms(3) by simp
  then have le: "(1 :: 8 word) \<le> of_nat (length (Some n # rest))" by (simp only: index_le_length) simp
  have "NextFn env k (Some n # rest) c = Done () (c\<lparr>index := 2, abortIndex := 1, shared := s\<rparr>)"
    using assms(1,2) le by (simp add: NextFn_def k assms(5) IsAborted_def node_at_def index_at_def del: of_nat_Suc list.size)
  then show ?thesis by (simp add: start_def finish_ctx_def split: sum.split)
qed

definition tried_then_abort :: "bool \<Rightarrow> 'v \<Rightarrow> 64 word \<Rightarrow> 'v handler" where
  "tried_then_abort fails v code =
     (if fails then Call (JSON v) (\<lambda>_. AbortWithStatus code Return) else AbortWithStatus code Return)"

text \<open>C27: the first handler of a request sets a status and aborts, possibly after a \<open>JSON\<close> whose encoder fails.
  On a context as the pool hands it out, before anything is sent, in a group of at most 254 handlers, none of
  the others runs, and \<open>finish\<close> sends the status with the headers set so far if it is not 0 and no rendering was
  tried; after the failed rendering the status is set and never sent, so that the client gets net/http's 200
  with an empty body.\<close>

theorem status_sent_at_end:
  fixes c :: "'v ctx"
  assumes "index c = 0" and "abortIndex c = 0" and "status (shared c) = 0" and "\<not> written (shared c)"
    and "sent (writer (shared c)) = None" and "length rest < 254" and "1 < k"
    and "json env b = Some enc" and "enc v = Inl err" and "code = 0 \<or> 200 \<le> sint code \<and> sint code \<le> 999"
  shows "\<exists>c'. start env k (Some \<lparr>HandleFunc = tried_then_abort fails v code, BluePrint = b\<rparr> # rest) c = Done () c' \<and>
    status (shared c') = code \<and> out (writer (shared c')) = out (writer (shared c)) \<and>
    sent (writer (shared c')) =
      (if fails \<or> code = 0 then None else Some (sint code, hdr (writer (shared c))))"
proof (cases fails)
  case True
  let ?w = "writeContentType ''application/json;charset=utf-8'' (writer (shared c))"
  have s: "start env k (Some \<lparr>HandleFunc = tried_then_abort fails v code, BluePrint = b\<rparr> # rest) c =
      (case finish ((shared c)\<lparr>written := True, writer := ?w, status := code\<rparr>) of
        Inl p \<Rightarrow> Panicked p (c\<lparr>index := 2, abortIndex := 1, shared := (shared c)\<lparr>written := True, writer := ?w, status := code\<rparr>\<rparr>)
      | Inr s1 \<Rightarrow> Done () (c\<lparr>index := 2, abortIndex := 1, shared := s1\<rparr>))"
    by (rule start_aborted [OF assms(1,2,6,7)])
      (use assms(3,8,9) True in \<open>simp add: tried_then_abort_def AbortWithStatus_def current_blueprint_def node_at_def index_at_def
        with_blueprint_def Render_def bodyAllowedForStatus_def Let_def JsonRender_def encode_def\<close>)
  then show ?thesis using True assms(5) by (simp add: finish_def writeContentType_def)
next
  case False
  have s: "start env k (Some \<lparr>HandleFunc = tried_then_abort fails v code, BluePrint = b\<rparr> # rest) c =
      (case finish ((shared c)\<lparr>status := code\<rparr>) of
        Inl p \<Rightarrow> Panicked p (c\<lparr>index := 2, abortIndex := 1, shared := (shared c)\<lparr>status := code\<rparr>\<rparr>)
      | Inr s1 \<Rightarrow> Done () (c\<lparr>index := 2, abortIndex := 1, shared := s1\<rparr>))"
    by (rule start_aborted [OF assms(1,2,6,7)]) (use False in \<open>simp add: tried_then_abort_def AbortWithStatus_def\<close>)
  have "\<not> informational (sint code)" if "200 \<le> sint code" using that by (simp add: informational_def)
  then show ?thesis
    using s False assms(4,5,10) writeHeader_sent [OF assms(5), of "sint code"] by (auto simp: finish_def)
qed

definition failing_env :: "(nat, nat) env" where
  "failing_env = \<lparr>json = (\<lambda>_. Some (\<lambda>_. Inl ''unsupported'')), xml = (\<lambda>_. None), sprintf = (\<lambda>f _. f),
     has_logger = (\<lambda>_. True)\<rparr>"

theorem status_sent_at_end_witness:
  "\<exists>c1 c2. start failing_env 2 [Some \<lparr>HandleFunc = tried_then_abort False 1 404, BluePrint = 0\<rparr>] idle_ctx = Done () c1 \<and>
     sent (writer (shared c1)) = Some (404, Map.empty) \<and>
     start failing_env 2 [Some \<lparr>HandleFunc = tried_then_abort True 1 500, BluePrint = 0\<rparr>] idle_ctx = Done () c2 \<and>
     sent (writer (shared c2)) = None"
proof -
  have i: "index idle_ctx = 0" "abortIndex idle_ctx = 0" "status (shared idle_ctx) = 0" "\<not> written (shared idle_ctx)"
    "sent (writer (shared idle_ctx)) = None" "hdr (writer (shared idle_ctx)) = Map.empty"
    by (simp_all add: idle_ctx_def new_response_def)
  have e: "json failing_env 0 = Some (\<lambda>_. Inl ''unsupported'')" by (simp add: failing_env_def)
  have code: "sint (404 :: 64 word) = 404" "sint (500 :: 64 word) = 500" by simp_all
  from status_sent_at_end [OF i(1-5) _ _ e refl, where rest = "[]" and k = 2 and fails = False and code = 404 and v = 1]
    status_sent_at_end [OF i(1-5) _ _ e refl, where rest = "[]" and k = 2 and fails = True and code = 500 and v = 1]
  show ?thesis by (auto simp: code i(6))
qed

section \<open>What Render sends\<close>

text \<open>C28: \<open>JSON\<close> on a plain response that has not started and declares no length. Without a status it sends 200 and the JSON content
  type with the body. With one, the status line goes out before the content type is set, so the client
  gets the headers as they were before the call.\<close>

theorem JSON_headers:
  assumes "sent (writer c) = None" and "body_ok (writer c)" and "json env b = Some enc"
    and "enc v = Inr bytes"
    and "status c \<noteq> 0 \<Longrightarrow> bodyAllowedForStatus (sint (status c)) \<and>
      100 \<le> sint (status c) \<and> sint (status c) \<le> 999"
  shows "\<exists>c'. run_call env (Inr b) (JSON v) c = Done None c' \<and> out (writer c') = out (writer c) @ bytes \<and>
    status c' = 0 \<and> written c' \<and>
    sent (writer c') = Some (if status c = 0
      then (200, (hdr (writer c))(''Content-Type'' \<mapsto> [''application/json;charset=utf-8'']))
      else (sint (status c), hdr (writer c)))"
proof -
  let ?json = "\<lambda>r. r\<lparr>hdr := (hdr r)(''Content-Type'' \<mapsto> [''application/json;charset=utf-8''])\<rparr>"
  have h: "header_set ''Content-Type'' ct (header_del ''Content-Type'' h) = h(''Content-Type'' \<mapsto> [ct])" for ct h
    by (simp add: header_set_def header_del_def canonical_content_type)
  have w: "\<exists>r'. JsonRender (Some enc) v r = Done None r' \<and> out r' = out r @ bytes \<and>
      sent r' = Some (case sent r of None \<Rightarrow> (200, hdr (?json r)) | Some x \<Rightarrow> x)" if "body_ok r" for r
  proof -
    have "\<exists>r'. write_body bytes (?json r) = (None, r') \<and> out r' = out (?json r) @ bytes \<and> layers r' = [] \<and>
        hdr r' = hdr (?json r) \<and> sent r' = Some (case sent (?json r) of None \<Rightarrow> (200, hdr (?json r)) | Some x \<Rightarrow> x)"
      by (rule write_body_plain) (use that in \<open>auto simp: body_ok_def split: option.splits\<close>)
    then show ?thesis
      using assms(4) by (auto simp: JsonRender_def encode_def write_out_def writeContentType_def h)
  qed
  show ?thesis
  proof (cases "status c = 0")
    case True
    then show ?thesis
      using w [OF assms(2)] assms(1,3) by (auto simp: with_blueprint_def Render_def bodyAllowedForStatus_def Let_def)
  next
    case False
    with assms(5) have st: "bodyAllowedForStatus (sint (status c))" "100 \<le> sint (status c)"
      "sint (status c) \<le> 999" "\<not> informational (sint (status c))"
      by (auto simp: informational_def bodyAllowedForStatus_def split: if_splits)
    let ?r = "(writer c)\<lparr>sent := Some (sint (status c), hdr (writer c))\<rparr>"
    have "body_ok ?r" using assms(1,2) st(1) by (simp add: body_ok_def)
    from w [OF this] False assms(3) writeHeader_sent [OF assms(1) st(2-4)] show ?thesis
      by (auto simp: with_blueprint_def Render_def Let_def bodyAllowedForStatus_def [of 0])
  qed
qed

theorem JSON_headers_witness:
  "\<exists>c'. run_call \<lparr>json = (\<lambda>_ :: nat. Some (\<lambda>_. Inr ''1'')), xml = (\<lambda>_. None), sprintf = (\<lambda>f _. f), has_logger = (\<lambda>_. True)\<rparr>
      (Inr 0) (JSON (1 :: nat)) ((shared idle_ctx)\<lparr>status := 201\<rparr>) = Done None c' \<and>
    sent (writer c') = Some (201, Map.empty)"
proof -
  have "sint (201 :: 64 word) = 201" by simp
  then show ?thesis
    using JSON_headers [of "(shared idle_ctx)\<lparr>status := 201\<rparr>"
        "\<lparr>json = (\<lambda>_ :: nat. Some (\<lambda>_. Inr ''1'')), xml = (\<lambda>_. None), sprintf = (\<lambda>f _. f), has_logger = (\<lambda>_. True)\<rparr>" 0 "\<lambda>_. Inr ''1''" 1 "''1''"]
    by (auto simp: idle_ctx_def new_response_def bodyAllowedForStatus_def body_ok_def)
qed

end
