(* ===== verification/GoSlices.thy ===== *)
theory GoSlices
  imports Prelude
begin

text \<open>
  Go slices as the program uses them: a slice is a view of a backing array with a length and a
  capacity, and \<open>append\<close> writes into the array of its first argument when the capacity suffices,
  so that two slices grown from the same one share the new elements' places.  By how much a new
  array is larger than needed is up to the run-time; it is the parameter \<open>grow\<close>, of which the
  language promises only that the elements fit.
\<close>

record slice =
  arr :: nat
  len :: nat
  cap :: nat

definition nil_slice :: slice where
  "nil_slice = \<lparr>arr = 0, len = 0, cap = 0\<rparr>"

text \<open>The arrays, by number; an element that was never written is the zero value \<open>None\<close>.\<close>

type_synonym 'h arrays = "'h option list list"

definition contents :: "'h arrays \<Rightarrow> slice \<Rightarrow> 'h option list" where
  "contents m s = (if cap s = 0 then [] else take (len s) (m ! arr s))"

definition slice_ok :: "'h arrays \<Rightarrow> slice \<Rightarrow> bool" where
  "slice_ok m s \<longleftrightarrow> len s \<le> cap s \<and> (0 < cap s \<longrightarrow> arr s < length m \<and> length (m ! arr s) = cap s)"

definition grows :: "(nat \<Rightarrow> nat \<Rightarrow> nat) \<Rightarrow> bool" where
  "grows grow \<longleftrightarrow> (\<forall>c n. n \<le> grow c n)"

text \<open>\<open>append(s, xs...)\<close>.\<close>

definition slice_append ::
  "(nat \<Rightarrow> nat \<Rightarrow> nat) \<Rightarrow> slice \<Rightarrow> 'h option list \<Rightarrow> 'h arrays \<Rightarrow> slice \<times> 'h arrays" where
  "slice_append grow s xs m =
     (let n = len s + length xs in
      if xs = [] then (s, m)
      else if n \<le> cap s then
        (s\<lparr>len := n\<rparr>, m[arr s := take (len s) (m ! arr s) @ xs @ drop n (m ! arr s)])
      else let c = grow (cap s) n in
        (\<lparr>arr = length m, len = n, cap = c\<rparr>, m @ [contents m s @ xs @ replicate (c - n) None]))"

lemma nil_slice_ok [simp]: "slice_ok m nil_slice" "contents m nil_slice = []"
  by (simp_all add: slice_ok_def nil_slice_def contents_def)

lemma slice_append_Nil [simp]: "slice_append grow s [] m = (s, m)"
  by (simp add: slice_append_def)

text \<open>The result holds the old elements and then the new ones, whether or not an array is shared.\<close>

lemma slice_append_contents:
  assumes "slice_ok m s" and "slice_append grow s xs m = (s', m')" and "grows grow"
  shows "contents m' s' = contents m s @ xs" and "slice_ok m' s'"
proof -
  have "contents m' s' = contents m s @ xs \<and> slice_ok m' s'"
  proof (cases "xs = []")
    case True
    with assms show ?thesis by simp
  next
    case xs: False
    show ?thesis
    proof (cases "len s + length xs \<le> cap s")
      case True
      with xs have "0 < cap s" by (cases xs) auto
      with True xs assms(1,2) show ?thesis
        by (auto simp: slice_append_def contents_def slice_ok_def Let_def)
    next
      case False
      have "length (contents m s) = len s"
        using assms(1) by (auto simp: contents_def slice_ok_def)
      moreover have le: "len s + length xs \<le> grow (cap s) (len s + length xs)"
        using assms(3) by (simp add: grows_def)
      moreover have "0 < grow (cap s) (len s + length xs)"
        using xs le by (cases xs) auto
      moreover have "s' = \<lparr>arr = length m, len = len s + length xs, cap = grow (cap s) (len s + length xs)\<rparr>"
        and "m' = m @ [contents m s @ xs @ replicate (grow (cap s) (len s + length xs) - (len s + length xs)) None]"
        using False xs assms(2) by (simp_all add: slice_append_def Let_def)
      ultimately show ?thesis by (simp add: slice_ok_def contents_def [of "_ @ _"])
    qed
  qed
  then show "contents m' s' = contents m s @ xs" "slice_ok m' s'" by simp_all
qed

text \<open>Without spare capacity an \<open>append\<close> leaves every slice there is as it was.\<close>

lemma slice_append_full:
  assumes "slice_append grow s xs m = (s', m')" and "cap s \<le> len s" and "slice_ok m t"
  shows "contents m' t = contents m t" and "slice_ok m' t"
  using assms
  by (cases xs; auto simp: slice_append_def contents_def slice_ok_def nth_append Let_def split: if_splits)+

text \<open>With spare capacity a second \<open>append\<close> to the same slice replaces what the first one added.\<close>

lemma slice_append_twice:
  assumes "slice_ok m s" and "len s + length xs \<le> cap s" and "length ys = length xs" and "xs \<noteq> []"
    and "slice_append grow s xs m = (s1, m1)" and "slice_append grow s ys m1 = (s2, m2)"
  shows "contents m2 s1 = contents m s @ ys"
proof -
  have c: "0 < cap s" "arr s < length m" "length (m ! arr s) = cap s"
    using assms(1,2,4) by (cases xs; auto simp: slice_ok_def)+
  have "ys \<noteq> []" using assms(3,4) by auto
  with assms(2-6) have "s1 = s\<lparr>len := len s + length xs\<rparr>"
    and "m1 = m[arr s := take (len s) (m ! arr s) @ xs @ drop (len s + length xs) (m ! arr s)]"
    and "m2 = m1[arr s := take (len s) (m1 ! arr s) @ ys @ drop (len s + length xs) (m1 ! arr s)]"
    by (simp_all add: slice_append_def Let_def)
  with c assms(2,3) show ?thesis by (simp add: contents_def)
qed

end
