(* ===== verification/Blueprint.thy ===== *)
theory Blueprint
  imports GoSlices Http
begin

text \<open>
  The blueprints of \<open>core/blue_print.go\<close>: routes with a prefix and middleware, inclusion of one
  blueprint in another, and the services that a blueprint takes from its parent when it has none
  of its own.  Blueprints point to one another, so they live in a store and are named by their
  numbers; the slices of handlers live in the arrays of the same state, because \<open>Handle\<close> grows
  \<open>b.middleware\<close> by \<open>append\<close> for every route.
\<close>

section \<open>State\<close>

record handleNode =
  node_path :: string
  handles :: slice
  blueprint :: nat

text \<open>A service is an opaque value; \<open>None\<close> is the nil interface.\<close>

record 's blueprint =
  Name :: string
  fileStorage :: "'s option"
  parsers :: "'s option"
  validator :: "'s option"
  logger :: "'s option"
  xmlSerializer :: "'s option"
  jsonSerializer :: "'s option"
  parent :: "nat option"
  methodsTree :: "string \<rightharpoonup> handleNode list"
  middleware :: slice
  bp_prefix :: string

record ('s, 'h) world =
  blueprints :: "'s blueprint list"
  arrays :: "'h arrays"

definition NewBluePrint :: "'s blueprint" where
  "NewBluePrint = \<lparr>Name = [], fileStorage = None, parsers = None, validator = None, logger = None,
     xmlSerializer = None, jsonSerializer = None, parent = None, methodsTree = Map.empty,
     middleware = nil_slice, bp_prefix = []\<rparr>"

definition bp :: "('s, 'h) world \<Rightarrow> nat \<Rightarrow> 's blueprint" where
  "bp w b = blueprints w ! b"

definition upd_bp :: "nat \<Rightarrow> ('s blueprint \<Rightarrow> 's blueprint) \<Rightarrow> ('s, 'h) world \<Rightarrow> ('s, 'h) world" where
  "upd_bp b f w = w\<lparr>blueprints := (blueprints w)[b := f (bp w b)]\<rparr>"

definition nodes_of :: "('s, 'h) world \<Rightarrow> nat \<Rightarrow> string \<Rightarrow> handleNode list" where
  "nodes_of w b m = (case methodsTree (bp w b) m of None \<Rightarrow> [] | Some ns \<Rightarrow> ns)"

section \<open>Registration\<close>

text \<open>The methods of \<open>core/http.go\<close>.\<close>

definition httpMethods :: "string list" where
  "httpMethods = [''GET'', ''POST'', ''PUT'', ''PATCH'', ''DELETE'', ''OPTIONS'', ''HEAD'', ''TRACE'']"

definition ALLMethod :: string where
  "ALLMethod = ''*''"

definition ToUpper :: "string \<Rightarrow> string" where
  "ToUpper s = map to_upper s"

definition Use :: "(nat \<Rightarrow> nat \<Rightarrow> nat) \<Rightarrow> nat \<Rightarrow> 'h list \<Rightarrow> ('s, 'h) world \<Rightarrow> ('s, 'h) world" where
  "Use grow b mws w =
     (let (s, m) = slice_append grow (middleware (bp w b)) (map Some mws) (arrays w)
      in upd_bp b (\<lambda>x. x\<lparr>middleware := s\<rparr>) (w\<lparr>arrays := m\<rparr>))"

definition SetPrefix :: "nat \<Rightarrow> string \<Rightarrow> ('s, 'h) world \<Rightarrow> ('s, 'h) world" where
  "SetPrefix b p = upd_bp b (\<lambda>x. x\<lparr>bp_prefix := p\<rparr>)"

definition add_node :: "nat \<Rightarrow> handleNode \<Rightarrow> string \<Rightarrow> ('s, 'h) world \<Rightarrow> ('s, 'h) world" where
  "add_node b node mt w =
     (let m = ToUpper mt
      in upd_bp b (\<lambda>x. x\<lparr>methodsTree := (methodsTree x)(m \<mapsto> nodes_of w b m @ [node])\<rparr>) w)"

definition register :: "nat \<Rightarrow> string \<Rightarrow> handleNode \<Rightarrow> ('s, 'h) world \<Rightarrow> ('s, 'h) world" where
  "register b meth node w =
     fold (add_node b node) (if meth = ALLMethod then httpMethods else [meth]) w"

definition Handle ::
  "(nat \<Rightarrow> nat \<Rightarrow> nat) \<Rightarrow> nat \<Rightarrow> string \<Rightarrow> string \<Rightarrow> 'h list \<Rightarrow> ('s, 'h) world \<Rightarrow> ('s, 'h) world" where
  "Handle grow b meth path hs w =
     (let (s, m) = slice_append grow (middleware (bp w b)) (map Some hs) (arrays w)
      in register b meth \<lparr>node_path = bp_prefix (bp w b) @ path, handles = s, blueprint = b\<rparr>
           (w\<lparr>arrays := m\<rparr>))"

definition GET :: "(nat \<Rightarrow> nat \<Rightarrow> nat) \<Rightarrow> nat \<Rightarrow> string \<Rightarrow> 'h list \<Rightarrow> ('s, 'h) world \<Rightarrow> ('s, 'h) world" where
  "GET grow b = Handle grow b ''GET''"

definition POST :: "(nat \<Rightarrow> nat \<Rightarrow> nat) \<Rightarrow> nat \<Rightarrow> string \<Rightarrow> 'h list \<Rightarrow> ('s, 'h) world \<Rightarrow> ('s, 'h) world" where
  "POST grow b = Handle grow b ''POST''"

definition PUT :: "(nat \<Rightarrow> nat \<Rightarrow> nat) \<Rightarrow> nat \<Rightarrow> string \<Rightarrow> 'h list \<Rightarrow> ('s, 'h) world \<Rightarrow> ('s, 'h) world" where
  "PUT grow b = Handle grow b ''PUT''"

definition PATCH :: "(nat \<Rightarrow> nat \<Rightarrow> nat) \<Rightarrow> nat \<Rightarrow> string \<Rightarrow> 'h list \<Rightarrow> ('s, 'h) world \<Rightarrow> ('s, 'h) world" where
  "PATCH grow b = Handle grow b ''PATCH''"

definition DELETE :: "(nat \<Rightarrow> nat \<Rightarrow> nat) \<Rightarrow> nat \<Rightarrow> string \<Rightarrow> 'h list \<Rightarrow> ('s, 'h) world \<Rightarrow> ('s, 'h) world" where
  "DELETE grow b = Handle grow b ''DELETE''"

definition HEAD :: "(nat \<Rightarrow> nat \<Rightarrow> nat) \<Rightarrow> nat \<Rightarrow> string \<Rightarrow> 'h list \<Rightarrow> ('s, 'h) world \<Rightarrow> ('s, 'h) world" where
  "HEAD grow b = Handle grow b ''HEAD''"

definition OPTIONS :: "(nat \<Rightarrow> nat \<Rightarrow> nat) \<Rightarrow> nat \<Rightarrow> string \<Rightarrow> 'h list \<Rightarrow> ('s, 'h) world \<Rightarrow> ('s, 'h) world" where
  "OPTIONS grow b = Handle grow b ''OPTIONS''"

definition ANY :: "(nat \<Rightarrow> nat \<Rightarrow> nat) \<Rightarrow> nat \<Rightarrow> string \<Rightarrow> 'h list \<Rightarrow> ('s, 'h) world \<Rightarrow> ('s, 'h) world" where
  "ANY grow b path hs w = fold (\<lambda>meth. Handle grow b meth path hs) httpMethods w"

text \<open>
  \<open>Include\<close> ranges over a map, whose order Go leaves open: \<open>order\<close> lists the methods of the
  branch in the order of the iteration.
\<close>

definition include_node :: "nat \<Rightarrow> nat \<Rightarrow> string \<Rightarrow> string \<Rightarrow> handleNode \<Rightarrow> ('s, 'h) world \<Rightarrow> ('s, 'h) world" where
  "include_node b branch pre meth node =
     register b meth \<lparr>node_path = pre @ node_path node, handles = handles node, blueprint = branch\<rparr>"

definition include_methods :: "string list \<Rightarrow> nat \<Rightarrow> string \<Rightarrow> nat \<Rightarrow> ('s, 'h) world \<Rightarrow> ('s, 'h) world" where
  "include_methods order b pre branch w =
     fold (\<lambda>meth w. fold (include_node b branch pre meth) (nodes_of w branch meth) w) order w"

definition Include :: "string list \<Rightarrow> nat \<Rightarrow> string \<Rightarrow> nat \<Rightarrow> ('s, 'h) world \<Rightarrow> ('s, 'h) world" where
  "Include order b pre branch w =
     include_methods order b pre branch (upd_bp branch (\<lambda>x. x\<lparr>parent := Some b\<rparr>) w)"

text \<open>
  \<open>Static\<close>: the file handler is passed as a value; the path that is registered ends in
  \<open>*static\<close>, after a slash only if \<open>url\<close> ends in both \<open>static\<close> and a slash, which it never does.
\<close>

definition static_path :: "string \<Rightarrow> string" where
  "static_path url =
     (if suffix ''static'' url \<and> suffix ''/'' url then url @ ''/'' else url) @ ''*static''"

definition StaticFiles ::
  "(nat \<Rightarrow> nat \<Rightarrow> nat) \<Rightarrow> nat \<Rightarrow> string \<Rightarrow> 'h \<Rightarrow> 'h list \<Rightarrow> ('s, 'h) world \<Rightarrow> ('s, 'h) world res" where
  "StaticFiles grow b url fileHandle mws w =
     (if CHR ''*'' \<in> set url then Inl (PanicMsg ''`url` should not have wildcards'')
      else Inr (Handle grow b ''GET'' (static_path url) (mws @ [fileHandle]) w))"

section \<open>Services\<close>

text \<open>
  The six getters (\<open>XMLSerializer\<close>, \<open>JSONSerializer\<close>, \<open>FileStorage\<close>, \<open>Parsers\<close>, \<open>Validator\<close>,
  \<open>Logger\<close>) have one body: the blueprint's own service, or else what its parent's getter returns.
  A cycle of parents makes the recursion endless; that is the outer \<open>None\<close>.
\<close>

partial_function (option) service ::
  "('s blueprint \<Rightarrow> 's option) \<Rightarrow> ('s, 'h) world \<Rightarrow> nat \<Rightarrow> 's option option" where
  "service field w b =
     (case field (bp w b) of
        Some s \<Rightarrow> Some (Some s)
      | None \<Rightarrow> (case parent (bp w b) of None \<Rightarrow> Some None | Some p \<Rightarrow> service field w p))"

definition IsRoot :: "('s, 'h) world \<Rightarrow> nat \<Rightarrow> bool" where
  "IsRoot w b \<longleftrightarrow> parent (bp w b) = None"

definition XMLSerializer :: "('s, 'h) world \<Rightarrow> nat \<Rightarrow> 's option option" where
  "XMLSerializer = service xmlSerializer"

definition JSONSerializer :: "('s, 'h) world \<Rightarrow> nat \<Rightarrow> 's option option" where
  "JSONSerializer = service jsonSerializer"

definition FileStorage :: "('s, 'h) world \<Rightarrow> nat \<Rightarrow> 's option option" where
  "FileStorage = service fileStorage"

definition Parsers :: "('s, 'h) world \<Rightarrow> nat \<Rightarrow> 's option option" where
  "Parsers = service parsers"

definition Validator :: "('s, 'h) world \<Rightarrow> nat \<Rightarrow> 's option option" where
  "Validator = service validator"

definition Logger :: "('s, 'h) world \<Rightarrow> nat \<Rightarrow> 's option option" where
  "Logger = service logger"

text \<open>The setters panic on nil.\<close>

definition set_service ::
  "('s option \<Rightarrow> 's blueprint \<Rightarrow> 's blueprint) \<Rightarrow> string \<Rightarrow> nat \<Rightarrow> 's option \<Rightarrow> ('s, 'h) world \<Rightarrow>
   ('s, 'h) world res" where
  "set_service field what b s w =
     (if s = None then Inl (PanicMsg (what @ '' can not be nil'')) else Inr (upd_bp b (field s) w))"

definition SetXMLSerializer :: "nat \<Rightarrow> 's option \<Rightarrow> ('s, 'h) world \<Rightarrow> ('s, 'h) world res" where
  "SetXMLSerializer = set_service (\<lambda>s x. x\<lparr>xmlSerializer := s\<rparr>) ''xmlSerializer''"

definition SetJSONSerializer :: "nat \<Rightarrow> 's option \<Rightarrow> ('s, 'h) world \<Rightarrow> ('s, 'h) world res" where
  "SetJSONSerializer = set_service (\<lambda>s x. x\<lparr>jsonSerializer := s\<rparr>) ''jsonSerializer''"

definition SetFileStorage :: "nat \<Rightarrow> 's option \<Rightarrow> ('s, 'h) world \<Rightarrow> ('s, 'h) world res" where
  "SetFileStorage = set_service (\<lambda>s x. x\<lparr>fileStorage := s\<rparr>) ''store''"

definition SetParsers :: "nat \<Rightarrow> 's option \<Rightarrow> ('s, 'h) world \<Rightarrow> ('s, 'h) world res" where
  "SetParsers = set_service (\<lambda>s x. x\<lparr>parsers := s\<rparr>) ''parsers''"

definition SetValidator :: "nat \<Rightarrow> 's option \<Rightarrow> ('s, 'h) world \<Rightarrow> ('s, 'h) world res" where
  "SetValidator = set_service (\<lambda>s x. x\<lparr>validator := s\<rparr>) ''validator''"

definition SetLogger :: "nat \<Rightarrow> 's option \<Rightarrow> ('s, 'h) world \<Rightarrow> ('s, 'h) world res" where
  "SetLogger = set_service (\<lambda>s x. x\<lparr>logger := s\<rparr>) ''log''"

text \<open>\<open>detectIllegalMethod\<close>: a mapping is refused when a method, in upper case, is not in the list.\<close>

definition detectIllegalMethod :: "(string \<times> string) list \<Rightarrow> (string \<times> string) list res" where
  "detectIllegalMethod mapping =
     (case find (\<lambda>(h, m). ToUpper m \<notin> set httpMethods) mapping of
        Some (h, m) \<Rightarrow> Inl (PanicMsg (''invalid method'' @ m))
      | None \<Rightarrow> Inr mapping)"

end
