(* ===== verification/BlueprintFacts.thy ===== *)
theory BlueprintFacts
  imports Blueprint
begin

text \<open>
  What registration and inclusion leave in the route lists, when the handler chains that are
  stored there stay what they were, and the contract of the services, a locale that the six
  getters and setters share.
\<close>

section \<open>The route lists\<close>

lemma bp_upd [simp]:
  "b < length (blueprints w) \<Longrightarrow> bp (upd_bp b f w) b' = (if b' = b then f (bp w b) else bp w b')"
  by (simp add: bp_def upd_bp_def)

lemma upd_bp_simps [simp]:
  "length (blueprints (upd_bp b f w)) = length (blueprints w)" "arrays (upd_bp b f w) = arrays w"
  by (simp_all add: upd_bp_def)

lemma bp_arrays [simp]: "bp (w\<lparr>arrays := m\<rparr>) = bp w" "nodes_of (w\<lparr>arrays := m\<rparr>) = nodes_of w"
  by (simp_all add: bp_def nodes_of_def fun_eq_iff)

definition methods_of :: "string \<Rightarrow> string list" where
  "methods_of meth = (if meth = ALLMethod then httpMethods else [ToUpper meth])"

lemma httpMethods_facts: "distinct httpMethods" "map ToUpper httpMethods = httpMethods"
  by code_simp+

lemma add_node_simps [simp]:
  "length (blueprints (add_node b node mt w)) = length (blueprints w)"
  "arrays (add_node b node mt w) = arrays w"
  by (simp_all add: add_node_def Let_def)

lemma add_node_frame:
  assumes "b < length (blueprints w)"
  shows "parent (bp (add_node b node mt w) b') = parent (bp w b')"
    and "middleware (bp (add_node b node mt w) b') = middleware (bp w b')"
    and "nodes_of (add_node b node mt w) b' m =
      nodes_of w b' m @ (if b' = b \<and> m = ToUpper mt then [node] else [])"
  using assms by (auto simp: add_node_def nodes_of_def Let_def)

lemma fold_add_node:
  assumes "b < length (blueprints w)"
  shows "length (blueprints (fold (add_node b node) ms w)) = length (blueprints w)"
    and "arrays (fold (add_node b node) ms w) = arrays w"
    and "parent (bp (fold (add_node b node) ms w) b') = parent (bp w b')"
    and "middleware (bp (fold (add_node b node) ms w) b') = middleware (bp w b')"
    and "distinct (map ToUpper ms) \<Longrightarrow> nodes_of (fold (add_node b node) ms w) b' m =
      nodes_of w b' m @ (if b' = b \<and> m \<in> set (map ToUpper ms) then [node] else [])"
  using assms by (induction ms arbitrary: w) (auto simp: add_node_frame)

lemma register_frame [simp]:
  assumes "b < length (blueprints w)"
  shows "length (blueprints (register b meth node w)) = length (blueprints w)"
    and "arrays (register b meth node w) = arrays w"
    and "parent (bp (register b meth node w) b') = parent (bp w b')"
    and "middleware (bp (register b meth node w) b') = middleware (bp w b')"
  using assms by (simp_all add: register_def fold_add_node)

lemma register_nodes:
  assumes "b < length (blueprints w)"
  shows "nodes_of (register b meth node w) b' m =
    nodes_of w b' m @ (if b' = b \<and> m \<in> set (methods_of meth) then [node] else [])"
proof -
  have "map ToUpper (if meth = ALLMethod then httpMethods else [meth]) = methods_of meth"
    by (simp add: methods_of_def httpMethods_facts)
  moreover have "distinct (methods_of meth)" by (simp add: methods_of_def httpMethods_facts)
  ultimately show ?thesis
    using fold_add_node(5) [OF assms, of "if meth = ALLMethod then httpMethods else [meth]"]
    unfolding register_def by presburger
qed

text \<open>Every handler chain in a list of routes is a slice of the arrays.\<close>

definition chains_ok :: "('s, 'h) world \<Rightarrow> bool" where
  "chains_ok w \<longleftrightarrow>
     (\<forall>b<length (blueprints w). \<forall>m. \<forall>n\<in>set (nodes_of w b m). slice_ok (arrays w) (handles n))"

definition chain_of :: "('s, 'h) world \<Rightarrow> handleNode \<Rightarrow> 'h option list" where
  "chain_of w n = contents (arrays w) (handles n)"

lemma Handle_node:
  assumes "b < length (blueprints w)" and "slice_ok (arrays w) (middleware (bp w b))" and "grows grow"
  shows "\<exists>node. node_path node = bp_prefix (bp w b) @ path \<and> blueprint node = b \<and>
    chain_of (Handle grow b meth path hs w) node =
      contents (arrays w) (middleware (bp w b)) @ map Some hs \<and>
    (\<forall>b' m. nodes_of (Handle grow b meth path hs w) b' m =
      nodes_of w b' m @ (if b' = b \<and> m \<in> set (methods_of meth) then [node] else []))"
proof -
  obtain s m where sm: "slice_append grow (middleware (bp w b)) (map Some hs) (arrays w) = (s, m)"
    by fastforce
  let ?n = "\<lparr>node_path = bp_prefix (bp w b) @ path, handles = s, blueprint = b\<rparr>"
  have H: "Handle grow b meth path hs w = register b meth ?n (w\<lparr>arrays := m\<rparr>)"
    by (simp add: Handle_def sm)
  have "chain_of (Handle grow b meth path hs w) ?n = contents (arrays w) (middleware (bp w b)) @ map Some hs"
    using slice_append_contents(1) [OF assms(2) sm assms(3)] assms(1) by (simp add: H chain_of_def)
  moreover have "nodes_of (Handle grow b meth path hs w) b' m =
      nodes_of w b' m @ (if b' = b \<and> m \<in> set (methods_of meth) then [?n] else [])" for b' m
    using assms(1) by (simp add: H register_nodes)
  ultimately show ?thesis by (intro exI [of _ ?n]) simp
qed

lemma Handle_keeps:
  assumes "b < length (blueprints w)" and "cap (middleware (bp w b)) \<le> len (middleware (bp w b))"
    and "slice_ok (arrays w) (handles n)"
  shows "chain_of (Handle grow b meth path hs w) n = chain_of w n"
proof -
  obtain s m where sm: "slice_append grow (middleware (bp w b)) (map Some hs) (arrays w) = (s, m)"
    by fastforce
  from slice_append_full(1) [OF sm assms(2,3)] assms(1) show ?thesis
    by (simp add: Handle_def sm chain_of_def)
qed

text \<open>
  A state to apply the properties to: a root with a serializer and one middleware in a slice with
  a spare place, and a branch of it with one route.
\<close>

definition sample_world :: "(nat, nat) world" where
  "sample_world = \<lparr>blueprints =
     [NewBluePrint\<lparr>jsonSerializer := Some 9, middleware := \<lparr>arr = 0, len = 1, cap = 2\<rparr>\<rparr>,
      NewBluePrint\<lparr>parent := Some 0,
        methodsTree := [''GET'' \<mapsto> [\<lparr>node_path = ''/x'', handles = nil_slice, blueprint = 1\<rparr>]]\<rparr>],
     arrays = [[Some 1, None]]\<rparr>"

lemma sample_world_simps:
  "length (blueprints sample_world) = 2" "middleware (bp sample_world 0) = \<lparr>arr = 0, len = 1, cap = 2\<rparr>"
  "arrays sample_world = [[Some 1, None]]" "bp_prefix (bp sample_world 0) = []"
  "nodes_of sample_world 0 m = []"
  "nodes_of sample_world (Suc 0) m =
    (if m = ''GET'' then [\<lparr>node_path = ''/x'', handles = nil_slice, blueprint = 1\<rparr>] else [])"
  "methodsTree (bp sample_world (Suc 0)) =
    [''GET'' \<mapsto> [\<lparr>node_path = ''/x'', handles = nil_slice, blueprint = 1\<rparr>]]"
  "jsonSerializer (bp sample_world 0) = Some 9" "jsonSerializer (bp sample_world (Suc 0)) = None"
  by (simp_all add: sample_world_def bp_def nodes_of_def NewBluePrint_def IsRoot_def)

lemma sample_method: "methods_of ''GET'' = [''GET'']" "''GET'' \<noteq> ALLMethod"
  by code_simp+

text \<open>C15: \<open>Handle\<close> adds one route, with the blueprint's prefix before the path, to the list of each
  method it names (of all eight for \<open>*\<close>) and to no other list; when it returns the route's chain is the
  middleware that the blueprint has at that time, followed by the given handlers; and when the
  middleware slice has no spare capacity every route that was there keeps its chain.\<close>

theorem Handle_registers:
  assumes "b < length (blueprints w)" and "slice_ok (arrays w) (middleware (bp w b))" and "grows grow"
    and "chains_ok w"
  shows "\<exists>node. node_path node = bp_prefix (bp w b) @ path \<and> blueprint node = b \<and>
    chain_of (Handle grow b meth path hs w) node =
      contents (arrays w) (middleware (bp w b)) @ map Some hs \<and>
    (\<forall>b' m. nodes_of (Handle grow b meth path hs w) b' m =
      nodes_of w b' m @ (if b' = b \<and> m \<in> set (methods_of meth) then [node] else [])) \<and>
    (cap (middleware (bp w b)) \<le> len (middleware (bp w b)) \<longrightarrow>
      (\<forall>b'<length (blueprints w). \<forall>m. \<forall>n\<in>set (nodes_of w b' m).
        chain_of (Handle grow b meth path hs w) n = chain_of w n))"
  using Handle_node [OF assms(1-3), of path meth hs] Handle_keeps [OF assms(1)] assms(4)
  unfolding chains_ok_def by blast

theorem Handle_registers_witness:
  "\<exists>node. nodes_of (Handle (\<lambda>c n. n) (Suc 0) ''GET'' ''/b'' [2] sample_world) (Suc 0) ''GET'' =
      [\<lparr>node_path = ''/x'', handles = nil_slice, blueprint = 1\<rparr>, node] \<and>
    chain_of (Handle (\<lambda>c n. n) (Suc 0) ''GET'' ''/b'' [2] sample_world) node = [Some 2]"
proof -
  have m: "middleware (bp sample_world (Suc 0)) = nil_slice"
    by (simp add: sample_world_def bp_def NewBluePrint_def)
  have ch: "chains_ok sample_world"
    by (auto simp: chains_ok_def sample_world_simps less_2_cases_iff split: if_splits)
  have "Suc 0 < length (blueprints sample_world)" "grows (\<lambda>c n. n)"
    by (simp_all add: sample_world_simps grows_def)
  from Handle_registers [OF this(1) _ this(2) ch, of "''/b''" "''GET''" "[2]"]
  show ?thesis unfolding m by (auto simp: sample_world_simps sample_method)
qed

text \<open>With spare capacity in the middleware slice the routes share its places: a second \<open>Handle\<close>
  with as many handlers as the first replaces the first route's handlers by its own.\<close>

theorem Handle_overwrites:
  assumes "b < length (blueprints w)" and "slice_ok (arrays w) (middleware (bp w b))"
    and "len (middleware (bp w b)) + length hs \<le> cap (middleware (bp w b))"
    and "hs \<noteq> []" and "length hs' = length hs" and "meth \<noteq> ALLMethod"
  shows "\<exists>node. nodes_of (Handle grow b meth path hs w) b (ToUpper meth) =
      nodes_of w b (ToUpper meth) @ [node] \<and>
    chain_of (Handle grow b meth path hs w) node =
      contents (arrays w) (middleware (bp w b)) @ map Some hs \<and>
    chain_of (Handle grow b meth' path' hs' (Handle grow b meth path hs w)) node =
      contents (arrays w) (middleware (bp w b)) @ map Some hs'"
proof -
  let ?mw = "middleware (bp w b)"
  obtain s m where sm: "slice_append grow ?mw (map Some hs) (arrays w) = (s, m)" by fastforce
  obtain s' m' where sm': "slice_append grow ?mw (map Some hs') m = (s', m')" by fastforce
  let ?n = "\<lparr>node_path = bp_prefix (bp w b) @ path, handles = s, blueprint = b\<rparr>"
  let ?w1 = "Handle grow b meth path hs w"
  have w1: "?w1 = register b meth ?n (w\<lparr>arrays := m\<rparr>)" by (simp add: Handle_def sm)
  have fr: "length (blueprints ?w1) = length (blueprints w)" "arrays ?w1 = m" "middleware (bp ?w1 b) = ?mw"
    using assms(1) by (simp_all add: w1)
  have "nodes_of ?w1 b (ToUpper meth) = nodes_of w b (ToUpper meth) @ [?n]"
    using assms(1,6) by (simp add: w1 register_nodes methods_of_def)
  moreover have "contents m s = contents (arrays w) ?mw @ map Some hs"
  proof -
    have "s = ?mw\<lparr>len := len ?mw + length hs\<rparr>"
      "m = (arrays w)[arr ?mw := take (len ?mw) (arrays w ! arr ?mw) @ map Some hs @
        drop (len ?mw + length hs) (arrays w ! arr ?mw)]"
      using sm assms(3,4) by (simp_all add: slice_append_def Let_def)
    moreover have "0 < cap ?mw" using assms(3,4) by (cases hs) auto
    ultimately show ?thesis using assms(2,3) by (simp add: contents_def slice_ok_def)
  qed
  moreover have "contents m' s = contents (arrays w) ?mw @ map Some hs'"
    by (rule slice_append_twice [OF assms(2) _ _ _ sm sm']) (use assms(3-5) in simp_all)
  moreover have "arrays (Handle grow b meth' path' hs' ?w1) = m'"
    unfolding Handle_def [where meth = meth'] using fr sm' assms(1) by simp
  ultimately show ?thesis using fr(2) unfolding chain_of_def by (intro exI [of _ ?n]) simp
qed

theorem Handle_overwrites_witness:
  "\<exists>node. nodes_of (Handle (\<lambda>c n. n) 0 ''GET'' ''/a'' [2] sample_world) 0 ''GET'' = [node] \<and>
    chain_of (Handle (\<lambda>c n. n) 0 ''GET'' ''/a'' [2] sample_world) node = [Some 1, Some 2] \<and>
    chain_of (Handle (\<lambda>c n. n) 0 ''GET'' ''/b'' [3] (Handle (\<lambda>c n. n) 0 ''GET'' ''/a'' [2] sample_world)) node =
      [Some 1, Some 3]"
proof -
  have "ToUpper ''GET'' = ''GET''" by code_simp
  then show ?thesis
    using Handle_overwrites [of 0 sample_world "[2]" "[3]" "''GET''" "\<lambda>c n. n" "''/a''" "''GET''" "''/b''"]
    by (simp add: sample_world_simps sample_method slice_ok_def contents_def)
qed

section \<open>Inclusion\<close>

definition included :: "nat \<Rightarrow> string \<Rightarrow> handleNode \<Rightarrow> handleNode" where
  "included branch pre n = \<lparr>node_path = pre @ node_path n, handles = handles n, blueprint = branch\<rparr>"

lemma fold_include:
  assumes "b < length (blueprints w)"
  shows "length (blueprints (fold (include_node b branch pre meth) ns w)) = length (blueprints w)"
    and "arrays (fold (include_node b branch pre meth) ns w) = arrays w"
    and "parent (bp (fold (include_node b branch pre meth) ns w) b') = parent (bp w b')"
    and "nodes_of (fold (include_node b branch pre meth) ns w) b' m =
      nodes_of w b' m @ (if b' = b \<and> m \<in> set (methods_of meth) then map (included branch pre) ns else [])"
  using assms
  by (induction ns arbitrary: w) (simp_all add: include_node_def register_nodes included_def)

lemma fold_include_all:
  assumes "b < length (blueprints w)" and "b \<noteq> branch" and "distinct order"
    and "\<forall>m\<in>set order. methods_of m = [m]"
  shows "arrays (include_methods order b pre branch w) = arrays w \<and>
    parent (bp (include_methods order b pre branch w) b') = parent (bp w b') \<and>
    nodes_of (include_methods order b pre branch w) b' m = nodes_of w b' m @
      (if b' = b \<and> m \<in> set order then map (included branch pre) (nodes_of w branch m) else [])"
  using assms(1,3,4)
proof (induction order arbitrary: w)
  case Nil
  show ?case by (simp add: include_methods_def)
next
  case (Cons x order)
  let ?w = "fold (include_node b branch pre x) (nodes_of w branch x) w"
  have w: "b < length (blueprints ?w)" using Cons.prems(1) by (simp add: fold_include)
  have br: "nodes_of ?w branch m = nodes_of w branch m" for m
    using assms(2) Cons.prems(1) by (simp add: fold_include)
  have "include_methods (x # order) b pre branch w = include_methods order b pre branch ?w"
    by (simp add: include_methods_def)
  with Cons.IH [OF w] Cons.prems br show ?case by (auto simp: fold_include)
qed

text \<open>C16: \<open>Include\<close> makes the blueprint the branch's parent and adds to its lists, method by method,
  the branch's routes with the prefix before their paths and the branch as their blueprint, whatever
  the order in which the map is traversed; the branch keeps its own lists and no handler chain
  changes.\<close>

theorem Include_adds:
  assumes "b < length (blueprints w)" and "branch < length (blueprints w)" and "b \<noteq> branch"
    and "distinct order" and "set order = dom (methodsTree (bp w branch))"
    and "\<forall>m\<in>set order. methods_of m = [m]"
  shows "parent (bp (Include order b pre branch w) branch) = Some b \<and>
    nodes_of (Include order b pre branch w) b m =
      nodes_of w b m @ map (included branch pre) (nodes_of w branch m) \<and>
    nodes_of (Include order b pre branch w) branch m = nodes_of w branch m \<and>
    chain_of (Include order b pre branch w) n = chain_of w n"
proof -
  let ?w = "upd_bp branch (\<lambda>x. x\<lparr>parent := Some b\<rparr>) w"
  have n: "nodes_of ?w b' m' = nodes_of w b' m'" for b' m'
    using assms(2) by (simp add: nodes_of_def)
  have b: "b < length (blueprints ?w)" using assms(1) by simp
  have "nodes_of w branch m = []" if "m \<notin> set order"
    using that assms(5) by (auto simp: nodes_of_def split: option.split)
  then show ?thesis
    using fold_include_all [OF b assms(3,4,6), of pre] n assms(2,3)
    by (auto simp: Include_def chain_of_def)
qed

theorem Include_adds_witness:
  "nodes_of (Include [''GET''] 0 ''/v1'' 1 sample_world) 0 ''GET'' =
     [\<lparr>node_path = ''/v1/x'', handles = nil_slice, blueprint = 1\<rparr>]"
  using Include_adds [of 0 sample_world 1 "[''GET'']" "''/v1''" "''GET''"]
  by (simp add: sample_world_simps sample_method included_def)

section \<open>The contract of the services\<close>

fun first_some :: "'a option list \<Rightarrow> 'a option" where
  "first_some [] = None"
| "first_some (x # xs) = (case x of None \<Rightarrow> first_some xs | Some _ \<Rightarrow> x)"

text \<open>A blueprint, its parent, and so on up to one without a parent.\<close>

fun lineage :: "('s, 'h) world \<Rightarrow> nat list \<Rightarrow> bool" where
  "lineage w [] = False"
| "lineage w [b] = IsRoot w b"
| "lineage w (b # p # bs) = (parent (bp w b) = Some p \<and> lineage w (p # bs))"

locale inherited_service =
  fixes get :: "('s, 'h) world \<Rightarrow> nat \<Rightarrow> 's option option"
    and set_it :: "nat \<Rightarrow> 's option \<Rightarrow> ('s, 'h) world \<Rightarrow> ('s, 'h) world res"
    and field :: "'s blueprint \<Rightarrow> 's option"
  assumes get_own: "field (bp w b) = Some v \<Longrightarrow> get w b = Some (Some v)"
    and get_root: "field (bp w b) = None \<Longrightarrow> IsRoot w b \<Longrightarrow> get w b = Some None"
    and get_parent: "field (bp w b) = None \<Longrightarrow> parent (bp w b) = Some p \<Longrightarrow> get w b = get w p"
    and set_nil: "panics (set_it b s w) \<longleftrightarrow> s = None"
    and set_field: "set_it b s w = Inr w' \<Longrightarrow> b < length (blueprints w) \<Longrightarrow> field (bp w' b) = s"
begin

lemma get_lineage:
  "lineage w bs \<Longrightarrow> get w (hd bs) = Some (first_some (map (\<lambda>b. field (bp w b)) bs))"
proof (induction w bs rule: lineage.induct)
  case (2 w b)
  then show ?case by (cases "field (bp w b)") (simp_all add: get_root get_own)
next
  case (3 w b p bs)
  then show ?case by (cases "field (bp w b)") (simp_all add: get_parent get_own)
qed simp

lemma get_after_set:
  "set_it b (Some s) w = Inr w' \<Longrightarrow> b < length (blueprints w) \<Longrightarrow> get w' b = Some (Some s)"
  using set_field get_own by blast

end

declare service.simps [code]

lemma service_cases:
  "field (bp w b) = Some s \<Longrightarrow> service field w b = Some (Some s)"
  "field (bp w b) = None \<Longrightarrow> IsRoot w b \<Longrightarrow> service field w b = Some None"
  "field (bp w b) = None \<Longrightarrow> parent (bp w b) = Some p \<Longrightarrow> service field w b = service field w p"
  by (simp_all add: service.simps [of field w b] IsRoot_def)

lemma set_service_field:
  "panics (set_service f what b s w) \<longleftrightarrow> s = None"
  "set_service f what b s w = Inr w' \<Longrightarrow> b < length (blueprints w) \<Longrightarrow> bp w' b = f s (bp w b)"
  by (auto simp: set_service_def split: if_splits)

lemmas service_defs = XMLSerializer_def JSONSerializer_def FileStorage_def Parsers_def Validator_def Logger_def
  SetXMLSerializer_def SetJSONSerializer_def SetFileStorage_def SetParsers_def SetValidator_def SetLogger_def

interpretation xml: inherited_service XMLSerializer SetXMLSerializer xmlSerializer
  by unfold_locales (auto simp: service_defs service_cases set_service_field)

interpretation json: inherited_service JSONSerializer SetJSONSerializer jsonSerializer
  by unfold_locales (auto simp: service_defs service_cases set_service_field)

interpretation storage: inherited_service FileStorage SetFileStorage fileStorage
  by unfold_locales (auto simp: service_defs service_cases set_service_field)

interpretation parse: inherited_service Parsers SetParsers parsers
  by unfold_locales (auto simp: service_defs service_cases set_service_field)

interpretation valid: inherited_service Validator SetValidator validator
  by unfold_locales (auto simp: service_defs service_cases set_service_field)

interpretation log: inherited_service Logger SetLogger logger
  by unfold_locales (auto simp: service_defs service_cases set_service_field)

text \<open>C17: each of the six services of a blueprint is the one of the nearest of its ancestors, itself
  included, that has one, and nil when none has.\<close>

theorem services_inherited:
  assumes "lineage w bs"
  shows "XMLSerializer w (hd bs) = Some (first_some (map (\<lambda>b. xmlSerializer (bp w b)) bs)) \<and>
    JSONSerializer w (hd bs) = Some (first_some (map (\<lambda>b. jsonSerializer (bp w b)) bs)) \<and>
    FileStorage w (hd bs) = Some (first_some (map (\<lambda>b. fileStorage (bp w b)) bs)) \<and>
    Parsers w (hd bs) = Some (first_some (map (\<lambda>b. parsers (bp w b)) bs)) \<and>
    Validator w (hd bs) = Some (first_some (map (\<lambda>b. validator (bp w b)) bs)) \<and>
    Logger w (hd bs) = Some (first_some (map (\<lambda>b. logger (bp w b)) bs))"
  using xml.get_lineage [OF assms] json.get_lineage [OF assms] storage.get_lineage [OF assms]
    parse.get_lineage [OF assms] valid.get_lineage [OF assms] log.get_lineage [OF assms] by simp

lemma sample_lineage: "lineage sample_world [Suc 0, 0]"
  by (simp add: sample_world_def bp_def NewBluePrint_def IsRoot_def)

theorem services_inherited_witness: "JSONSerializer sample_world (Suc 0) = Some (Some 9)"
  using services_inherited [OF sample_lineage] by (simp add: sample_world_simps)

definition no_service :: "('s blueprint \<Rightarrow> 's option) \<Rightarrow> ('s, 'h) world \<Rightarrow> nat set \<Rightarrow> bool" where
  "no_service field w S \<longleftrightarrow> (\<forall>b\<in>S. field (bp w b) = None \<and> (\<exists>p\<in>S. parent (bp w b) = Some p))"

lemma service_ends:
  assumes "service field w b = Some r"
  shows "no_service field w S \<longrightarrow> b \<notin> S"
proof (rule service.raw_induct [where P = "\<lambda>f w b r. no_service f w S \<longrightarrow> b \<notin> S", OF _ assms], intro impI notI)
  fix service :: "('a blueprint \<Rightarrow> 'a option) \<Rightarrow> ('a, 'b) world \<Rightarrow> nat \<Rightarrow> 'a option option"
    and field w b y
  assume IH: "\<And>field w b y. service field w b = Some y \<Longrightarrow> no_service field w S \<longrightarrow> b \<notin> S"
    and eq: "(case field (bp w b) of None \<Rightarrow>
        (case parent (bp w b) of None \<Rightarrow> Some None | Some p \<Rightarrow> service field w p)
      | Some s \<Rightarrow> Some (Some s)) = Some y"
    and S: "no_service field w S" "b \<in> S"
  then obtain p where "field (bp w b) = None" "parent (bp w b) = Some p" "p \<in> S"
    by (auto simp: no_service_def)
  with IH [of field w p y] eq S(1) show False by simp
qed

text \<open>When blueprints that include one another in a cycle have no service of a kind, its getter
  does not return.\<close>

theorem service_cycle_hangs:
  assumes "b \<in> S" and "\<And>b. b \<in> S \<Longrightarrow> jsonSerializer (bp w b) = None \<and> (\<exists>p\<in>S. parent (bp w b) = Some p)"
  shows "JSONSerializer w b = None"
proof (cases "service jsonSerializer w b")
  case (Some r)
  from service_ends [OF this, of S] assms show ?thesis by (simp add: no_service_def)
qed (simp add: service_defs)

theorem service_cycle_hangs_witness:
  "JSONSerializer (\<lparr>blueprints = [NewBluePrint\<lparr>parent := Some 1\<rparr>, NewBluePrint\<lparr>parent := Some 0\<rparr>],
     arrays = []\<rparr> :: (nat, nat) world) 0 = None"
  by (rule service_cycle_hangs [of _ "{0, 1}"]) (auto simp: bp_def NewBluePrint_def)

end
