(* ===== verification/Engine.thy ===== *)
theory Engine
  imports Router ContextResponse BlueprintFacts
begin

text \<open>
  \<open>core/engine.go\<close>: \<open>init\<close> turns the route lists of the engine's own blueprint into routing trees,
  \<open>ServeHTTP\<close> takes a context from the pool, matches, runs the group and puts the context back.
\<close>

section \<open>State\<close>

text \<open>
  The engine embeds the blueprint \<open>own\<close>.  Handlers in the arrays are the functions
  \<open>func(*Context)\<close> that users register.
\<close>

record ('s, 'v) engine =
  world :: "('s, 'v handler) world"
  own :: nat
  RouterOf :: "('v, nat) httpRouter"
  NotFoundHandle :: "'v handler"
  interceptors :: "('v, nat) group"

text \<open>A starter is what its \<open>Start\<close> returns for the engine: an error, or nil.\<close>

type_synonym ('s, 'v) starter = "('s, 'v) engine \<Rightarrow> string option"

definition to_node :: "'b \<Rightarrow> 'v handler option \<Rightarrow> ('v, 'b) handleFuncNode option" where
  "to_node b h = map_option (\<lambda>f. \<lparr>HandleFunc = f, BluePrint = b\<rparr>) h"

text \<open>
  \<open>make\<close> has already given the slice its length when the nodes are appended, so as many nil
  pointers come first.
\<close>

definition AddInterceptors :: "'v handler list \<Rightarrow> ('s, 'v) engine \<Rightarrow> ('s, 'v) engine" where
  "AddInterceptors mws e =
     (let groups = replicate (length mws) None @ map (\<lambda>h. to_node (own e) (Some h)) mws
      in e\<lparr>interceptors := interceptors e @ groups\<rparr>)"

section \<open>init\<close>

text \<open>
  One route: \<open>append(e.middleware, node.handles...)\<close> writes to the arrays, the nodes copy what
  the result holds.
\<close>

definition init_node ::
  "(nat \<Rightarrow> nat \<Rightarrow> nat) \<Rightarrow> string \<Rightarrow> handleNode \<Rightarrow> ('s, 'v) engine \<Rightarrow> ('s, 'v) engine res" where
  "init_node grow meth node e =
     (let w = world e;
          (s, mem) = slice_append grow (middleware (bp w (own e))) (contents (arrays w) (handles node)) (arrays w);
          hns = map (to_node (blueprint node)) (contents mem s)
      in rbind (Insert meth (node_path node) (Some hns) (RouterOf e)) (\<lambda>r.
           Inr (e\<lparr>world := w\<lparr>arrays := mem\<rparr>, RouterOf := r\<rparr>)))"

fun init_nodes ::
  "(nat \<Rightarrow> nat \<Rightarrow> nat) \<Rightarrow> string \<Rightarrow> handleNode list \<Rightarrow> ('s, 'v) engine \<Rightarrow> ('s, 'v) engine res" where
  "init_nodes grow meth [] e = Inr e"
| "init_nodes grow meth (n # ns) e = rbind (init_node grow meth n e) (init_nodes grow meth ns)"

text \<open>The range over the map of methods takes them in some \<open>order\<close>.\<close>

fun init_methods ::
  "(nat \<Rightarrow> nat \<Rightarrow> nat) \<Rightarrow> string list \<Rightarrow> ('s, 'v) engine \<Rightarrow> ('s, 'v) engine res" where
  "init_methods grow [] e = Inr e"
| "init_methods grow (m # ms) e =
     rbind (init_nodes grow m (nodes_of (world e) (own e) m) e) (init_methods grow ms)"

fun run_starters :: "('s, 'v) starter list \<Rightarrow> ('s, 'v) engine \<Rightarrow> string option" where
  "run_starters [] e = None"
| "run_starters (s # ss) e = (case s e of Some err \<Rightarrow> Some err | None \<Rightarrow> run_starters ss e)"

definition init ::
  "(nat \<Rightarrow> nat \<Rightarrow> nat) \<Rightarrow> string list \<Rightarrow> ('s, 'v) starter list \<Rightarrow> ('s, 'v) engine \<Rightarrow>
   (string option \<times> ('s, 'v) engine) res" where
  "init grow order starters e =
     rbind (init_methods grow order e) (\<lambda>e'. Inr (run_starters starters e', e'))"

section \<open>Requests\<close>

definition fresh_context :: "'v ctx" where
  "fresh_context = \<lparr>shared = \<lparr>matched = False, escape = False, status = 0, written = False, items = None,
     ctx_request = get_request, writer = new_response, ctx_params = None, ctx_fullPath = []\<rparr>, index = 0, abortIndex = 0\<rparr>"

text \<open>
  \<open>ServeHTTP\<close> on the context \<open>c\<close> that the pool gives: one that was put back earlier or a new one.
  \<open>r\<close> is the request.  The result is the context that goes back to the pool, if one does, and the context as the request
  left it, whose \<open>writer\<close> is the response.
\<close>

definition group_for :: "('s, 'v) engine \<Rightarrow> ('v, nat) group option \<Rightarrow> ('v, nat) group" where
  "group_for e g =
     (case g of
        Some hs \<Rightarrow> (if length (interceptors e) \<noteq> 0 then interceptors e @ hs else hs)
      | None \<Rightarrow> [Some \<lparr>HandleFunc = NotFoundHandle e, BluePrint = own e\<rparr>])"

definition ServeHTTP ::
  "('v, nat) env \<Rightarrow> nat \<Rightarrow> ('s, 'v) engine \<Rightarrow> wire \<Rightarrow> 'v ctx \<Rightarrow> ('v ctx option, 'v ctx) outcome" where
  "ServeHTTP env k e r c =
     (let s = (shared c)\<lparr>ctx_request := r, writer := new_response\<rparr> in
      case Match (RouterOf e) s of
        Inl p \<Rightarrow> Panicked p (c\<lparr>shared := s\<rparr>)
      | Inr (ok, g, s1) \<Rightarrow>
          (case start env k (group_for e g) (c\<lparr>shared := s1\<lparr>matched := ok\<rparr>\<rparr>) of
             Done _ c1 \<Rightarrow> Done (if \<not> escape (shared c1) then Some (reset c1) else None) c1
           | Panicked p c1 \<Rightarrow> Panicked p c1
           | OutOfFuel \<Rightarrow> OutOfFuel))"

end
