(* ===== verification/TreeRegular.thy ===== *)
theory TreeRegular
  imports TreeWildcard
begin

text \<open>
  \<open>regular\<close> is the invariant of the trees that \<open>addRoute\<close> builds, with parameters and
  catch-alls in any order; it says nothing about the order of the children, so it survives the misalignment of \<open>indices\<close>.
  Here: what the visit of a node, the insertion of a route into a fresh node and a new child keep of it.
\<close>

section \<open>The invariant\<close>

definition param_name :: "string \<Rightarrow> bool" where
  "param_name s \<longleftrightarrow> s \<noteq> [] \<and> hd s = CHR '':'' \<and> no_wildcards (tl s) \<and> CHR ''/'' \<notin> set s"

text \<open>Below a parameter the path goes on with a slash, at a node whose path begins with it or, where a wildcard
  follows at once, with no path of its own.\<close>

definition slashed :: "'h router_node \<Rightarrow> bool" where
  "slashed n \<longleftrightarrow> path (info n) = [] \<or> hd (path (info n)) = CHR ''/''"

fun regular :: "'h router_node \<Rightarrow> bool" where
  "regular (RouterNode f cs) \<longleftrightarrow>
     nType f \<noteq> Param \<and> no_wildcards (path f) \<and> no_wildcards (indices f) \<and>
     (if wildChild f then
        (case cs of [] \<Rightarrow> True
         | RouterNode g ds # _ \<Rightarrow>
             (nType g = Param \<or> nType g = CatchAll) \<and> (nType g = CatchAll \<longrightarrow> handle g \<noteq> None) \<and>
             (nType g = Param \<and> path g \<noteq> [] \<longrightarrow>
                param_name (path g) \<and> \<not> wildChild g \<and>
                (case ds of [] \<Rightarrow> True | [d] \<Rightarrow> regular d \<and> slashed d | _ \<Rightarrow> False)))
      else list_all regular cs)"

definition adds :: "'h router_node \<Rightarrow> string \<Rightarrow> 'h list \<Rightarrow> 'h router_node \<Rightarrow> bool" where
  "adds n p h n' \<longleftrightarrow> regular n' \<and> children n' \<noteq> [] \<and>
     set (routes n) \<subseteq> set (routes n') \<and> set (routes n') \<subseteq> insert (parse p, h) (set (routes n))"

lemma under_simps [simp]:
  "under q [] = []" "under q (rs @ ss) = under q rs @ under q ss" "under q (under r rs) = under (q @ r) rs"
  "under [] rs = rs"
  by (auto simp: under_def)

lemma under_concat [simp]: "under q (concat rss) = concat (map (under q) rss)"
  by (induction rss) simp_all

lemma under_own [simp]: "under q (own_route r f) = own_route (q @ r) f"
  by (simp add: own_route_def under_def split: option.split)

lemma own_route_cong: "handle f' = handle f \<Longrightarrow> own_route q f' = own_route q f"
  by (simp add: own_route_def)

text \<open>The routes of a node are those below its path.\<close>

lemma routes_under: "routes (RouterNode f cs) = under (map Byte (path f)) (routes (RouterNode (f\<lparr>path := []\<rparr>) cs))"
proof (cases "wildChild f")
  case False
  then show ?thesis by (simp add: own_route_cong [of "f\<lparr>path := []\<rparr>" f] comp_def)
next
  case True
  then show ?thesis
    by (cases cs; cases "hd cs")
      (simp_all add: own_route_cong [of "f\<lparr>path := []\<rparr>" f] split: list.split)
qed

lemma routes_fields:
  assumes "path f' = path f" "wildChild f' = wildChild f" "handle f' = handle f"
  shows "routes (RouterNode f' cs) = routes (RouterNode f cs)"
  using own_route_cong [OF assms(3)] assms(1,2)
  by (cases cs; cases "hd cs") (simp_all split: list.split)

lemma routes_bump [simp]: "routes (bump_priority n) = routes n"
  by (cases n) (simp add: bump_priority_def del: routes.simps, rule routes_fields, simp_all)

lemma regular_bump [simp]: "regular (bump_priority n) = regular n"
  by (cases n) (simp add: bump_priority_def)

text \<open>An edge split in two stands for the same routes.\<close>

lemma routes_split:
  assumes "path f = a @ path f'" "wildChild f' = wildChild f" "handle f' = handle f"
  shows "routes (RouterNode f cs) = under (map Byte a) (routes (RouterNode f' cs))"
proof -
  have "routes (RouterNode (f\<lparr>path := []\<rparr>) cs) = routes (RouterNode (f'\<lparr>path := []\<rparr>) cs)"
    by (rule routes_fields) (simp_all add: assms)
  then show ?thesis
    unfolding routes_under [of f cs] routes_under [of f' cs] assms(1) by simp
qed

lemma regular_split_child:
  assumes "regular (RouterNode f cs)" "wildChild f' = wildChild f" "indices f' = indices f"
    "nType f' = Static" "no_wildcards (path f')"
  shows "regular (RouterNode f' cs)"
  using assms by (auto split: list.splits router_node.splits)

lemma no_wildcards_parts: "no_wildcards s \<Longrightarrow> no_wildcards (take i s) \<and> no_wildcards (drop i s)"
  by (metis append_take_drop_id no_wildcards_append(1))

section \<open>Visiting a node\<close>

lemma enter_regular:
  assumes "enter_node w p h n = Inr (n1, rest)" and "regular n" and "rest \<noteq> []"
  shows "regular n1" and "routes n1 = routes n" and "p = path (info n1) @ rest"
proof -
  obtain f cs where n: "n = RouterNode f cs" by (cases n)
  obtain f1 cs1 where n1: "n1 = RouterNode f1 cs1" by (cases n1)
  have "regular n1 \<and> routes n1 = routes n \<and> p = path (info n1) @ rest"
  proof (cases "prefix (path f) p")
    case True
    with enter_node_keep [OF assms(1)] assms(3) have k: "rest = drop (length (path f)) p" "cs1 = cs"
      "f1 = raise_maxParams w f"
      by (simp_all add: n n1)
    from assms(2) have "regular n1" by (simp add: n n1 k)
    moreover have "routes n1 = routes n" unfolding n n1 k by (rule routes_fields) simp_all
    ultimately show ?thesis using True k(1) by (auto simp: n1 k(3) prefix_def)
  next
    case False
    note s = enter_node_split [OF assms(1), unfolded n router_node.sel, OF False]
    let ?i = "lcp p (path f)"
    let ?child = "RouterNode (zero_fields\<lparr>path := drop ?i (path f), wildChild := wildChild f,
        nType := Static, indices := indices f, handle := handle f,
        priority := priority f - 1, maxParams := max_of_children cs\<rparr>) cs"
    from s(3-8) assms(3) have t: "\<not> wildChild f1" "indices f1 = [path f ! ?i]" "nType f1 = nType f"
      "cs1 = [?child]" "path f1 = take ?i p" "handle f1 = None"
      by (simp_all add: n1)
    have tk: "take ?i p = take ?i (path f)" by (rule lcp_take)
    have pf: "path f = take ?i p @ drop ?i (path f)" unfolding tk by simp
    have nw: "no_wildcards (path f)" using assms(2) by (simp add: n)
    have "regular ?child"
      by (rule regular_split_child [OF assms(2) [unfolded n]]) (use no_wildcards_parts [OF nw] in simp_all)
    moreover have "\<not> is_wild (path f ! ?i)" using nw s(1) by (auto simp: no_wildcards_def)
    moreover have "nType f \<noteq> Param" using assms(2) by (simp add: n)
    moreover have "no_wildcards (take ?i p)" unfolding tk using no_wildcards_parts [OF nw] by blast
    ultimately have "regular n1"
      unfolding n1 t(4) regular.simps(1) [of f1] using t(1,2,3,5) by (simp add: no_wildcards_def del: regular.simps)
    moreover have "routes n1 = routes n"
    proof -
      have "routes n1 = under (map Byte (take ?i p)) (routes ?child)"
        unfolding n1 t(4) using t(1,5,6) by (subst routes.simps) (simp add: own_route_def del: routes.simps)
      also have "\<dots> = routes n"
        unfolding n by (rule routes_split [symmetric]) (simp_all add: pf [symmetric])
      finally show ?thesis .
    qed
    ultimately show ?thesis using s(2) t(5) by (simp add: n1)
  qed
  then show "regular n1" "routes n1 = routes n" "p = path (info n1) @ rest" by simp_all
qed

lemma walk_Nil: "\<not> (walk w [] h n = Inr n')"
proof (induction "walk_measure n" arbitrary: w n n' rule: less_induct)
  case less
  show ?case
  proof
    assume a: "walk w [] h n = Inr n'"
    then obtain n1 rest where e: "enter_node w [] h n = Inr (n1, rest)"
      by (subst (asm) walk.simps) (auto simp: go_res)
    have [simp]: "rest = []" using e by (auto simp: enter_node_def Let_def split: if_splits)
    show False
    proof (cases "wildChild (info n1)")
      case False
      with a e show False by (subst (asm) walk.simps) (simp add: index_at_def)
    next
      case True
      with a e obtain c cs c2 where ch: "children n1 = c # cs"
        and "walk (w - 1) [] h (RouterNode (raise_maxParams w (info (bump_priority c))) (children c)) = Inr c2"
        by (subst (asm) walk.simps) (auto simp: go_res Let_def split: list.splits if_splits)
      moreover have "walk_measure (RouterNode (raise_maxParams w (info (bump_priority c))) (children c)) < walk_measure n"
        using walk_decreases_wild [OF e True ch]
        by (intro walk_measure_less) (simp add: nodes_unfold [of c])
      ultimately show False using less by blast
    qed
  qed
qed

section \<open>Inserting below a fresh node\<close>

lemma slashed_fields [simp]: "slashed (bump_priority n) = slashed n" "slashed (RouterNode (f\<lparr>path := []\<rparr>) cs)"
  by (simp_all add: slashed_def)

lemma slashed_take: "ofs < length p \<Longrightarrow> p ! ofs = CHR ''/'' \<Longrightarrow> path f = take k (drop ofs p) \<Longrightarrow> slashed (RouterNode f cs)"
  by (cases "k = 0") (simp_all add: slashed_def hd_drop_conv_nth)

lemma insert_loop_slashed:
  assumes "insert_loop w p full h ofs i n = Inr n'" and "children n = []" and "path (info n) = []"
    and "ofs < length p" and "p ! ofs = CHR ''/''" and "wilds (drop i p) = wilds (drop ofs p)"
  shows "slashed n'"
  using assms
proof (induction "length p - i" arbitrary: i rule: less_induct)
  case less
  show ?case
  proof (cases "w = 0")
    case True
    with less.prems(1,3) show ?thesis by (simp add: insert_loop_zero slashed_def)
  next
    case w: False
    note i = insert_loop_wild_Inr(1) [OF less.prems(1) w]
    show ?thesis
    proof (cases "is_wild (p ! i)")
      case False
      then have "wilds (drop (Suc i) p) = wilds (drop i p)" using i by (simp add: Cons_nth_drop_Suc [symmetric])
      with False less.prems w i show ?thesis by (intro less.hyps [of "Suc i"]) (simp_all add: insert_loop_skip)
    next
      case wild: True
      note ofs = scan_offset(1) [OF less.prems(6) i wild]
      obtain e where e: "wildcard_end (drop (Suc i) p) (Suc i) = Some e"
        using insert_loop_wild_Inr(2) [OF less.prems(1) w wild] by blast
      show ?thesis
      proof (cases "p ! i = CHR '':''")
        case True
        from less.prems(1) [unfolded insert_loop_colon [OF w i True e ofs less.prems(2,3)]]
        obtain cs where "n' = RouterNode (param_parent (info n) (take (i - ofs) (drop ofs p))) cs"
          by (auto simp: go_res split: if_splits)
        with less.prems(4,5) show ?thesis by (auto simp: param_parent_def intro: slashed_take)
      next
        case False
        then have "p ! i = CHR ''*''" using wild by (simp add: is_wild_def)
        from less.prems(1) [unfolded insert_loop_star [OF w i this e less.prems(2)]]
        have "insert_catchAll w p full h ofs i e (info n) = Inr n'" by (simp split: if_splits)
        from insert_catchAll_Inr(5) [OF this] less.prems(4,5) show ?thesis by (auto intro: slashed_take)
      qed
    qed
  qed
qed

lemma insertChild_slashed:
  assumes "insertChild w p full h n = Inr n'" and "fresh n" and "p \<noteq> []" and "hd p = CHR ''/''"
  shows "slashed n'"
proof (cases "w = 0")
  case True
  with assms show ?thesis by (auto simp: insertChild_def slashed_def)
next
  case False
  with assms(1) have "insert_loop w p full h 0 0 n = Inr n'" by (simp add: insertChild_def)
  then show ?thesis
    by (rule insert_loop_slashed) (use assms(2-4) in \<open>simp_all add: fresh_def hd_conv_nth\<close>)
qed

lemma regular_catchAll:
  assumes "insert_catchAll w p full (Some h) ofs i e (info n) = Inr n'" and "fresh n" and "nType (info n) \<noteq> Param"
    and "no_wildcards (take (i - ofs) (drop ofs p))"
  shows "regular n'" and "children n' \<noteq> []"
proof -
  note inv = insert_catchAll_Inr [OF assms(1)]
  have "take (i - 1 - ofs) (drop ofs p) = take (i - 1 - ofs) (take (i - ofs) (drop ofs p))" by (simp add: min_def)
  then have "no_wildcards (take (i - 1 - ofs) (drop ofs p))"
    using no_wildcards_parts [OF assms(4)] by metis
  then show "regular n'" "children n' \<noteq> []"
    using assms(2,3) inv(3) unfolding inv(5)
    by (simp_all add: fresh_def zero_fields_def no_wildcards_def is_wild_def)
qed

lemma param_name_segment:
  assumes "wildcard_end (drop (Suc i) p) (Suc i) = Some e" and "p ! i = CHR '':''"
  shows "param_name (p ! i # segment (drop (Suc i) p))"
proof -
  have "CHR ''/'' \<notin> set (segment s)" for s by (auto simp: segment_def dest: set_takeWhileD)
  then show ?thesis using wildcard_end_segment(2) [OF assms(1)] assms(2) by (simp add: param_name_def)
qed

lemma wildcard_end_slash: "wildcard_end (drop k p) k = Some e \<Longrightarrow> e < length p \<Longrightarrow> p ! e = CHR ''/''"
proof -
  assume "wildcard_end (drop k p) k = Some e" "e < length p"
  from wildcard_end_segment(1) [OF this(1)] this(2) have "drop e p = after_segment (drop k p)"
    using segment_after [of "drop k p"] by (metis append_eq_conv_conj drop_drop add.commute)
  with after_segment_hd [of "drop k p"] \<open>e < length p\<close> show "p ! e = CHR ''/''"
    by (metis drop_eq_Nil hd_drop_conv_nth not_le)
qed

lemma insert_loop_regular:
  assumes "insert_loop w p full (Some h) ofs i n = Inr n'" and "fresh n" and "regular n" and "w \<noteq> 0"
    and "w = of_nat (wilds (drop i p))" and "wilds (drop i p) < 256"
    and "wilds (drop i p) = wilds (drop ofs p)"
  shows "regular n' \<and> children n' \<noteq> []"
  using assms
proof (induction "length p - i" arbitrary: w ofs i n n' rule: less_induct)
  case less
  note w = less.prems(4)
  note i = insert_loop_wild_Inr(1) [OF less.prems(1) w]
  have d: "drop i p = p ! i # drop (Suc i) p" using i by (simp add: Cons_nth_drop_Suc)
  have dec: "length p - Suc i < length p - i" using i by simp
  have nt: "nType (info n) \<noteq> Param" "no_wildcards (indices (info n))" using less.prems(3) by (cases n, simp)+
  show ?case
  proof (cases "is_wild (p ! i)")
    case False
    have "wilds (drop (Suc i) p) = wilds (drop i p)" using d False by simp
    moreover have "insert_loop w p full (Some h) ofs (Suc i) n = Inr n'"
      using less.prems(1) by (simp add: insert_loop_skip [OF w i False])
    ultimately show ?thesis
      using less.hyps [OF dec _ less.prems(2,3) w, of ofs n'] less.prems(5-7) by simp
  next
    case wild: True
    note ofs = scan_offset [OF less.prems(7) i wild]
    obtain e where e: "wildcard_end (drop (Suc i) p) (Suc i) = Some e"
      using insert_loop_wild_Inr(2) [OF less.prems(1) w wild] by blast
    have ch: "children n = []" "path (info n) = []"
      using less.prems(2) by (simp_all add: fresh_def)
    show ?thesis
    proof (cases "p ! i = CHR '':''")
      case False
      then have star: "p ! i = CHR ''*''" using wild by (simp add: is_wild_def)
      have "insert_catchAll w p full (Some h) ofs i e (info n) = Inr n'"
        using less.prems(1) [unfolded insert_loop_star [OF w i star e ch(1)]]
        by (simp split: if_splits)
      from regular_catchAll [OF this less.prems(2) nt(1) ofs(2)] show ?thesis by blast
    next
      case True
      note step = less.prems(1) [unfolded insert_loop_colon [OF w i True e ofs(1) ch]]
      let ?pre = "take (i - ofs) (drop ofs p)" and ?rest = "drop (Suc i) p"
      have wr: "wilds (drop i p) = Suc (wilds ?rest)" using d wild by simp
      have w1: "w - 1 = of_nat (wilds ?rest)" "wilds ?rest < 256"
        using less.prems(5,6) wr by simp_all
      have we: "wilds ?rest = wilds (drop e p)" using wilds_after [OF e] .
      show ?thesis
      proof (cases "e < length p")
        case more: True
        obtain name d' where name: "substr p i e = Inr name"
          and loop: "insert_loop (w - 1) p full (Some h) e (Suc i)
            (RouterNode (zero_fields\<lparr>maxParams := w - 1, priority := 1\<rparr>) []) = Inr d'"
          and n': "n' = RouterNode (param_parent (info n) ?pre) [RouterNode (param_fields w name) [d']]"
          using step more by (auto simp: rbind_eq_Inr split: if_splits)
        have fr: "regular (RouterNode (zero_fields\<lparr>maxParams := w - 1, priority := 1\<rparr>) [])"
          by (simp add: zero_fields_def no_wildcards_def)
        have "regular d'"
        proof (cases "w - 1 = 0")
          case True
          from loop have "d' = RouterNode (zero_fields\<lparr>maxParams := w - 1, priority := 1\<rparr>) []"
            unfolding True by (simp add: insert_loop_zero)
          with fr show ?thesis by (simp only:)
        next
          case False
          from less.hyps [OF dec loop fresh_created(1) fr False w1 we] show ?thesis by blast
        qed
        moreover have "slashed d'"
          by (rule insert_loop_slashed [OF loop])
            (use more we wildcard_end_slash [OF e] in \<open>simp_all add: zero_fields_def\<close>)
        moreover have "param_name name"
          using param_name_segment [OF e True] substr_segment [OF e name i] by simp
        ultimately show ?thesis
          using nt ofs(2) by (simp add: n' param_parent_def param_fields_def zero_fields_def)
      next
        case False
        then obtain d' where loop: "insert_loop (w - 1) p full (Some h) i (Suc i)
            (RouterNode (zero_fields\<lparr>nType := Param, maxParams := w, priority := 1\<rparr>) []) = Inr d'"
          and n': "n' = RouterNode (param_parent (info n) ?pre) [d']"
          using step by (auto simp: rbind_eq_Inr split: if_splits)
        have "drop e p = []" using False by simp
        then have "w - 1 = 0" using w1 we by simp
        with loop have "d' = RouterNode (zero_fields\<lparr>nType := Param, maxParams := w, priority := 1\<rparr>) []"
          by (simp add: insert_loop_zero)
        then show ?thesis using nt ofs(2) by (simp add: n' param_parent_def zero_fields_def)
      qed
    qed
  qed
qed

lemma insertChild_fresh:
  assumes "insertChild w p full (Some h) n = Inr n'" and "fresh n" and "regular n"
    and "w = of_nat (wilds p)" and "wilds p < 256"
  shows "regular n'" and "set (routes n') \<subseteq> {(parse p, h)}"
proof -
  have "regular n' \<and> set (routes n') \<subseteq> {(parse p, h)}"
  proof (cases "w = 0")
    case True
    then have "no_wildcards p" using assms(4,5) by (simp add: wilds_0 [symmetric] byte_zero)
    then show ?thesis
      using True assms(1-3) by (cases n) (auto simp: insertChild_def fresh_def own_route_def parse_static)
  next
    case False
    with assms(1) have l: "insert_loop w p full (Some h) 0 0 n = Inr n'" by (simp add: insertChild_def)
    have "regular n'" using insert_loop_regular [OF l assms(2,3) False] assms(4,5) by simp
    moreover have "routes n' = stored_routes p h"
      using insert_loop_routes [OF l assms(2)] assms(4,5) by simp
    ultimately show ?thesis by (auto simp: stored_routes_def)
  qed
  then show "regular n'" "set (routes n') \<subseteq> {(parse p, h)}" by simp_all
qed

section \<open>A new child\<close>

lemma in_set_update: "x \<in> set xs \<Longrightarrow> x = xs ! i \<or> x \<in> set (xs[i := y])"
  by (metis in_set_conv_nth length_list_update nth_list_update_neq)

text \<open>What the visits change of a node's own fields: nothing that its routes depend on.\<close>

definition same_node :: "'h node_fields \<Rightarrow> 'h node_fields \<Rightarrow> bool" where
  "same_node f f' \<longleftrightarrow> path f' = path f \<and> wildChild f' = wildChild f \<and> nType f' = nType f \<and> handle f' = handle f"

lemma incrementChildPrio_same:
  assumes "incrementChildPrio i n = Inr (n', j)"
  shows "same_node (info n) (info n')" and "set (indices (info n')) \<subseteq> set (indices (info n))"
    and "set (children n') \<subseteq> insert (bump_priority (children n ! i)) (set (children n))"
    and "b \<in> set (children n) \<Longrightarrow> b \<in> set (children n') \<or> bump_priority b \<in> set (children n')"
proof -
  from assms show "same_node (info n) (info n')"
    by (auto simp: incrementChildPrio_def Let_def go_res same_node_def split: if_splits prod.splits)
  from assms show "set (indices (info n')) \<subseteq> set (indices (info n))"
    by (auto simp: incrementChildPrio_def Let_def go_res split: if_splits prod.splits
        dest!: in_set_takeD in_set_dropD)
  have "set (children n') = set ((children n)[i := bump_priority (children n ! i)])"
    using incrementChildPrio_mset [OF assms] by (metis set_mset_mset)
  moreover from this show "set (children n') \<subseteq> insert (bump_priority (children n ! i)) (set (children n))"
    using set_update_subset_insert by simp
  ultimately show "b \<in> set (children n) \<Longrightarrow> b \<in> set (children n') \<or> bump_priority b \<in> set (children n')"
    using in_set_update [of b "children n" i] incrementChildPrio_Inr(1) [OF assms] set_update_memI by metis
qed

lemma add_new_child_plain:
  assumes "add_new_child w p (Some h) n = Inr n'" and "p \<noteq> []" and "\<not> is_wild (hd p)"
    and "w = of_nat (wilds p)" and "wilds p < 256"
  obtains d where "regular d" and "set (routes d) \<subseteq> {(parse p, h)}" and "children n' \<noteq> []"
    and "same_node (info n) (info n')" and "set (indices (info n')) \<subseteq> insert (hd p) (set (indices (info n)))"
    and "children n = [] \<Longrightarrow> children n' = [d]"
    and "\<And>c. c \<in> set (children n') \<Longrightarrow> c = d \<or> (regular c \<and> routes c = []) \<or>
      (\<exists>b\<in>set (children n). c = b \<or> c = bump_priority b)"
    and "\<And>b. b \<in> set (children n) \<Longrightarrow> routes b = [] \<or> (\<exists>c\<in>set (children n'). routes c = routes b)"
    and "hd p = CHR ''/'' \<Longrightarrow> slashed d"
proof -
  let ?f = "(info n)\<lparr>indices := indices (info n) @ [hd p]\<rparr>" and ?cs = "children n"
  let ?child = "RouterNode (zero_fields\<lparr>maxParams := w\<rparr>) [] :: 'a router_node"
  let ?idx = "length (indices (info n))"
  have hd: "index_at p 0 = Inr (hd p)" using assms(2) by (simp add: index_at_def hd_conv_nth)
  have "hd p \<noteq> CHR '':''" "hd p \<noteq> CHR ''*''" using assms(3) by (simp_all add: is_wild_def)
  with assms(1) hd obtain n1 j d where inc: "incrementChildPrio ?idx (RouterNode ?f (?cs @ [?child])) = Inr (n1, j)"
    and ins: "insertChild w p (fullPath (info (children n1 ! (if ?idx = length ?cs then j else length ?cs)))) (Some h)
        (children n1 ! (if ?idx = length ?cs then j else length ?cs)) = Inr d"
    and n': "n' = RouterNode (info n1) ((children n1)[(if ?idx = length ?cs then j else length ?cs) := d])"
    by (auto simp: add_new_child_def go_res Let_def split del: if_split)
  define pos where "pos = (if ?idx = length ?cs then j else length ?cs)"
  note ic = incrementChildPrio_Inr [OF inc, simplified] and ch = incrementChildPrio_child [OF inc, simplified]
    and same = incrementChildPrio_same [OF inc, simplified]
  have pos: "pos < length (children n1)" "children n1 ! pos = ?child \<or> children n1 ! pos = bump_priority ?child"
  proof -
    show "pos < length (children n1)" using ch by (simp add: pos_def)
    show "children n1 ! pos = ?child \<or> children n1 ! pos = bump_priority ?child"
    proof (cases "?idx = length ?cs")
      case True
      then show ?thesis using ch(1) by (simp add: pos_def)
    next
      case False
      with ic(1) have lt: "?idx < length ?cs" by simp
      obtain ys where ys: "children n1 = ys @ [?child]" using lt unfolding ic(3) by auto
      with ch(3) have "length ys = length ?cs" by simp
      then have "children n1 ! length ?cs = ?child" unfolding ys by (metis nth_append_length)
      then show ?thesis using False by (simp add: pos_def)
    qed
  qed
  have kid: "fresh ?child" "regular ?child" "fresh (bump_priority ?child)" "routes ?child = []"
    by (simp_all add: fresh_def zero_fields_def no_wildcards_def bump_priority_def own_route_def)
  have fr: "fresh (children n1 ! pos)" "regular (children n1 ! pos)"
    using pos(2) kid by (auto simp del: regular.simps)
  note d = insertChild_fresh [OF ins [folded pos_def] fr assms(4,5)]
  have n'': "n' = RouterNode (info n1) ((children n1)[pos := d])" by (simp add: n' pos_def)
  show thesis
  proof (rule that [OF d])
    show "children n' \<noteq> []" using pos(1) by (auto simp: n'')
    show "same_node (info n) (info n')" using same(1) by (simp add: n'' same_node_def)
    show "set (indices (info n')) \<subseteq> insert (hd p) (set (indices (info n)))" using same(2) by (simp add: n'')
    show "children n' = [d]" if "children n = []"
      using that ch(3) pos(1) by (cases "children n1") (auto simp: n'')
  next
    fix c assume "c \<in> set (children n')"
    then have "c = d \<or> c \<in> set (children n1)" using set_update_subset_insert by (fastforce simp: n'')
    then have "c = d \<or> c = ?child \<or> c = bump_priority ((?cs @ [?child]) ! ?idx) \<or> c \<in> set ?cs"
      using same(3) by auto
    moreover have "(?cs @ [?child]) ! ?idx = ?child \<or> (?cs @ [?child]) ! ?idx \<in> set ?cs"
      using ic(1) by (auto simp: nth_append less_Suc_eq)
    ultimately show "c = d \<or> (regular c \<and> routes c = []) \<or> (\<exists>b\<in>set ?cs. c = b \<or> c = bump_priority b)"
      using kid by (metis regular_bump routes_bump)
  next
    fix b assume "b \<in> set (children n)"
    then have "b \<in> set (children n1) \<or> bump_priority b \<in> set (children n1)" using same(4) by simp
    then obtain c where c: "c \<in> set (children n1)" "routes c = routes b" by auto
    have "routes (children n1 ! pos) = []" using pos(2) kid(4) by auto
    with in_set_update [OF c(1), of pos d] c(2)
    show "routes b = [] \<or> (\<exists>c\<in>set (children n'). routes c = routes b)" by (auto simp: n'' simp del: routes.simps)
  qed (rule insertChild_slashed [OF ins [folded pos_def] fr(1) assms(2)])
qed


end
