(* ===== verification/TreeSound.thy ===== *)
theory TreeSound
  imports TreeRegular
begin

text \<open>
  What a tree holds after any sequence of registrations, with parameters and catch-alls in any order:
  only routes that were registered, so that a lookup returns no handler chain of a route that does
  not fit the path.
\<close>

section \<open>One turn of the walk\<close>

lemma walk_enter:
  assumes "walk w p h n = Inr n'"
  obtains n1 rest where "enter_node w p h n = Inr (n1, rest)" and "rest \<noteq> []"
proof -
  from assms obtain n1 rest where e: "enter_node w p h n = Inr (n1, rest)"
    by (subst (asm) walk.simps) (auto simp: go_res)
  moreover have "rest \<noteq> []"
  proof
    assume "rest = []"
    with assms e walk_Nil show False
      by (subst (asm) walk.simps) (auto simp: go_res Let_def index_at_def split: list.splits if_splits)
  qed
  ultimately show thesis by (rule that)
qed

text \<open>The wildcard child as the walk visits it.\<close>

definition visited :: "8 word \<Rightarrow> 'h router_node \<Rightarrow> 'h router_node" where
  "visited w c = RouterNode (raise_maxParams w (info (bump_priority c))) (children c)"

lemma visited_fields [simp]:
  "path (info (visited w c)) = path (info c)" "wildChild (info (visited w c)) = wildChild (info c)"
  "nType (info (visited w c)) = nType (info c)" "handle (info (visited w c)) = handle (info c)"
  "indices (info (visited w c)) = indices (info c)" "children (visited w c) = children c"
  by (simp_all add: visited_def)

lemma walk_wild:
  assumes "walk w p h n = Inr n'" and "enter_node w p h n = Inr (n1, rest)" and "wildChild (info n1)"
  obtains c cs c2 where "children n1 = c # cs" and "nType (info c) \<noteq> CatchAll"
    and "rest = path (info c) @ drop (length (path (info c))) rest"
    and "drop (length (path (info c))) rest \<noteq> [] \<longrightarrow> hd (drop (length (path (info c))) rest) = CHR ''/''"
    and "walk (w - 1) rest h (visited w c) = Inr c2" and "n' = RouterNode (info n1) (c2 # cs)"
proof -
  from assms obtain c cs c2 where c: "children n1 = c # cs" "wildcard_matches rest (info (visited w c))"
    "walk (w - 1) rest h (visited w c) = Inr c2" "n' = RouterNode (info n1) (c2 # cs)"
    by (subst (asm) walk.simps) (auto simp: go_res Let_def visited_def split: list.splits if_splits)
  from c(2) have "nType (info c) \<noteq> CatchAll"
    "rest = path (info c) @ drop (length (path (info c))) rest"
    "drop (length (path (info c))) rest \<noteq> [] \<longrightarrow> hd (drop (length (path (info c))) rest) = CHR ''/''"
    by (auto simp: wildcard_matches_def hd_drop_conv_nth) (metis append_take_drop_id)+
  with c(1,3,4) show thesis using that by blast
qed

lemma same_node_refl [simp]: "same_node f f" "same_node f (raise_maxParams w f)"
  by (simp_all add: same_node_def)

lemma same_node_trans: "same_node f g \<Longrightarrow> same_node g k \<Longrightarrow> same_node f k"
  by (simp add: same_node_def)

lemma add_new_child_same:
  assumes "add_new_child w p h n = Inr n'" and "p \<noteq> []" and "\<not> is_wild (hd p)"
  shows "same_node (info n) (info n')"
proof -
  have "index_at p 0 = Inr (hd p)" using assms(2) by (simp add: index_at_def hd_conv_nth)
  moreover have "hd p \<noteq> CHR '':''" "hd p \<noteq> CHR ''*''" using assms(3) by (simp_all add: is_wild_def)
  ultimately obtain n1 j where
    "incrementChildPrio (length (indices (info n)))
       (RouterNode ((info n)\<lparr>indices := indices (info n) @ [hd p]\<rparr>)
         (children n @ [RouterNode (zero_fields\<lparr>maxParams := w\<rparr>) []])) = Inr (n1, j)"
    and "info n' = info n1"
    using assms(1) by (auto simp: add_new_child_def go_res Let_def split del: if_split)
  from incrementChildPrio_same(1) [OF this(1)] this(2) show ?thesis by (simp add: same_node_def)
qed

lemma walk_keeps:
  assumes "walk w p h n = Inr n'" and "prefix (path (info n)) p"
    and "\<not> is_wild (hd (drop (length (path (info n))) p))"
  shows "same_node (info n) (info n')"
proof -
  from assms(1) obtain n1 rest where e: "enter_node w p h n = Inr (n1, rest)" "rest \<noteq> []"
    by (rule walk_enter)
  note k = enter_node_keep [OF e(1) assms(2)]
  have s1: "same_node (info n) (info n1)" using k(3) e(2) by simp
  have r: "\<not> is_wild (hd rest)" "index_at rest 0 = Inr (hd rest)"
    using assms(3) k(1) e(2) by (simp_all add: index_at_def hd_conv_nth)
  show ?thesis
  proof (cases "wildChild (info n1)")
    case True
    then obtain c2 cs where "n' = RouterNode (info n1) (c2 # cs)" by (rule walk_wild [OF assms(1) e(1)])
    then show ?thesis using s1 by simp
  next
    case False
    note step = assms(1) [unfolded walk.simps [of w p h n] e(1)]
    show ?thesis
    proof (cases "nType (info n1) = Param \<and> hd rest = CHR ''/'' \<and> length (children n1) = 1")
      case True
      with step r(2) \<open>\<not> wildChild (info n1)\<close> show ?thesis using s1 by (auto simp: go_res Let_def)
    next
      case np: False
      show ?thesis
      proof (cases "indexByte (hd rest) (indices (info n1))")
        case None
        with step r(2) False np have "add_new_child w rest h n1 = Inr n'"
          by (simp add: Let_def split: if_splits)
        from same_node_trans [OF s1 add_new_child_same [OF this e(2) r(1)]] show ?thesis .
      next
        case (Some i)
        with step r(2) False np obtain n2 j where inc: "incrementChildPrio i n1 = Inr (n2, j)" "info n' = info n2"
          by (auto simp: go_res Let_def split: if_splits)
        from same_node_trans [OF s1 incrementChildPrio_same(1) [OF inc(1)]] inc(2) show ?thesis by simp
      qed
    qed
  qed
qed


section \<open>A wildcard below a node\<close>

lemma routes_handle:
  "routes (RouterNode f cs) = own_route (map Byte (path f)) f @ routes (RouterNode (f\<lparr>handle := None\<rparr>) cs)"
  by (cases cs; cases "hd cs") (simp_all add: own_route_def split: list.split)

lemma under_routes_none:
  assumes "path f = []" "handle f = None" "wildChild f' = wildChild f" "path f' = q" "handle f' = k"
  shows "routes (RouterNode f' cs) =
    own_route (map Byte q) f' @ under (map Byte q) (routes (RouterNode f cs))"
proof -
  have "routes (RouterNode ((f'\<lparr>handle := None\<rparr>)\<lparr>path := []\<rparr>) cs) = routes (RouterNode f cs)"
    by (rule routes_fields) (simp_all add: assms)
  then show ?thesis
    using routes_handle [of f' cs] routes_under [of "f'\<lparr>handle := None\<rparr>" cs] by (simp add: assms(4) del: routes.simps)
qed

lemma insert_loop_first:
  assumes "insert_loop w p full h 0 0 n = Inr n'" and "w \<noteq> 0" and "p \<noteq> []" and "is_wild (hd p)"
  defines "n0 \<equiv> RouterNode ((info n)\<lparr>path := [], handle := None\<rparr>) []"
  obtains f where "hd p = CHR '':''" and "children n = []" and "f = (info n)\<lparr>path := [], handle := None, wildChild := True\<rparr>"
    and "insert_loop w p full h 0 0 n0 = Inr (RouterNode f (children n'))"
    and "info n' = (info n)\<lparr>wildChild := True\<rparr>"
proof -
  have p0: "p ! 0 = hd p" using assms(3) by (simp add: hd_conv_nth)
  have lt: "\<not> length p \<le> 0" using assms(3) by simp
  obtain e where e: "wildcard_end (drop (Suc 0) p) (Suc 0) = Some e"
    using insert_loop_wild_Inr(2) [OF assms(1,2)] p0 assms(4) by auto
  note l = assms(1) [unfolded insert_loop.simps [of w p full h 0 0 n] p0]
  note l0 = insert_loop.simps [of w p full h 0 0 n0, unfolded p0]
  have c: "hd p = CHR '':''" "children n = []"
    using l lt assms(2,4) e by (auto simp: insert_catchAll_def Let_def split: if_splits)
  show thesis
  proof (rule that [OF c refl])
    show "insert_loop w p full h 0 0 n0 =
        Inr (RouterNode ((info n)\<lparr>path := [], handle := None, wildChild := True\<rparr>) (children n'))"
      using l lt assms(2,4) e c unfolding l0
      by (auto simp: n0_def go_res Let_def split: if_splits)
    show "info n' = (info n)\<lparr>wildChild := True\<rparr>"
      using l lt assms(2,4) e c by (auto simp: go_res Let_def split: if_splits)
  qed
qed

lemma insertChild_wild:
  assumes "insertChild w p full (Some h) n = Inr n'" and "p \<noteq> []" and "is_wild (hd p)"
    and "regular n" and "\<not> wildChild (info n)" and "w = of_nat (wilds p)" and "wilds p < 256"
  shows "hd p = CHR '':''" and "regular n'" and "children n' \<noteq> []"
    and "set (routes n') \<subseteq> insert (map Byte (path (info n)) @ parse p, h) (set (routes n))"
    and "set (routes n) \<subseteq> set (routes n')"
proof -
  have "wilds p \<noteq> 0" using assms(2,3) by (cases p) simp_all
  then have w: "w \<noteq> 0" using assms(6,7) by (simp add: byte_zero)
  with assms(1) have l: "insert_loop w p full (Some h) 0 0 n = Inr n'" by (simp add: insertChild_def)
  let ?n0 = "RouterNode ((info n)\<lparr>path := [], handle := None\<rparr>) []"
  obtain f where c: "hd p = CHR '':''" "children n = []"
    "f = (info n)\<lparr>path := [], handle := None, wildChild := True\<rparr>"
    and l0: "insert_loop w p full (Some h) 0 0 ?n0 = Inr (RouterNode f (children n'))"
    and i': "info n' = (info n)\<lparr>wildChild := True\<rparr>"
    by (rule insert_loop_first [OF l w assms(2,3)])
  show "hd p = CHR '':''" by (rule c(1))
  have nw: "no_wildcards (path (info n))" "no_wildcards (indices (info n))" "nType (info n) \<noteq> Param"
    using assms(4) by (cases n, simp)+
  then have ok: "fresh ?n0" "regular ?n0"
    using assms(5) by (simp_all add: fresh_def no_wildcards_def)
  have "insertChild w p full (Some h) ?n0 = Inr (RouterNode f (children n'))"
    using l0 w by (simp add: insertChild_def)
  note new = insertChild_fresh [OF this ok assms(6,7)]
  have "regular (RouterNode f (children n')) \<and> children (RouterNode f (children n')) \<noteq> []"
    by (rule insert_loop_regular [OF l0 ok w]) (use assms(6,7) in simp_all)
  then show "children n' \<noteq> []" by simp
  show "regular n'"
    using new(1) i' c(3) nw(1) by (cases n') simp
  have "routes (RouterNode (info n') (children n')) = own_route (map Byte (path (info n))) (info n') @
      under (map Byte (path (info n))) (routes (RouterNode f (children n')))"
    by (rule under_routes_none [where k = "handle (info n)"]) (simp_all add: i' c(3))
  then have r': "routes n' = own_route (map Byte (path (info n))) (info n') @
      under (map Byte (path (info n))) (routes (RouterNode f (children n')))"
    by (simp only: router_node.collapse)
  have own: "set (own_route (map Byte (path (info n))) (info n')) = set (routes n)"
    using own_route_cong [of "info n'" "info n"] i' c(2) assms(5) by (cases n) simp
  then show "set (routes n) \<subseteq> set (routes n')" unfolding r' set_append by blast
  have "set (under (map Byte (path (info n))) (routes (RouterNode f (children n')))) \<subseteq>
      {(map Byte (path (info n)) @ parse p, h)}"
    using new(2) by (auto simp: under_def simp del: routes.simps)
  with own show "set (routes n') \<subseteq> insert (map Byte (path (info n)) @ parse p, h) (set (routes n))"
    unfolding r' set_append by blast
qed

section \<open>The walk adds one route\<close>

lemma set_under_mono: "set rs \<subseteq> insert (r, h) (set ss) \<Longrightarrow> set (under q rs) \<subseteq> insert (q @ r, h) (set (under q ss))"
  by (auto simp: under_def)

lemma set_under_subset: "set rs \<subseteq> set ss \<Longrightarrow> set (under q rs) \<subseteq> set (under q ss)"
  by (auto simp: under_def)

lemma regular_sub:
  assumes "regular n" and "\<not> wildChild (info n)" and "c \<in> set (children n)"
  shows "regular c"
  using assms by (cases n) (auto simp: list_all_iff)

lemma routes_sub:
  assumes "\<not> wildChild (info n)"
  shows "set (routes n) = set (own_route (map Byte (path (info n))) (info n)) \<union>
    (\<Union>c\<in>set (children n). set (under (map Byte (path (info n))) (routes c)))"
  using assms by (cases n) auto

text \<open>A node whose children are old ones or stand for the new route.\<close>

lemma adds_children:
  assumes "regular n1" and "\<not> wildChild (info n1)" and "same_node (info n1) (info n')"
    and "no_wildcards (indices (info n'))" and "children n' \<noteq> []"
    and "p = path (info n1) @ q" and "q \<noteq> [] \<Longrightarrow> hd q \<noteq> CHR ''*''"
    and new: "\<And>c. c \<in> set (children n') \<Longrightarrow> regular c \<and>
      (set (routes c) \<subseteq> {(parse q, h)} \<or>
       (\<exists>b\<in>set (children n1). set (routes c) \<subseteq> insert (parse q, h) (set (routes b))))"
    and old: "\<And>b. b \<in> set (children n1) \<Longrightarrow> routes b = [] \<or>
      (\<exists>c\<in>set (children n'). set (routes b) \<subseteq> set (routes c))"
  shows "adds n1 p h n'"
proof -
  let ?q = "map Byte (path (info n1))"
  note same = assms(3) [unfolded same_node_def]
  have nw: "no_wildcards (path (info n1))" using assms(1) by (cases n1) simp
  have pp: "parse p = ?q @ parse q" unfolding assms(6) by (rule parse_static_append [OF nw]) (use assms(7) in blast)
  have "regular n'"
    using assms(1,2,4) same new by (cases n1; cases n') (auto simp: list_all_iff)
  moreover have "set (routes n') \<subseteq> insert (parse p, h) (set (routes n1))"
  proof
    fix x assume "x \<in> set (routes n')"
    moreover have nc: "\<not> wildChild (info n')" using same assms(2) by simp
    ultimately consider "x \<in> set (own_route ?q (info n'))"
      | c where "c \<in> set (children n')" "x \<in> set (under ?q (routes c))"
      unfolding routes_sub [OF nc] using same by auto
    then show "x \<in> insert (parse p, h) (set (routes n1))"
    proof cases
      case 1
      then show ?thesis using own_route_cong [of "info n'" "info n1" ?q] same
        unfolding routes_sub [OF assms(2)] by simp
    next
      case 2
      from new [OF 2(1)] consider "set (routes c) \<subseteq> insert (parse q, h) (set [])"
        | b where "b \<in> set (children n1)" "set (routes c) \<subseteq> insert (parse q, h) (set (routes b))"
        by auto
      then show ?thesis
      proof cases
        case 1
        from set_under_mono [OF this, of ?q] 2(2) show ?thesis unfolding pp by auto
      next
        case (2 b)
        from set_under_mono [OF this(2), of ?q] \<open>x \<in> set (under ?q (routes c))\<close> this(1)
        show ?thesis unfolding pp routes_sub [OF assms(2)] by auto
      qed
    qed
  qed
  moreover have "set (routes n1) \<subseteq> set (routes n')"
  proof -
    have nc: "\<not> wildChild (info n')" using same assms(2) by simp
    have "set (under ?q (routes b)) \<subseteq> (\<Union>c\<in>set (children n'). set (under ?q (routes c)))"
      if "b \<in> set (children n1)" for b
      using old [OF that]
    proof
      assume "routes b = []"
      then show ?thesis by (simp only: under_simps) simp
    next
      assume "\<exists>c\<in>set (children n'). set (routes b) \<subseteq> set (routes c)"
      then obtain c where "c \<in> set (children n')" "set (routes b) \<subseteq> set (routes c)" by blast
      with set_under_subset [OF this(2), of ?q] show ?thesis by blast
    qed
    then show ?thesis
      unfolding routes_sub [OF assms(2)] routes_sub [OF nc]
      using own_route_cong [of "info n'" "info n1" ?q] same by auto
  qed
  ultimately show ?thesis using assms(5) by (simp add: adds_def)
qed

lemma add_new_child_adds:
  assumes "add_new_child w q (Some h) n1 = Inr n'" and "regular n1" and "\<not> wildChild (info n1)"
    and "q \<noteq> []" and "p = path (info n1) @ q" and "w = of_nat (wilds q)" and "wilds q < 256"
  shows "adds n1 p h n'"
proof (cases "is_wild (hd q)")
  case True
  have "index_at q 0 = Inr (hd q)" using assms(4) by (simp add: index_at_def hd_conv_nth)
  moreover have "\<not> (hd q \<noteq> CHR '':'' \<and> hd q \<noteq> CHR ''*'')" using True by (auto simp: is_wild_def)
  ultimately have "insertChild w q (fullPath (info n1)) (Some h) n1 = Inr n'"
    using assms(1) by (auto simp: add_new_child_def)
  note new = insertChild_wild [OF this assms(4) True assms(2,3,6,7)]
  have nw: "no_wildcards (path (info n1))" using assms(2) by (cases n1) simp
  have "parse p = map Byte (path (info n1)) @ parse q"
    unfolding assms(5) by (rule parse_static_append [OF nw]) (simp add: new(1))
  with new show ?thesis by (simp add: adds_def)
next
  case False
  have nw: "no_wildcards (indices (info n1))" using assms(2) by (cases n1) simp
  show ?thesis
  proof (rule add_new_child_plain [OF assms(1,4) False assms(6,7)])
    fix d
    assume d: "regular d" "set (routes d) \<subseteq> {(parse q, h)}" "children n' \<noteq> []"
      "same_node (info n1) (info n')" "set (indices (info n')) \<subseteq> insert (hd q) (set (indices (info n1)))"
      and old: "\<And>c. c \<in> set (children n') \<Longrightarrow> c = d \<or> (regular c \<and> routes c = []) \<or>
        (\<exists>b\<in>set (children n1). c = b \<or> c = bump_priority b)"
      and stay: "\<And>b. b \<in> set (children n1) \<Longrightarrow> routes b = [] \<or> (\<exists>c\<in>set (children n'). routes c = routes b)"
    show "adds n1 p h n'"
    proof (rule adds_children [OF assms(2,3) d(4) _ d(3) assms(5)])
      show "no_wildcards (indices (info n'))" using d(5) nw False by (auto simp: no_wildcards_def)
      show "hd q \<noteq> CHR ''*''" using False by (auto simp: is_wild_def)
      fix c assume "c \<in> set (children n')"
      from old [OF this] consider "c = d" | "regular c" "routes c = []"
        | b where "b \<in> set (children n1)" "c = b \<or> c = bump_priority b" by blast
      then show "regular c \<and> (set (routes c) \<subseteq> {(parse q, h)} \<or>
          (\<exists>b\<in>set (children n1). set (routes c) \<subseteq> insert (parse q, h) (set (routes b))))"
      proof cases
        case (3 b)
        have "regular b" by (rule regular_sub [OF assms(2,3) 3(1)])
        with 3(2) have "regular c" "routes c = routes b" by (elim disjE, simp_all)+
        with 3(1) show ?thesis by (simp only: subset_insertI) blast
      qed (use d(1,2) in simp_all)
    next
      fix b assume "b \<in> set (children n1)"
      from stay [OF this] show "routes b = [] \<or> (\<exists>c\<in>set (children n'). set (routes b) \<subseteq> set (routes c))"
        by (metis order_refl)
    qed
  qed
qed


text \<open>The walk keeps the path that its visit leaves a node with; so a node that a slash leads to stays one.\<close>

lemma walk_path:
  assumes "walk w p (Some h) n = Inr n'" and "enter_node w p (Some h) n = Inr (n1, rest)" and "rest \<noteq> []"
    and "w = of_nat (wilds p)" and "wilds p < 256" and "regular n"
  shows "path (info n') = path (info n1)"
proof (cases "wildChild (info n1)")
  case True
  then obtain c2 cs where "n' = RouterNode (info n1) (c2 # cs)" by (rule walk_wild [OF assms(1,2)])
  then show ?thesis by simp
next
  case False
  note n1 = enter_regular [OF assms(2,6,3)]
  have i0: "index_at rest 0 = Inr (hd rest)" using assms(3) by (simp add: index_at_def hd_conv_nth)
  have nt: "nType (info n1) \<noteq> Param" using n1(1) by (cases n1) simp
  note step = assms(1) [unfolded walk.simps [of w p "Some h" n] assms(2)]
  show ?thesis
  proof (cases "indexByte (hd rest) (indices (info n1))")
    case (Some i)
    with step i0 False nt obtain n2 j where inc: "incrementChildPrio i n1 = Inr (n2, j)" "info n' = info n2"
      by (auto simp: go_res Let_def)
    with incrementChildPrio_same(1) [OF inc(1)] show ?thesis by (simp add: same_node_def)
  next
    case None
    with step i0 False nt have a: "add_new_child w rest (Some h) n1 = Inr n'" by (simp add: Let_def)
    show ?thesis
    proof (cases "is_wild (hd rest)")
      case False
      from add_new_child_same [OF a assms(3) this] show ?thesis by (simp add: same_node_def)
    next
      case True
      then have ins: "insertChild w rest (fullPath (info n1)) (Some h) n1 = Inr n'"
        using a i0 by (auto simp: add_new_child_def is_wild_def)
      have "wilds p \<noteq> 0" unfolding n1(3) using assms(3) True by (cases rest) simp_all
      then have w: "w \<noteq> 0" using assms(4,5) by (simp add: byte_zero)
      with ins have "insert_loop w rest (fullPath (info n1)) (Some h) 0 0 n1 = Inr n'" by (simp add: insertChild_def)
      then show ?thesis by (rule insert_loop_first [OF _ w assms(3) True]) simp
    qed
  qed
qed

lemma walk_slashed:
  assumes "walk w p (Some h) n = Inr n'" and "hd p = CHR ''/''" and "regular n"
    and "w = of_nat (wilds p)" and "wilds p < 256"
  shows "slashed n'"
proof -
  obtain n1 rest where e: "enter_node w p (Some h) n = Inr (n1, rest)" "rest \<noteq> []"
    by (rule walk_enter [OF assms(1)])
  note q = walk_path [OF assms(1) e assms(4,5,3)]
  have "p = path (info n1) @ rest" by (rule enter_regular(3) [OF e(1) assms(3) e(2)])
  then have "path (info n1) \<noteq> [] \<Longrightarrow> hd (path (info n1)) = hd p" by (metis hd_append2)
  then show ?thesis using q assms(2) by (auto simp: slashed_def)
qed

text \<open>Below a live parameter the walk goes on at the next slash.\<close>

lemma walk_param:
  assumes "walk w p (Some h) n = Inr n'" and "nType (info n) = Param" and "\<not> wildChild (info n)"
    and "p = path (info n) @ q" and "q \<noteq> [] \<Longrightarrow> hd q = CHR ''/''"
    and "case children n of [] \<Rightarrow> True | [d] \<Rightarrow> regular d \<and> slashed d | _ \<Rightarrow> False"
    and "w = of_nat (wilds q)" and "wilds q < 256"
    and IH: "\<And>d d2. children n = [d] \<Longrightarrow> walk w q (Some h) (bump_priority d) = Inr d2 \<Longrightarrow>
      adds (bump_priority d) q h d2"
  obtains d2 where "q \<noteq> []" and "children n' = [d2]" and "regular d2 \<and> slashed d2"
    and "set (routes d2) \<subseteq> insert (parse q, h) (case children n of [] \<Rightarrow> {} | d # _ \<Rightarrow> set (routes d))"
    and "(case children n of [] \<Rightarrow> {} | d # _ \<Rightarrow> set (routes d)) \<subseteq> set (routes d2)"
    and "same_node (info n) (info n')"
proof -
  have pre: "prefix (path (info n)) p" using assms(4) by simp
  from assms(1) obtain n1 rest where e: "enter_node w p (Some h) n = Inr (n1, rest)" "rest \<noteq> []"
    by (rule walk_enter)
  note k = enter_node_keep [OF e(1) pre]
  have q: "rest = q" using k(1) assms(4) by simp
  with e(2) have ne: "q \<noteq> []" by simp
  with assms(5) have hd: "hd q = CHR ''/''" by simp
  have i0: "index_at rest 0 = Inr (CHR ''/'')" using ne hd by (simp add: q index_at_def hd_conv_nth)
  have f: "\<not> wildChild (info n1)" "nType (info n1) = Param" "info n1 = raise_maxParams w (info n)"
    using k(3) e(2) assms(2,3) by simp_all
  have same: "same_node (info n) (info n')"
    by (rule walk_keeps [OF assms(1) pre]) (use k(1) q hd in \<open>simp add: is_wild_def\<close>)
  note step = assms(1) [unfolded walk.simps [of w p "Some h" n] e(1)]
  show thesis
  proof (cases "children n")
    case (Cons d ds)
    with assms(6) have d: "children n1 = [d]" "ds = []" "regular d \<and> slashed d"
      using k(2) by (simp_all split: list.splits)
    with step f i0 obtain d2 where w: "walk w q (Some h) (bump_priority d) = Inr d2"
      and n': "n' = RouterNode (info n1) [d2]"
      unfolding q by (auto simp: go_res Let_def)
    have "adds (bump_priority d) q h d2" by (rule IH [OF _ w]) (simp add: Cons d(2))
    moreover have "slashed d2" by (rule walk_slashed [OF w hd _ assms(7,8)]) (use d(3) in simp)
    ultimately show thesis using that [OF ne _ _ _ _ same, of d2] n' Cons by (simp add: adds_def)
  next
    case Nil
    then have c: "children n1 = []" using k(2) by simp
    have "indexByte (CHR ''/'') (indices (info n1)) = None"
    proof (rule ccontr)
      assume "indexByte (CHR ''/'') (indices (info n1)) \<noteq> None"
      then obtain i where "indexByte (CHR ''/'') (indices (info n1)) = Some i" by blast
      with step f i0 c show False by (auto simp: go_res Let_def incrementChildPrio_def)
    qed
    with step f i0 c have a: "add_new_child w q (Some h) n1 = Inr n'"
      unfolding q by (simp add: Let_def)
    have nw: "\<not> is_wild (hd q)" using hd by (simp add: is_wild_def)
    show thesis
      by (rule add_new_child_plain [OF a ne nw assms(7,8)])
        (use that [OF ne _ _ _ _ same] c Nil hd in auto)
  qed
qed

lemma parse_param:
  assumes "param_name s" and "t \<noteq> [] \<Longrightarrow> hd t = CHR ''/''"
  shows "parse (s @ t) = PVar (drop 1 s) # parse t"
proof -
  obtain name where s: "s = CHR '':'' # name" and ns: "CHR ''/'' \<notin> set name"
    using assms(1) by (cases s) (auto simp: param_name_def)
  have "segment (name @ t) = name \<and> after_segment (name @ t) = t"
    using ns assms(2) by (cases t) (auto simp: segment_def after_segment_def takeWhile_append dropWhile_append)
  then show ?thesis by (simp add: s)
qed

lemma param_wilds: "param_name s \<Longrightarrow> wilds s = 1"
  using wilds_0 [of "tl s"] by (cases s) (auto simp: param_name_def is_wild_def)


text \<open>The wildcard child of a regular node: a parameter without a name, which no lookup reaches,
  or one with a name and at most one child.\<close>

lemma regular_wild:
  assumes "regular n" and "wildChild (info n)" and "children n = c # cs" and "nType (info c) \<noteq> CatchAll"
  shows "nType (info c) = Param"
    and "path (info c) \<noteq> [] \<Longrightarrow> param_name (path (info c)) \<and> \<not> wildChild (info c) \<and>
      (case children c of [] \<Rightarrow> True | [d] \<Rightarrow> regular d \<and> slashed d | _ \<Rightarrow> False)"
  using assms by (cases n; cases c; simp)+

lemma regular_param:
  assumes "regular n" and "wildChild (info n)" and "children n = c # cs"
    and "nType (info c) = Param" and "nType (info c') = Param"
    and "path (info c') \<noteq> [] \<Longrightarrow> param_name (path (info c')) \<and> \<not> wildChild (info c') \<and>
      (case children c' of [] \<Rightarrow> True | [d] \<Rightarrow> regular d \<and> slashed d | _ \<Rightarrow> False)"
  shows "regular (RouterNode (info n) (c' # cs))"
  using assms by (cases n; cases c; cases c') simp

lemma routes_param:
  assumes "wildChild (info n)" and "children n = c # cs" and "nType (info c) = Param"
  defines "q \<equiv> map Byte (path (info n)) @ [PVar (drop 1 (path (info c)))]"
  shows "routes n = own_route (map Byte (path (info n))) (info n) @
    (if path (info c) = [] then [] else own_route q (info c) @
      (case children c of [] \<Rightarrow> [] | d # _ \<Rightarrow> under q (routes d)))"
  using assms(1-3) unfolding q_def by (cases n; cases c) (simp split: list.split)

theorem walk_sound:
  assumes "walk w p (Some h) n = Inr n'" and "regular n" and "w = of_nat (wilds p)" and "wilds p < 256"
  shows "adds n p h n'"
  using assms
proof (induction "walk_measure n" arbitrary: w p n n' rule: less_induct)
  case less
  obtain n1 rest where e: "enter_node w p (Some h) n = Inr (n1, rest)" "rest \<noteq> []"
    using less.prems(1) by (rule walk_enter)
  note n1 = enter_regular [OF e(1) less.prems(2) e(2)]
  have nw: "no_wildcards (path (info n1))" "no_wildcards (indices (info n1))" "nType (info n1) \<noteq> Param"
    using n1(1) by (cases n1, simp)+
  then have "wilds (path (info n1)) = 0" by (simp add: wilds_0)
  then have wr: "w = of_nat (wilds rest)" "wilds rest < 256"
    using less.prems(3,4) unfolding n1(3) by simp_all
  have "adds n1 p h n'"
  proof (cases "wildChild (info n1)")
    case False
    note step = less.prems(1) [unfolded walk.simps [of w p "Some h" n] e(1)]
    have i0: "index_at rest 0 = Inr (hd rest)" using e(2) by (simp add: index_at_def hd_conv_nth)
    show ?thesis
    proof (cases "indexByte (hd rest) (indices (info n1))")
      case None
      with step False i0 nw(3) have "add_new_child w rest (Some h) n1 = Inr n'" by (simp add: Let_def)
      then show ?thesis by (rule add_new_child_adds [OF _ n1(1) False e(2) n1(3) wr])
    next
      case (Some i)
      with step False i0 nw(3) obtain n2 j c2 where inc: "incrementChildPrio i n1 = Inr (n2, j)"
        and w: "walk w rest (Some h) (children n2 ! j) = Inr c2"
        and n': "n' = RouterNode (info n2) ((children n2)[j := c2])"
        by (auto simp: go_res Let_def)
      note ch = incrementChildPrio_child [OF inc] and same = incrementChildPrio_same [OF inc]
      let ?b = "children n1 ! i"
      have b: "?b \<in> set (children n1)" using incrementChildPrio_Inr(1) [OF inc] by simp
      note rb = regular_sub [OF n1(1) False b]
      have "walk_measure (children n2 ! j) < walk_measure n"
        by (rule walk_measure_less, rule walk_decreases_index [OF e(1) i0 Some inc])
      from less.hyps [OF this w _ wr] rb have c2: "regular c2"
        "set (routes c2) \<subseteq> insert (parse rest, h) (set (routes ?b))" "set (routes ?b) \<subseteq> set (routes c2)"
        by (simp_all add: ch(1) adds_def)
      have "hd rest \<in> set (indices (info n1))" using indexByte_SomeD [OF Some] by (metis nth_mem)
      then have star: "hd rest \<noteq> CHR ''*''" using nw(2) by (auto simp: no_wildcards_def is_wild_def)
      show ?thesis
      proof (rule adds_children [OF n1(1) False _ _ _ n1(3) star])
        show "same_node (info n1) (info n')" using same(1) by (simp add: n')
        show "no_wildcards (indices (info n'))" using same(2) nw(2) by (auto simp: n' no_wildcards_def)
        show "children n' \<noteq> []" using ch(2) by (auto simp: n')
        fix c assume "c \<in> set (children n')"
        then have "c = c2 \<or> c \<in> set (children n2)" using set_update_subset_insert by (fastforce simp: n')
        then consider "c = c2" | "c = bump_priority ?b" | "c \<in> set (children n1)" using same(3) by blast
        then show "regular c \<and> (set (routes c) \<subseteq> {(parse rest, h)} \<or>
            (\<exists>b\<in>set (children n1). set (routes c) \<subseteq> insert (parse rest, h) (set (routes b))))"
        proof cases
          case 1
          with c2 b show ?thesis by blast
        next
          case 2
          with rb b show ?thesis by (simp only: regular_bump routes_bump) blast
        next
          case 3
          with regular_sub [OF n1(1) False 3] show ?thesis by blast
        qed
      next
        fix b assume "b \<in> set (children n1)"
        with same(4) obtain c where c: "c \<in> set (children n2)" "routes c = routes b" by fastforce
        have "c = children n2 ! j \<or> c \<in> set (children n')"
          using in_set_update [OF c(1), of j c2] by (simp add: n')
        moreover have "c2 \<in> set (children n')" using set_update_memI [OF ch(2), of c2] by (simp add: n')
        ultimately show "routes b = [] \<or> (\<exists>c\<in>set (children n'). set (routes b) \<subseteq> set (routes c))"
          using c(2) c2(3) ch(1) by (metis order_refl routes_bump)
      qed
    qed
  next
    case wild: True
    obtain c cs c2 where c: "children n1 = c # cs" "nType (info c) \<noteq> CatchAll"
      and rest: "rest = path (info c) @ drop (length (path (info c))) rest"
      and sl: "drop (length (path (info c))) rest \<noteq> [] \<longrightarrow> hd (drop (length (path (info c))) rest) = CHR ''/''"
      and w: "walk (w - 1) rest (Some h) (visited w c) = Inr c2" and n': "n' = RouterNode (info n1) (c2 # cs)"
      by (rule walk_wild [OF less.prems(1) e(1) wild])
    note slash = sl [rule_format]
    note pc = regular_wild [OF n1(1) wild c]
    show ?thesis
    proof (cases "path (info c) = []")
      case True
      with slash e(2) have "\<not> is_wild (hd rest)" by (simp add: is_wild_def)
      with True have "same_node (info c) (info c2)"
        using walk_keeps [OF w] same_node_def by (simp add: same_node_def)
      then have c2: "path (info c2) = []" "nType (info c2) = Param"
        using True pc(1) by (simp_all add: same_node_def)
      have "regular n'" unfolding n' by (rule regular_param [OF n1(1) wild c(1) pc(1) c2(2)]) (simp add: c2)
      moreover have "routes n' = routes n1"
        using routes_param [OF wild c(1) pc(1)] routes_param [of n' c2 cs] wild True c2 by (simp add: n')
      ultimately show ?thesis by (auto simp: adds_def n')
    next
      case False
      from pc(2) [OF False] have p: "param_name (path (info c))" "\<not> wildChild (info c)"
        "case children c of [] \<Rightarrow> True | [d] \<Rightarrow> regular d \<and> slashed d | _ \<Rightarrow> False" by simp_all
      let ?r = "drop (length (path (info c))) rest"
      have wq: "wilds rest = Suc (wilds ?r)" using param_wilds [OF p(1)] arg_cong [OF rest, of wilds] by simp
      then have w1: "w - 1 = of_nat (wilds ?r)" "wilds ?r < 256" using wr by simp_all
      have IH: "adds (bump_priority d) ?r h d2"
        if "children (visited w c) = [d]" "walk (w - 1) ?r (Some h) (bump_priority d) = Inr d2" for d d2
      proof (rule less.hyps [OF _ that(2) _ w1])
        have "nodes d < nodes c" using that(1) nodes_unfold [of c] by simp
        also have "\<dots> < nodes n" by (rule walk_decreases_wild [OF e(1) wild c(1)])
        finally show "walk_measure (bump_priority d) < walk_measure n" by (intro walk_measure_less) simp
        show "regular (bump_priority d)" using that(1) p(3) by simp
      qed
      obtain d2 where d2: "?r \<noteq> []" "children c2 = [d2]" "regular d2 \<and> slashed d2"
        and sub: "set (routes d2) \<subseteq> insert (parse ?r, h) (case children c of [] \<Rightarrow> {} | d # _ \<Rightarrow> set (routes d))"
        and sup: "(case children c of [] \<Rightarrow> {} | d # _ \<Rightarrow> set (routes d)) \<subseteq> set (routes d2)"
        and same: "same_node (info (visited w c)) (info c2)"
        by (rule walk_param [OF w _ _ _ slash _ w1 IH]) (use pc(1) p rest in simp_all)
      have c2: "path (info c2) = path (info c)" "nType (info c2) = Param" "\<not> wildChild (info c2)"
        "handle (info c2) = handle (info c)"
        using same pc(1) p(2) by (simp_all add: same_node_def)
      have "regular n'"
        unfolding n' by (rule regular_param [OF n1(1) wild c(1) pc(1) c2(2)]) (simp add: c2 p(1) d2)
      moreover have "set (routes n1) \<subseteq> set (routes n') \<and> set (routes n') \<subseteq> insert (parse p, h) (set (routes n1))"
      proof -
        let ?p = "map Byte (path (info n1))"
        let ?q = "?p @ [PVar (drop 1 (path (info c)))]"
        have "hd rest \<noteq> CHR ''*''"
        proof -
          have "hd rest = hd (path (info c))" by (subst rest) (simp add: False)
          then show ?thesis using p(1) by (simp add: param_name_def)
        qed
        then have "parse p = ?p @ parse rest" unfolding n1(3) by (intro parse_static_append nw(1)) simp
        also have "parse rest = PVar (drop 1 (path (info c))) # parse ?r"
          by (subst rest) (rule parse_param [OF p(1) slash])
        finally have pp: "parse p = ?q @ parse ?r" by simp
        have "set (under ?q (routes d2)) \<subseteq>
            insert (parse p, h) (set (case children c of [] \<Rightarrow> [] | d # _ \<Rightarrow> under ?q (routes d)))"
        proof (cases "children c")
          case Nil
          with sub set_under_mono [of "routes d2" "parse ?r" h "[]" ?q] show ?thesis unfolding pp by simp
        next
          case (Cons d ds)
          with sub set_under_mono [of "routes d2" "parse ?r" h "routes d" ?q] show ?thesis
            unfolding pp by (simp only: list.case)
        qed
        moreover have "set (case children c of [] \<Rightarrow> [] | d # _ \<Rightarrow> under ?q (routes d)) \<subseteq> set (under ?q (routes d2))"
        proof (cases "children c")
          case (Cons d ds)
          with sup set_under_subset [of "routes d" "routes d2" ?q] show ?thesis by (simp only: list.case)
        qed simp
        moreover have "routes n' = own_route ?p (info n1) @ own_route ?q (info c) @ under ?q (routes d2)"
          using routes_param [of n' c2 cs] wild c2 d2(2) False own_route_cong [OF c2(4)] by (simp add: n')
        ultimately show ?thesis
          using routes_param [OF wild c(1) pc(1)] False by auto
      qed
      moreover have "children n' \<noteq> []" by (simp add: n')
      ultimately show ?thesis unfolding adds_def by blast
    qed
  qed
  then show ?case unfolding adds_def n1(2) .
qed


section \<open>Any sequence of registrations\<close>

text \<open>The root: it stays empty until the first registration.\<close>

definition grown :: "'h router_node \<Rightarrow> bool" where
  "grown t \<longleftrightarrow> regular t \<and> (path (info t) = [] \<and> children t = [] \<longrightarrow> fresh t)"

lemma grown_zero: "grown zero_node"
  by (simp add: grown_def zero_node_def zero_fields_def fresh_def no_wildcards_def)

lemma addRoute_sound:
  assumes "addRoute p (Some h) t = Inr t'" and "grown t" and "p \<noteq> []" and "wilds p \<le> 255"
  shows "grown t'" and "set (routes t) \<subseteq> set (routes t')"
    and "set (routes t') \<subseteq> insert (parse p, h) (set (routes t))"
proof -
  let ?t = "RouterNode ((info t)\<lparr>fullPath := p, priority := priority (info t) + 1\<rparr>) (children t)"
  have t: "regular ?t" "routes ?t = routes t"
    using assms(2) routes_fields [of "info ?t" "info t" "children t"]
    by (cases t, simp add: grown_def, cases t, simp del: routes.simps)
  have w: "wildcardNum p = of_nat (wilds p)" "wilds p < 256"
    using wildcardNum_exact [OF assms(4)] assms(4) by simp_all
  have "grown t' \<and> set (routes t) \<subseteq> set (routes t') \<and> set (routes t') \<subseteq> insert (parse p, h) (set (routes t))"
  proof (cases "path (info t) = [] \<and> children t = []")
    case True
    with assms(1) obtain n where n: "insertChild (wildcardNum p) p p (Some h) ?t = Inr n"
      and t': "t' = RouterNode ((info n)\<lparr>nType := Root\<rparr>) (children n)"
      by (auto simp: addRoute_def Let_def go_res)
    have fr: "fresh ?t" using True assms(2) by (simp add: grown_def fresh_def)
    note new = insertChild_fresh [OF n fr t(1) w]
    have "path (info n) \<noteq> [] \<or> children n \<noteq> []"
    proof (cases "wildcardNum p = 0")
      case True
      with n assms(3) show ?thesis by (auto simp: insertChild_def)
    next
      case False
      with n have "insert_loop (wildcardNum p) p p (Some h) 0 0 ?t = Inr n" by (simp add: insertChild_def)
      from insert_loop_regular [OF this fr t(1) False] w show ?thesis by simp
    qed
    moreover have "routes t' = routes n"
      unfolding t' using routes_fields [of "(info n)\<lparr>nType := Root\<rparr>" "info n" "children n"] by simp
    moreover have "regular t'" unfolding t' using new(1) by (cases n) simp
    moreover have "routes t = []" using t(2) fresh_routes [OF fr] by simp
    ultimately show ?thesis using new(2) by (auto simp: grown_def t')
  next
    case False
    with assms(1) have "walk (wildcardNum p) p (Some h) ?t = Inr t'"
      by (auto simp: addRoute_def Let_def)
    from walk_sound [OF this t(1) w] show ?thesis unfolding t(2) adds_def grown_def by blast
  qed
  then show "grown t'" "set (routes t) \<subseteq> set (routes t')"
    "set (routes t') \<subseteq> insert (parse p, h) (set (routes t))" by simp_all
qed

definition registrable :: "(string \<times> 'h list) list \<Rightarrow> bool" where
  "registrable rs \<longleftrightarrow> list_all (\<lambda>(r, h). r \<noteq> [] \<and> wilds r \<le> 255) rs"

lemma insert_all_sound:
  assumes "insert_all (\<lambda>p h. addRoute p (Some h)) rs t = Inr t'" and "grown t" and "registrable rs"
  shows "grown t' \<and> set (routes t) \<subseteq> set (routes t') \<and>
    set (routes t') \<subseteq> (\<lambda>(r, h). (parse r, h)) ` set rs \<union> set (routes t)"
  using assms
proof (induction rs arbitrary: t)
  case (Cons x rs)
  obtain r h where x: "x = (r, h)" by fastforce
  with Cons.prems(1) obtain t1 where t1: "addRoute r (Some h) t = Inr t1"
    "insert_all (\<lambda>p h. addRoute p (Some h)) rs t1 = Inr t'" by (auto simp: rbind_eq_Inr)
  have r: "r \<noteq> []" "wilds r \<le> 255" "registrable rs" using Cons.prems(3) x by (simp_all add: registrable_def)
  note a = addRoute_sound [OF t1(1) Cons.prems(2) r(1,2)]
  from Cons.IH [OF t1(2) a(1) r(3)] a(2,3) show ?case by (auto simp: x)
qed simp

text \<open>So a chain that a lookup returns was registered, with a route that fits the path.\<close>

lemma lookup_registered:
  assumes "insert_all (\<lambda>p h. addRoute p (Some h)) rs zero_node = Inr t" and "registrable rs"
    and "getValue t pth = Inr (Some h, ps, tsr)"
  shows "\<exists>r. (r, h) \<in> set rs \<and> fill (parse r) (params_list ps) = Some pth"
proof -
  have "routes (zero_node :: 'a router_node) = []" by (simp add: zero_node_def zero_fields_def own_route_def)
  with insert_all_sound [OF assms(1) grown_zero assms(2)]
  have "set (routes t) \<subseteq> (\<lambda>(r, h). (parse r, h)) ` set rs" by simp
  moreover have "found t pth None h ps" using assms(3) unfolding getValue_def by (rule getValue_loop_found)
  ultimately show ?thesis by (fastforce simp: found_def params_list_def)
qed

text \<open>C5: no registration takes a route away from the tree or changes one: whatever was registered before,
  with parameters and catch-alls in any order, and however the nodes are split and moved, the routes that
  a tree stands for are still there, with their handler chains, after any further registrations that
  return, and the only others are those registered.\<close>

theorem registrations_only_add:
  assumes "insert_all (\<lambda>p h. addRoute p (Some h)) rs zero_node = Inr t" and "registrable rs"
    and "insert_all (\<lambda>p h. addRoute p (Some h)) ss t = Inr t'" and "registrable ss"
  shows "set (routes t) \<subseteq> set (routes t') \<and>
    set (routes t') \<subseteq> set (routes t) \<union> {(parse r, h) |r h. (r, h) \<in> set ss}"
proof -
  have "grown t" using insert_all_sound [OF assms(1) grown_zero assms(2)] by simp
  from insert_all_sound [OF assms(3) this assms(4)] show ?thesis by fastforce
qed

theorem registrations_only_add_witness:
  "\<exists>t t'. insert_all (\<lambda>p h. addRoute p (Some h)) [(''/u/:id/x'', [1::nat]), (''/u/:id/y'', [2])] zero_node = Inr t \<and>
     insert_all (\<lambda>p h. addRoute p (Some h)) [(''/f/*rest'', [3])] t = Inr t' \<and>
     set (routes t) = {([Byte CHR ''/'', Byte CHR ''u'', Byte CHR ''/'', PVar ''id'', Byte CHR ''/'', Byte CHR ''y''], [2])} \<and>
     set (routes t) \<subseteq> set (routes t') \<and> set (routes t') \<subseteq> set (routes t) \<union> {(parse ''/f/*rest'', [3])}"
proof -
  let ?ins = "insert_all (\<lambda>p h. addRoute p (Some h))"
  let ?rs = "[(''/u/:id/x'', [1::nat]), (''/u/:id/y'', [2])]" and ?ss = "[(''/f/*rest'', [3::nat])]"
  have "rbind (?ins ?rs zero_node) (\<lambda>t. rbind (?ins ?ss t) (\<lambda>_. Inr (routes t))) =
      Inr [([Byte CHR ''/'', Byte CHR ''u'', Byte CHR ''/'', PVar ''id'', Byte CHR ''/'', Byte CHR ''y''], [2])]"
    by code_simp
  then obtain t t' where t: "?ins ?rs zero_node = Inr t" "?ins ?ss t = Inr t'"
    and r: "routes t = [([Byte CHR ''/'', Byte CHR ''u'', Byte CHR ''/'', PVar ''id'', Byte CHR ''/'', Byte CHR ''y''], [2])]"
    unfolding rbind_eq_Inr by auto
  have "registrable ?rs" "registrable ?ss" by code_simp+
  from registrations_only_add [OF t(1) this(1) t(2) this(2)] have
    "set (routes t) \<subseteq> set (routes t') \<and> set (routes t') \<subseteq> set (routes t) \<union> {(parse ''/f/*rest'', [3])}"
    by simp
  with t r show ?thesis by auto
qed

end
