(* ===== verification/EngineFacts.thy ===== *)
theory EngineFacts
  imports Engine TreeSound
begin

text \<open>
  What the engine's parts give together: the pool's contexts, the routes that \<open>init\<close> makes of the
  blueprint's lists, and the requests that no route or an interceptor decides.
\<close>

section \<open>Contexts from the pool\<close>

definition pool_ok :: "'v ctx \<Rightarrow> bool" where
  "pool_ok c \<longleftrightarrow> index c = 0 \<and> abortIndex c = 0 \<and> \<not> matched (shared c) \<and> \<not> escape (shared c) \<and>
     status (shared c) = 0 \<and> \<not> written (shared c)"

definition with_items :: "(string \<rightharpoonup> 'v) option \<Rightarrow> 'v ctx" where
  "with_items m = fresh_context\<lparr>shared := (shared fresh_context)\<lparr>items := m\<rparr>\<rparr>"

lemma pool_ok_with_items: "pool_ok (with_items m)"
  by (simp add: pool_ok_def with_items_def fresh_context_def)

lemma ServeHTTP_pools:
  assumes "ServeHTTP env k e r c = Done (Some c') c1"
  shows "pool_ok c'" and "items (shared c') = items (shared c1)"
    and "ctx_params (shared c') = ctx_params (shared c1)" and "ctx_fullPath (shared c') = ctx_fullPath (shared c1)"
  using assms by (auto simp: ServeHTTP_def Let_def pool_ok_def reset_def split: sum.splits outcome.splits if_splits)

text \<open>A new context that has the fields which \<open>reset\<close> and the next request's writer and request leave alone.\<close>

definition leftover :: "(string \<rightharpoonup> 'v) option \<Rightarrow> params_slice \<Rightarrow> string \<Rightarrow> 'v ctx" where
  "leftover m ps full = fresh_context\<lparr>shared := (shared fresh_context)
     \<lparr>items := m, ctx_params := ps, ctx_fullPath := full\<rparr>\<rparr>"

lemma ServeHTTP_leftover:
  assumes "pool_ok c"
  shows "ServeHTTP env k e r c =
    ServeHTTP env k e r (leftover (items (shared c)) (ctx_params (shared c)) (ctx_fullPath (shared c)))"
proof -
  obtain s i a where c: "c = \<lparr>shared = s, index = i, abortIndex = a\<rparr>" by (cases c)
  obtain mt es st wr it rq w ps fp where s: "s = \<lparr>matched = mt, escape = es, status = st, written = wr,
      items = it, ctx_request = rq, writer = w, ctx_params = ps, ctx_fullPath = fp\<rparr>" by (cases s)
  obtain m where m: "m = Match (RouterOf e) \<lparr>matched = False, escape = False, status = 0, written = False,
      items = it, ctx_request = r, writer = new_response, ctx_params = ps, ctx_fullPath = fp\<rparr>" by blast
  show ?thesis
  proof (cases m)
    case (Inl p)
    then show ?thesis
      using assms m [symmetric] by (simp add: c s pool_ok_def ServeHTTP_def leftover_def fresh_context_def Let_def)
  next
    case (Inr x)
    then show ?thesis
      using assms m [symmetric]
      by (cases x) (simp add: c s pool_ok_def ServeHTTP_def leftover_def fresh_context_def Let_def)
  qed
qed

lemma ServeHTTP_pool_ok:
  assumes "pool_ok c" and "RouterOf e (rq_method r) = Some n" and "getValue n (rq_path r) = Inr x"
  shows "ServeHTTP env k e r c = ServeHTTP env k e r (with_items (items (shared c)))"
proof -
  obtain s i a where c: "c = \<lparr>shared = s, index = i, abortIndex = a\<rparr>" by (cases c)
  obtain mt es st wr it rq w ps fp where s: "s = \<lparr>matched = mt, escape = es, status = st, written = wr,
      items = it, ctx_request = rq, writer = w, ctx_params = ps, ctx_fullPath = fp\<rparr>" by (cases s)
  obtain g q tsr where x: "x = (g, q, tsr)" by (cases x)
  show ?thesis
    using assms by (simp add: c s x pool_ok_def ServeHTTP_def Match_def with_items_def fresh_context_def Let_def)
qed

text \<open>An engine with one route, and the same with its tree, to apply the properties to.\<close>

definition sample_engine :: "(nat, nat) engine" where
  "sample_engine = \<lparr>world = \<lparr>blueprints = [NewBluePrint\<lparr>methodsTree := [''GET'' \<mapsto>
       [\<lparr>node_path = ''/a'', handles = \<lparr>arr = 0, len = 1, cap = 1\<rparr>, blueprint = 0\<rparr>]]\<rparr>],
       arrays = [[Some Return]]\<rparr>,
     own = 0, RouterOf = Map.empty, NotFoundHandle = HandleNotFound, interceptors = []\<rparr>"

definition sample_tree :: "(nat, nat) handleFuncNode option router_node" where
  "sample_tree = RouterNode (zero_fields\<lparr>path := ''/a'',
     handle := Some [Some \<lparr>HandleFunc = Return, BluePrint = 0\<rparr>]\<rparr>) []"

definition request :: "string \<Rightarrow> string \<Rightarrow> wire" where
  "request meth pth = get_request\<lparr>rq_method := meth, rq_path := pth\<rparr>"

lemma request_simps [simp]: "rq_method (request meth pth) = meth" "rq_path (request meth pth) = pth"
  by (simp_all add: request_def)

definition plain_env :: "(nat, nat) env" where
  "plain_env = \<lparr>json = (\<lambda>_. None), xml = (\<lambda>_. None), sprintf = (\<lambda>f _. f), has_logger = (\<lambda>_. True)\<rparr>"

definition running_engine :: "(nat, nat) engine" where
  "running_engine = sample_engine\<lparr>RouterOf := [''GET'' \<mapsto> sample_tree]\<rparr>"

lemma sample_lookup: "getValue sample_tree ''/a'' =
    Inr (Some [Some \<lparr>HandleFunc = Return, BluePrint = 0\<rparr>], None, False)"
  by (simp add: getValue_def sample_tree_def getValue_loop.simps zero_fields_def)

lemma running_engine_simps:
  "RouterOf running_engine ''GET'' = Some sample_tree" "RouterOf running_engine ''PUT'' = None"
  "NotFoundHandle running_engine = HandleNotFound" "interceptors running_engine = []"
  by (simp_all add: running_engine_def sample_engine_def)

lemma pool_ok_fresh: "pool_ok fresh_context"
  by (simp add: pool_ok_def fresh_context_def)

text \<open>C30: a context that \<open>ServeHTTP\<close> puts back serves a later request, of any engine, as a new one would
  that has been given the items, the path parameters and the full path of the earlier request.  If the later
  engine has a tree for the later request's method, and the lookup in it returns, the parameters and the full
  path are set anew, and what leaks from one request to another is the map of the items alone.\<close>

theorem pooled_context_leaks_items:
  assumes "ServeHTTP env k e r c = Done (Some c') c1"
  defines "s \<equiv> shared c1"
  shows "ServeHTTP env' k' e' r' c' = ServeHTTP env' k' e' r' (leftover (items s) (ctx_params s) (ctx_fullPath s)) \<and>
    ((case RouterOf e' (rq_method r') of None \<Rightarrow> False | Some n \<Rightarrow> \<not> panics (getValue n (rq_path r'))) \<longrightarrow>
      ServeHTTP env' k' e' r' c' = ServeHTTP env' k' e' r' (with_items (items s)))"
proof -
  note put = ServeHTTP_pools [OF assms(1), folded s_def]
  have "ServeHTTP env' k' e' r' c' = ServeHTTP env' k' e' r' (leftover (items s) (ctx_params s) (ctx_fullPath s))"
    using ServeHTTP_leftover [OF put(1), of env' k' e' r'] put(2-4) by simp
  moreover have "ServeHTTP env' k' e' r' c' = ServeHTTP env' k' e' r' (with_items (items s))"
    if "RouterOf e' (rq_method r') = Some n" "getValue n (rq_path r') = Inr x" for n x
    using ServeHTTP_pool_ok [OF put(1) that] put(2) by simp
  ultimately show ?thesis by (auto simp: panics_iff split: option.splits)
qed

theorem pooled_context_leaks_items_witness:
  "\<exists>c' c1. ServeHTTP plain_env 2 running_engine (request ''GET'' ''/a'') (with_items (Some [''k'' \<mapsto> 5])) = Done (Some c') c1 \<and>
     ServeHTTP plain_env 2 running_engine (request ''GET'' ''/a'') c' =
     ServeHTTP plain_env 2 running_engine (request ''GET'' ''/a'') (with_items (Some [''k'' \<mapsto> 5]))"
proof -
  let ?c = "with_items (Some [''k'' \<mapsto> (5 :: nat)])"
  have two: "\<not> (2 :: 8 word) \<le> 1" by (simp add: word_le_nat_alt)
  obtain c' c1 where s: "ServeHTTP plain_env (Suc (Suc 0)) running_engine (request ''GET'' ''/a'') ?c = Done (Some c') c1"
    and i: "items (shared c1) = Some [''k'' \<mapsto> 5]"
    using two by (simp add: ServeHTTP_def Match_def running_engine_simps sample_lookup with_items_def
        fresh_context_def start_def NextFn_def IsAborted_def node_at_def index_at_def finish_ctx_def
        finish_def group_for_def Let_def)
  have "RouterOf running_engine (rq_method (request ''GET'' ''/a'')) = Some sample_tree"
    "getValue sample_tree (rq_path (request ''GET'' ''/a'')) =
      Inr (Some [Some \<lparr>HandleFunc = Return, BluePrint = 0\<rparr>], None, False)"
    by (simp_all add: running_engine_simps sample_lookup)
  then have "case RouterOf running_engine (rq_method (request ''GET'' ''/a'')) of None \<Rightarrow> False
      | Some n \<Rightarrow> \<not> panics (getValue n (rq_path (request ''GET'' ''/a'')))"
    by simp
  with pooled_context_leaks_items [OF s, of plain_env "Suc (Suc 0)" running_engine "request ''GET'' ''/a''"]
  have "ServeHTTP plain_env (Suc (Suc 0)) running_engine (request ''GET'' ''/a'') c' =
      ServeHTTP plain_env (Suc (Suc 0)) running_engine (request ''GET'' ''/a'') (with_items (items (shared c1)))" by blast
  with s i show ?thesis by (simp add: numeral_2_eq_2)
qed

section \<open>init\<close>

definition same_slices :: "('s, 'h) world \<Rightarrow> ('s, 'h) world \<Rightarrow> bool" where
  "same_slices w w' \<longleftrightarrow> blueprints w' = blueprints w \<and>
     (\<forall>t. slice_ok (arrays w) t \<longrightarrow> contents (arrays w') t = contents (arrays w) t \<and> slice_ok (arrays w') t)"

lemma same_slices_refl: "same_slices w w"
  by (simp add: same_slices_def)

lemma same_slices_trans: "same_slices w w1 \<Longrightarrow> same_slices w1 w2 \<Longrightarrow> same_slices w w2"
  by (auto simp: same_slices_def)

lemma same_slices_bp: "same_slices w w' \<Longrightarrow> bp w' = bp w \<and> nodes_of w' = nodes_of w"
  by (auto simp: same_slices_def bp_def nodes_of_def fun_eq_iff)

definition own_middleware :: "('s, 'v) engine \<Rightarrow> slice" where
  "own_middleware e = middleware (bp (world e) (own e))"

text \<open>The path and the group that \<open>init\<close> registers for a route.\<close>

definition route_of :: "('s, 'v) engine \<Rightarrow> handleNode \<Rightarrow> string \<times> ('v, nat) group" where
  "route_of e n = (node_path n,
     map (to_node (blueprint n)) (contents (arrays (world e)) (own_middleware e) @ chain_of (world e) n))"

definition ready :: "(nat \<Rightarrow> nat \<Rightarrow> nat) \<Rightarrow> ('s, 'v) engine \<Rightarrow> bool" where
  "ready grow e \<longleftrightarrow> grows grow \<and> slice_ok (arrays (world e)) (own_middleware e) \<and>
     cap (own_middleware e) \<le> len (own_middleware e)"

definition tree_of :: "('s, 'v) engine \<Rightarrow> string \<Rightarrow> ('v, nat) handleFuncNode option router_node" where
  "tree_of e m = (case RouterOf e m of None \<Rightarrow> zero_node | Some n \<Rightarrow> n)"

text \<open>What a step of \<open>init\<close> leaves alone.\<close>

definition kept :: "('s, 'v) engine \<Rightarrow> ('s, 'v) engine \<Rightarrow> bool" where
  "kept e e' \<longleftrightarrow> own e' = own e \<and> same_slices (world e) (world e')"

lemma kept_trans: "kept e e1 \<Longrightarrow> kept e1 e2 \<Longrightarrow> kept e e2"
  by (auto simp: kept_def intro: same_slices_trans)

lemma kept_refl: "kept e e"
  by (simp add: kept_def same_slices_refl)

lemma kept_facts:
  assumes "kept e e'"
  shows "own_middleware e' = own_middleware e" and "ready grow e \<Longrightarrow> ready grow e'"
    and "nodes_of (world e') (own e') m = nodes_of (world e) (own e) m"
    and "ready grow e \<Longrightarrow> slice_ok (arrays (world e)) (handles n) \<Longrightarrow>
      slice_ok (arrays (world e')) (handles n) \<and> route_of e' n = route_of e n"
proof -
  have s: "same_slices (world e) (world e')" "own e' = own e" using assms by (simp_all add: kept_def)
  note b = same_slices_bp [OF s(1)]
  show mw: "own_middleware e' = own_middleware e" by (simp add: own_middleware_def s(2) b)
  show "ready grow e \<Longrightarrow> ready grow e'" using s(1) by (simp add: ready_def mw same_slices_def)
  show "nodes_of (world e') (own e') m = nodes_of (world e) (own e) m" by (simp add: s(2) b)
  show "ready grow e \<Longrightarrow> slice_ok (arrays (world e)) (handles n) \<Longrightarrow>
      slice_ok (arrays (world e')) (handles n) \<and> route_of e' n = route_of e n"
    using s(1) by (simp add: route_of_def mw chain_of_def same_slices_def ready_def)
qed

lemma init_node_step:
  assumes "ready grow e" and "slice_ok (arrays (world e)) (handles n)" and "init_node grow m n e = Inr e'"
  shows "kept e e'" and "\<forall>m'. m' \<noteq> m \<longrightarrow> RouterOf e' m' = RouterOf e m'"
    and "RouterOf e' m = Some (tree_of e' m)"
    and "addRoute (fst (route_of e n)) (Some (snd (route_of e n))) (tree_of e m) = Inr (tree_of e' m)"
proof -
  let ?w = "world e" and ?mw = "own_middleware e"
  obtain s mem where sm: "slice_append grow ?mw (contents (arrays ?w) (handles n)) (arrays ?w) = (s, mem)"
    by fastforce
  have r: "slice_ok (arrays ?w) ?mw" "grows grow" "cap ?mw \<le> len ?mw"
    using assms(1) by (simp_all add: ready_def)
  have c: "contents mem s = contents (arrays ?w) ?mw @ chain_of ?w n"
    using slice_append_contents(1) [OF r(1) sm r(2)] by (simp add: chain_of_def)
  from assms(3) obtain t where t: "Insert m (node_path n)
      (Some (map (to_node (blueprint n)) (contents mem s))) (RouterOf e) = Inr t"
    and e': "e' = e\<lparr>world := ?w\<lparr>arrays := mem\<rparr>, RouterOf := t\<rparr>"
    using sm by (auto simp: init_node_def Let_def rbind_eq_Inr own_middleware_def)
  note ins = Insert_frame_lemma [OF t]
  show "kept e e'"
    using slice_append_full [OF sm r(3)] by (simp add: kept_def e' same_slices_def)
  show "\<forall>m'. m' \<noteq> m \<longrightarrow> RouterOf e' m' = RouterOf e m'" using ins by (simp add: e')
  from ins obtain x where x: "t m = Some x" "addRoute (node_path n)
      (Some (map (to_node (blueprint n)) (contents mem s))) (tree_of e m) = Inr x"
    by (auto simp: tree_of_def)
  then show "RouterOf e' m = Some (tree_of e' m)" by (simp add: e' tree_of_def)
  show "addRoute (fst (route_of e n)) (Some (snd (route_of e n))) (tree_of e m) = Inr (tree_of e' m)"
    using x by (simp add: e' tree_of_def route_of_def c)
qed

lemma init_nodes_step:
  assumes "ready grow e" and "\<forall>n\<in>set ns. slice_ok (arrays (world e)) (handles n)"
    and "init_nodes grow m ns e = Inr e'"
  shows "kept e e' \<and> (\<forall>m'. m' \<noteq> m \<longrightarrow> RouterOf e' m' = RouterOf e m') \<and>
    (ns \<noteq> [] \<longrightarrow> RouterOf e' m \<noteq> None) \<and>
    insert_all (\<lambda>p h. addRoute p (Some h)) (map (route_of e) ns) (tree_of e m) = Inr (tree_of e' m)"
  using assms
proof (induction ns arbitrary: e)
  case Nil
  then show ?case by (simp add: kept_refl)
next
  case (Cons n ns)
  from Cons.prems(3) obtain e1 where e1: "init_node grow m n e = Inr e1" "init_nodes grow m ns e1 = Inr e'"
    by (auto simp: rbind_eq_Inr)
  have "slice_ok (arrays (world e)) (handles n)" using Cons.prems(2) by simp
  note st = init_node_step [OF Cons.prems(1) this e1(1)]
  note kf = kept_facts [OF st(1)]
  have ok: "\<forall>n\<in>set ns. slice_ok (arrays (world e1)) (handles n)"
    and rt: "map (route_of e1) ns = map (route_of e) ns"
    using kf(4) [OF Cons.prems(1)] Cons.prems(2) by auto
  note IH = Cons.IH [OF kf(2) [OF Cons.prems(1)] ok e1(2)]
  obtain p h where ph: "route_of e n = (p, h)" by fastforce
  have "RouterOf e' m \<noteq> None"
    using IH e1(2) st(3) by (cases ns) auto
  with IH st(2) kept_trans [OF st(1)] show ?case
    using st(4) by (auto simp: rt ph)
qed

lemma init_methods_step:
  assumes "ready grow e" and "own e < length (blueprints (world e))" and "chains_ok (world e)"
    and "distinct ms" and "init_methods grow ms e = Inr e'"
  shows "kept e e' \<and> (\<forall>m. m \<notin> set ms \<longrightarrow> RouterOf e' m = RouterOf e m) \<and>
    (\<forall>m\<in>set ms. (nodes_of (world e) (own e) m \<noteq> [] \<longrightarrow> RouterOf e' m \<noteq> None) \<and>
      insert_all (\<lambda>p h. addRoute p (Some h)) (map (route_of e) (nodes_of (world e) (own e) m)) (tree_of e m) =
        Inr (tree_of e' m))"
  using assms
proof (induction ms arbitrary: e)
  case Nil
  then show ?case by (simp add: kept_refl)
next
  case (Cons m ms)
  let ?ns = "\<lambda>e. nodes_of (world e) (own e)"
  from Cons.prems(5) obtain e1 where e1: "init_nodes grow m (?ns e m) e = Inr e1"
    "init_methods grow ms e1 = Inr e'"
    by (auto simp: rbind_eq_Inr)
  have ok: "\<forall>n\<in>set (?ns e m'). slice_ok (arrays (world e)) (handles n)" for m'
    using Cons.prems(2,3) by (simp add: chains_ok_def)
  note st = init_nodes_step [OF Cons.prems(1) ok e1(1)]
  then have k: "kept e e1" by simp
  note kf = kept_facts [OF k]
  have ns: "?ns e1 = ?ns e" using kf(3) by (simp add: fun_eq_iff)
  have rt: "map (route_of e1) (?ns e m') = map (route_of e) (?ns e m')" for m'
    using kf(4) [OF Cons.prems(1)] ok [of m'] by auto
  have ss: "same_slices (world e) (world e1)" "own e1 = own e" using k by (simp_all add: kept_def)
  have l: "own e1 < length (blueprints (world e1))" using Cons.prems(2) ss by (simp add: same_slices_def)
  have ch: "chains_ok (world e1)"
    using Cons.prems(3) ss(1) same_slices_bp [OF ss(1)] by (auto simp: chains_ok_def same_slices_def)
  have d: "distinct ms" "m \<notin> set ms" using Cons.prems(4) by simp_all
  note IH = Cons.IH [OF kf(2) [OF Cons.prems(1)] l ch d(1) e1(2)]
  have "kept e e'" using IH kept_trans [OF k] by blast
  moreover have "RouterOf e' m = RouterOf e1 m" using IH d(2) by blast
  moreover have "tree_of e1 m' = tree_of e m'" if "m' \<in> set ms" for m'
    using st that d(2) by (auto simp: tree_of_def)
  ultimately show ?case
    using IH st d(2) unfolding ns rt by (auto simp: tree_of_def)
qed

text \<open>C10: if \<open>init\<close> returns on an engine without trees, a method whose routes are all static, not empty, and such
  that no registration in their order moves a child (\<open>admissible_all\<close>), gets a tree whose lookup, whatever order
  the map of methods is traversed in, is for every path the group of the route with that path, the engine's
  middleware followed by the chain that was stored at registration, and nothing for other paths.  The slice of
  the engine's own middleware must have no spare capacity (\<open>ready\<close>), and the stored chains lie within their
  arrays (\<open>chains_ok\<close>).\<close>

theorem init_builds_routes:
  assumes "init grow order starters e = Inr (err, e')" and "ready grow e"
    and "own e < length (blueprints (world e))" and "chains_ok (world e)" and "RouterOf e = Map.empty"
    and "distinct order" and "m \<in> set order" and "nodes_of (world e) (own e) m \<noteq> []"
    and "admissible_all (\<lambda>p h. addRoute p (Some h)) admissible
      (map (route_of e) (nodes_of (world e) (own e) m)) zero_node"
  shows "\<exists>t. RouterOf e' m = Some t \<and>
    lookup_handle t = map_of (map (route_of e) (nodes_of (world e) (own e) m))"
proof -
  let ?kvs = "map (route_of e) (nodes_of (world e) (own e) m)"
  from assms(1) have "init_methods grow order e = Inr e'"
    by (auto simp: init_def rbind_eq_Inr)
  note st = init_methods_step [OF assms(2-4,6) this]
  then obtain t where t: "RouterOf e' m = Some t" using assms(7,8) by blast
  have "tree_of e m = zero_node" "tree_of e' m = t" using assms(5) t by (simp_all add: tree_of_def)
  with st assms(7) have "insert_all (\<lambda>p h. addRoute p (Some h)) ?kvs zero_node = Inr t" by force
  from tree_table.registered_is_found(2) [OF static_table_zero lookup_zero assms(9) this] t
  show ?thesis by blast
qed

lemma sample_engine_simps:
  "ready (\<lambda>c n. n) sample_engine" "own sample_engine = 0" "length (blueprints (world sample_engine)) = 1"
  "chains_ok (world sample_engine)" "RouterOf sample_engine = Map.empty"
  "nodes_of (world sample_engine) 0 ''GET'' =
    [\<lparr>node_path = ''/a'', handles = \<lparr>arr = 0, len = 1, cap = 1\<rparr>, blueprint = 0\<rparr>]"
  by (auto simp: sample_engine_def ready_def grows_def own_middleware_def bp_def NewBluePrint_def
      nil_slice_def slice_ok_def chains_ok_def nodes_of_def split: if_splits)

theorem init_builds_routes_witness:
  "\<exists>e' t. init (\<lambda>c n. n) [''GET''] [] sample_engine = Inr (None, e') \<and> RouterOf e' ''GET'' = Some t \<and>
     lookup_handle t ''/a'' = Some [Some \<lparr>HandleFunc = Return, BluePrint = 0\<rparr>]"
proof -
  have "\<not> panics (init (\<lambda>c n. n) [''GET''] [] sample_engine)"
    by code_simp
  then obtain err e' where i: "init (\<lambda>c n. n) [''GET''] [] sample_engine = Inr (err, e')"
    by (auto simp: panics_iff)
  then have "err = None" by (auto simp: init_def rbind_eq_Inr)
  have rt: "map (route_of sample_engine) (nodes_of (world sample_engine) 0 ''GET'') =
      [(''/a'', [Some \<lparr>HandleFunc = Return, BluePrint = 0\<rparr>])]"
    by (simp add: sample_engine_simps(6))
      (simp add: route_of_def sample_engine_def own_middleware_def bp_def NewBluePrint_def
        nil_slice_def contents_def chain_of_def to_node_def)
  let ?kvs = "[(''/a'', [Some \<lparr>HandleFunc = Return :: nat handler, BluePrint = 0 :: nat\<rparr>])]"
  have "admissible ''/a'' (zero_node :: (nat, nat) handleFuncNode option router_node)"
    by (simp add: admissible_zero no_wildcards_def is_wild_def)
  then have adm: "admissible_all (\<lambda>p h. addRoute p (Some h)) admissible ?kvs zero_node"
    by (cases "addRoute ''/a'' (Some [Some \<lparr>HandleFunc = Return :: nat handler, BluePrint = 0 :: nat\<rparr>]) zero_node")
      simp_all
  have adm': "admissible_all (\<lambda>p h. addRoute p (Some h)) admissible
      (map (route_of sample_engine) (nodes_of (world sample_engine) (own sample_engine) ''GET'')) zero_node"
    unfolding sample_engine_simps(2) rt by (rule adm)
  have "\<exists>t. RouterOf e' ''GET'' = Some t \<and> lookup_handle t =
      map_of (map (route_of sample_engine) (nodes_of (world sample_engine) (own sample_engine) ''GET''))"
    by (rule init_builds_routes [OF i sample_engine_simps(1) _ sample_engine_simps(4,5) _ _ _ adm'])
      (simp_all add: sample_engine_simps)
  then obtain t where "RouterOf e' ''GET'' = Some t" "lookup_handle t = map_of ?kvs"
    unfolding sample_engine_simps(2) rt by blast
  with i \<open>err = None\<close> show ?thesis by simp
qed

text \<open>C4: no request is served by a handler that was not registered for it.  On an engine without trees, where the
  slice of the engine's own middleware has no spare capacity (\<open>ready\<close>; with spare capacity \<open>init\<close> appends the
  chains of several routes into the same array) and the stored chains lie within their arrays
  (\<open>chains_ok\<close>): after an \<open>init\<close> that returns, for routes that are not empty and have at most 255 wildcards,
  parameters and catch-alls in any order, and whatever the registrations did to the order of the children, the group that a request is matched to is the one that \<open>init\<close> makes of a route
  registered for the request's method, and the route's pattern, filled with the parameters that the
  context reports, is the request's path.\<close>

theorem matched_only_registered:
  assumes "init grow order starters e = Inr (err, e')" and "ready grow e"
    and "own e < length (blueprints (world e))" and "chains_ok (world e)" and "RouterOf e = Map.empty"
    and "distinct order" and "\<forall>m\<in>set order. registrable (map (route_of e) (nodes_of (world e) (own e) m))"
    and "Match (RouterOf e') s = Inr (True, g, s1)"
  shows "\<exists>n\<in>set (nodes_of (world e) (own e) (rq_method (ctx_request s))).
    g = Some (snd (route_of e n)) \<and>
    fill (parse (node_path n)) (params_list (ctx_params s1)) = Some (rq_path (ctx_request s))"
proof -
  let ?m = "rq_method (ctx_request s)"
  let ?kvs = "map (route_of e) (nodes_of (world e) (own e) ?m)"
  from assms(8) obtain t h ps tsr where t: "RouterOf e' ?m = Some t" "g = Some h" "ctx_params s1 = ps"
    and v: "getValue t (rq_path (ctx_request s)) = Inr (Some h, ps, tsr)"
    by (auto simp: Match_def rbind_eq_Inr split: option.splits)
  from assms(1) have "init_methods grow order e = Inr e'" by (auto simp: init_def rbind_eq_Inr)
  note st = init_methods_step [OF assms(2-4,6) this]
  have m: "?m \<in> set order"
  proof (rule ccontr)
    assume "?m \<notin> set order"
    with st t(1) assms(5) show False by simp
  qed
  have "tree_of e ?m = zero_node" "tree_of e' ?m = t" using assms(5) t(1) by (simp_all add: tree_of_def)
  with st m have "insert_all (\<lambda>p h. addRoute p (Some h)) ?kvs zero_node = Inr t" by force
  from lookup_registered [OF this _ v] assms(7) m obtain r where "(r, h) \<in> set ?kvs"
    "fill (parse r) (params_list ps) = Some (rq_path (ctx_request s))" by blast
  then show ?thesis using t(2,3) by (auto simp: route_of_def)
qed

definition files_engine :: "(nat, nat) engine" where
  "files_engine = sample_engine\<lparr>world := \<lparr>blueprints = [NewBluePrint\<lparr>methodsTree := [''GET'' \<mapsto>
       [\<lparr>node_path = ''/u/:id/x'', handles = \<lparr>arr = 0, len = 1, cap = 1\<rparr>, blueprint = 0\<rparr>,
        \<lparr>node_path = ''/u/:id/y'', handles = \<lparr>arr = 0, len = 1, cap = 1\<rparr>, blueprint = 0\<rparr>,
        \<lparr>node_path = ''/f/*rest'', handles = \<lparr>arr = 0, len = 1, cap = 1\<rparr>, blueprint = 0\<rparr>]]\<rparr>],
       arrays = [[Some Return]]\<rparr>\<rparr>"

lemma files_engine_simps:
  "ready (\<lambda>c n. n) files_engine" "own files_engine < length (blueprints (world files_engine))"
  "chains_ok (world files_engine)" "RouterOf files_engine = Map.empty"
  "map node_path (nodes_of (world files_engine) (own files_engine) ''GET'') = [''/u/:id/x'', ''/u/:id/y'', ''/f/*rest'']"
  by (auto simp: files_engine_def sample_engine_def ready_def grows_def own_middleware_def bp_def NewBluePrint_def
      nil_slice_def slice_ok_def chains_ok_def nodes_of_def split: if_splits)

theorem matched_only_registered_witness:
  "\<exists>e' g s1. init (\<lambda>c n. n) [''GET''] [] files_engine = Inr (None, e') \<and>
    Match (RouterOf e') ((shared fresh_context)\<lparr>ctx_request := request ''GET'' ''/u/42/y''\<rparr>) = Inr (True, g, s1) \<and>
    (\<exists>n\<in>set (nodes_of (world files_engine) (own files_engine) ''GET''). g = Some (snd (route_of files_engine n)) \<and>
      fill (parse (node_path n)) [\<lparr>Key = ''id'', Val = ''42''\<rparr>] = Some ''/u/42/y'')"
proof -
  let ?s = "(shared fresh_context :: nat shared)\<lparr>ctx_request := request ''GET'' ''/u/42/y''\<rparr>"
  have "rbind (init (\<lambda>c n. n) [''GET''] [] files_engine) (\<lambda>(err, e'). rbind (Match (RouterOf e') ?s)
      (\<lambda>(ok, g, s1). Inr (err, ok, params_list (ctx_params s1)))) = Inr (None, True, [\<lparr>Key = ''id'', Val = ''42''\<rparr>])"
    by code_simp
  then obtain e' g s1 where i: "init (\<lambda>c n. n) [''GET''] [] files_engine = Inr (None, e')"
    and m: "Match (RouterOf e') ?s = Inr (True, g, s1)"
    and ps: "params_list (ctx_params s1) = [\<lparr>Key = ''id'', Val = ''42''\<rparr>]"
    by (auto simp: rbind_eq_Inr)
  have "list_all (\<lambda>r. r \<noteq> [] \<and> wilds r \<le> 255) [''/u/:id/x'', ''/u/:id/y'', ''/f/*rest'']" by code_simp
  then have "\<forall>m\<in>set [''GET'']. registrable (map (route_of files_engine)
      (nodes_of (world files_engine) (own files_engine) m))"
    unfolding files_engine_simps(5) [symmetric] by (simp add: registrable_def route_of_def list_all_iff)
  from matched_only_registered [OF i files_engine_simps(1-4) _ this m] i m ps show ?thesis
    by (auto simp: fresh_context_def)
qed

text \<open>A route registered with \<open>Handle\<close> on the engine's own blueprint gets the engine's middleware
  twice: \<open>Handle\<close> stores it in the chain, and \<open>init\<close> puts it in front again.\<close>

theorem own_middleware_twice:
  fixes e :: "('s, 'v) engine" and meth p :: string and hs :: "'v handler list"
  assumes "ready grow e" and "own e < length (blueprints (world e))"
  defines "e1 \<equiv> e\<lparr>world := Handle grow (own e) meth p hs (world e)\<rparr>"
    and "mw \<equiv> contents (arrays (world e)) (own_middleware e)"
  shows "\<exists>node. (\<forall>m. nodes_of (world e1) (own e) m =
      nodes_of (world e) (own e) m @ (if m \<in> set (methods_of meth) then [node] else [])) \<and>
    route_of e1 node = (bp_prefix (bp (world e) (own e)) @ p,
      map (to_node (own e)) (mw @ mw @ map Some hs))"
proof -
  let ?w = "world e" and ?b = "own e"
  have r: "slice_ok (arrays ?w) (middleware (bp ?w ?b))" "grows grow"
    "cap (middleware (bp ?w ?b)) \<le> len (middleware (bp ?w ?b))"
    using assms(1) by (simp_all add: ready_def own_middleware_def)
  obtain node where n: "node_path node = bp_prefix (bp ?w ?b) @ p" "blueprint node = ?b"
    "chain_of (Handle grow ?b meth p hs ?w) node = mw @ map Some hs"
    "\<forall>b' m. nodes_of (Handle grow ?b meth p hs ?w) b' m =
      nodes_of ?w b' m @ (if b' = ?b \<and> m \<in> set (methods_of meth) then [node] else [])"
    using Handle_node [OF assms(2) r(1,2), of p meth hs] unfolding mw_def own_middleware_def by blast
  have "contents (arrays (Handle grow ?b meth p hs ?w)) (middleware (bp ?w ?b)) = mw"
    using Handle_keeps [OF assms(2) r(3), of "\<lparr>node_path = [], handles = middleware (bp ?w ?b), blueprint = 0\<rparr>"] r(1)
    by (simp add: chain_of_def mw_def own_middleware_def)
  moreover have "middleware (bp (Handle grow ?b meth p hs ?w) ?b) = middleware (bp ?w ?b)"
    using assms(2) by (simp add: Handle_def split: prod.split)
  ultimately show ?thesis
    using n by (intro exI [of _ node]) (simp add: e1_def route_of_def own_middleware_def)
qed

definition guarded_engine :: "(nat, nat) engine" where
  "guarded_engine = sample_engine\<lparr>world := \<lparr>blueprints =
     [NewBluePrint\<lparr>middleware := \<lparr>arr = 0, len = 1, cap = 1\<rparr>\<rparr>], arrays = [[Some (Abort Return)]]\<rparr>\<rparr>"

lemma guarded_engine_simps:
  "ready (\<lambda>c n. n) guarded_engine" "own guarded_engine < length (blueprints (world guarded_engine))"
  "own guarded_engine = 0" "nodes_of (world guarded_engine) 0 m = []"
  "contents (arrays (world guarded_engine)) (own_middleware guarded_engine) = [Some (Abort Return)]"
  by (simp_all add: guarded_engine_def ready_def grows_def own_middleware_def bp_def sample_engine_def
      slice_ok_def nodes_of_def NewBluePrint_def contents_def)

theorem own_middleware_twice_witness:
  "\<exists>node. nodes_of (Handle (\<lambda>c n. n) 0 ''PUT'' ''/b'' [Return] (world guarded_engine)) 0 ''PUT'' = [node] \<and>
    snd (route_of (guarded_engine\<lparr>world := Handle (\<lambda>c n. n) 0 ''PUT'' ''/b'' [Return] (world guarded_engine)\<rparr>)
      node) = map (to_node 0) [Some (Abort Return), Some (Abort Return), Some Return]"
proof -
  have "''PUT'' \<in> set (methods_of ''PUT'')" by code_simp
  then show ?thesis
    using own_middleware_twice [OF guarded_engine_simps(1,2), of "''PUT''" "''/b''" "[Return]"]
    unfolding guarded_engine_simps(3,5) by (auto simp: guarded_engine_simps(4))
qed

section \<open>Requests that do not reach their handlers\<close>

text \<open>C39: once \<open>AddInterceptors\<close> has been called on an engine without interceptors, with at least one function,
  every request that matches a route panics with a nil dereference before any handler runs, when the group and
  twice the functions are at most 255.\<close>

theorem interceptors_crash:
  assumes "interceptors e = []" and "mws \<noteq> []" and "RouterOf e (rq_method r) = Some n"
    and "getValue n (rq_path r) = Inr (Some hs, ps, tsr)" and "2 * length mws + length hs \<le> 255" and "pool_ok c"
  shows "\<exists>c1. ServeHTTP env (Suc k) (AddInterceptors mws e) r c = Panicked NilDeref c1"
proof -
  let ?g = "replicate (length mws) None @ map (\<lambda>h. to_node (own e) (Some h)) mws @ hs"
  have g: "group_for (AddInterceptors mws e) (Some hs) = ?g"
    using assms(1,2) by (simp add: group_for_def AddInterceptors_def)
  have "(1 :: 8 word) \<le> of_nat (length ?g)"
  proof -
    have "length ?g = 2 * length mws + length hs" by simp
    moreover have "0 < length mws" using assms(2) by simp
    ultimately have "unat (of_nat (length ?g) :: 8 word) = length ?g" "1 \<le> length ?g"
      using assms(5) by (simp_all only: unat_of_nat take_bit_eq_mod) simp_all
    then show ?thesis by (simp add: word_le_nat_alt)
  qed
  moreover obtain g' where "?g = None # g'" using assms(2) by (cases mws) auto
  then have "node_at ?g 0 = Inl NilDeref" by (simp add: node_at_def index_at_def)
  ultimately have "NextFn env (Suc k) ?g (c\<lparr>shared := s\<rparr>) =
      Panicked NilDeref (c\<lparr>shared := s, index := 1\<rparr>)" for s
    using assms(6) by (simp add: NextFn_def pool_ok_def IsAborted_def)
  moreover have "RouterOf (AddInterceptors mws e) = RouterOf e" by (simp add: AddInterceptors_def)
  ultimately show ?thesis
    using assms(3,4,6) g
    by (simp add: ServeHTTP_def Match_def Let_def start_def finish_ctx_def finish_def pool_ok_def)
qed

theorem interceptors_crash_witness:
  "\<exists>c1. ServeHTTP plain_env (Suc 0) (AddInterceptors [Next Return] running_engine) (request ''GET'' ''/a'') fresh_context =
     Panicked NilDeref c1"
proof -
  have "RouterOf running_engine (rq_method (request ''GET'' ''/a'')) = Some sample_tree"
    "getValue sample_tree (rq_path (request ''GET'' ''/a'')) =
      Inr (Some [Some \<lparr>HandleFunc = Return, BluePrint = 0\<rparr>], None, False)"
    by (simp_all add: running_engine_simps sample_lookup)
  then show ?thesis
    by (rule interceptors_crash [OF running_engine_simps(4) _ _ _ _ pool_ok_fresh, rotated]) simp_all
qed

text \<open>The response that \<open>HandleNotFound\<close> makes of a new one.\<close>

definition not_found_header :: header where
  "not_found_header = [''Content-Type'' \<mapsto> [''text/plain; charset=utf-8''], ''X-Content-Type-Options'' \<mapsto> [''nosniff'']]"

definition not_found_writer :: response where
  "not_found_writer = \<lparr>hdr = not_found_header, sent = Some (404, not_found_header),
     out = ''404 page not found'' @ [CHR 0x0A], tried = 19, layers = []\<rparr>"

lemma exec_HandleNotFound:
  assumes "writer (shared c) = new_response"
  shows "exec env g nxt HandleNotFound c = Done () (c\<lparr>shared := (shared c)\<lparr>writer := not_found_writer\<rparr>\<rparr>)"
proof -
  have "canonical_key ''X-Content-Type-Options'' = ''X-Content-Type-Options''" by code_simp
  with assms show ?thesis
    by (simp add: HandleNotFound_def header_set_def canonical_content_type writeHeader_def not_found_writer_def
        not_found_header_def informational_def write_out_def write_body_def server_write_def send_ok_def
        bodyAllowedForStatus_def new_response_def over_length_def Let_def)
qed

text \<open>A request that no route matches runs the not-found handler alone, whatever interceptors there
  are; with \<open>HandleNotFound\<close> the client gets 404, the two headers and the text, and the context goes
  back to the pool.\<close>

theorem not_found_response:
  fixes c :: "'v ctx"
  assumes "NotFoundHandle e = HandleNotFound"
    and "case RouterOf e (rq_method r) of None \<Rightarrow> True
      | Some n \<Rightarrow> \<exists>ps tsr. getValue n (rq_path r) = Inr (None, ps, tsr)"
    and "pool_ok c"
  shows "\<exists>c' c1. ServeHTTP env (Suc (Suc k)) e r c = Done (Some c') c1 \<and> pool_ok c' \<and>
    sent (writer (shared c1)) = Some (404, [''Content-Type'' \<mapsto> [''text/plain; charset=utf-8''],
      ''X-Content-Type-Options'' \<mapsto> [''nosniff'']]) \<and>
    out (writer (shared c1)) = ''404 page not found'' @ [CHR 0x0A]"
proof -
  let ?w = not_found_writer
  let ?g = "[Some \<lparr>HandleFunc = HandleNotFound, BluePrint = own e\<rparr>]"
  have two: "\<not> (2 :: 8 word) \<le> 1" by (simp add: word_le_nat_alt)
  have run: "start env (Suc (Suc k)) ?g (c\<lparr>shared := s\<rparr>) =
      Done () (c\<lparr>shared := s\<lparr>writer := ?w\<rparr>, index := 2\<rparr>)"
    if "writer s = new_response" "status s = 0" for s
    using that assms(3) two
    by (simp add: start_def NextFn_def pool_ok_def IsAborted_def node_at_def index_at_def
        exec_HandleNotFound finish_ctx_def finish_def)
  obtain s1 where m: "Match (RouterOf e) ((shared c)\<lparr>ctx_request := r, writer := new_response\<rparr>) = Inr (False, None, s1)"
    and s1: "writer s1 = new_response" "status s1 = 0" "escape s1 = False"
    using assms(2,3) by (cases "RouterOf e (rq_method r)") (auto simp: Match_def pool_ok_def)
  have "ServeHTTP env (Suc (Suc k)) e r c =
      Done (Some (reset (c\<lparr>shared := s1\<lparr>matched := False, writer := ?w\<rparr>, index := 2\<rparr>)))
        (c\<lparr>shared := s1\<lparr>matched := False, writer := ?w\<rparr>, index := 2\<rparr>)"
    using run [of "s1\<lparr>matched := False\<rparr>"] s1 assms(1) m
    by (simp add: ServeHTTP_def group_for_def Let_def)
  then show ?thesis
    using s1 by (simp add: pool_ok_def reset_def not_found_writer_def not_found_header_def)
qed


theorem not_found_response_witness:
  "\<exists>c' c1. ServeHTTP plain_env (Suc (Suc 0)) running_engine (request ''PUT'' ''/a'') fresh_context = Done (Some c') c1 \<and>
    map_option fst (sent (writer (shared c1))) = Some 404"
  using not_found_response [OF running_engine_simps(3) _ pool_ok_fresh, where r = "request ''PUT'' ''/a''"
    and env = plain_env and k = 0]
  by (auto simp: running_engine_simps)


section \<open>Every request ends\<close>

text \<open>At most \<open>m\<close> calls of \<open>Next\<close> on every path through a handler; and a group whose handlers are such that
  the \<open>uint8\<close> index cannot run over, whatever they do besides.\<close>

primrec calls_at_most :: "nat \<Rightarrow> 'v handler \<Rightarrow> bool" where
  "calls_at_most m Return = True"
| "calls_at_most m (Panic p) = True"
| "calls_at_most m (Ask f) = (\<forall>x. calls_at_most m (f x))"
| "calls_at_most m (Call a f) = (\<forall>x. calls_at_most m (f x))"
| "calls_at_most m (Next h) = (0 < m \<and> calls_at_most (m - 1) h)"
| "calls_at_most m (NextRecover rec h) =
     (0 < m \<and> calls_at_most (m - 1) h \<and> (\<forall>p. calls_at_most (m - 1) (rec p)))"
| "calls_at_most m (Abort h) = calls_at_most m h"

definition bounded_group :: "nat \<Rightarrow> ('v, 'b) group \<Rightarrow> bool" where
  "bounded_group b g \<longleftrightarrow> Suc b * length g \<le> 254 \<and>
     (\<forall>n\<in>set g. case n of None \<Rightarrow> True | Some m \<Rightarrow> calls_at_most b (HandleFunc m))"

text \<open>How far the index can still get: each handler that has not started adds its calls and its own turn.\<close>

definition reach :: "nat \<Rightarrow> nat \<Rightarrow> 'v ctx \<Rightarrow> nat" where
  "reach b l c = unat (index c) + Suc b * (l - unat (index c))"

text \<open>A run that ends, does not take the index back and does not get further than \<open>w\<close>.\<close>

definition advances :: "nat \<Rightarrow> nat \<Rightarrow> nat \<Rightarrow> nat \<Rightarrow> (unit, 'v ctx) outcome \<Rightarrow> bool" where
  "advances b l v w r \<longleftrightarrow>
     (case r of Done _ c \<Rightarrow> v \<le> unat (index c) \<and> reach b l c \<le> w
      | Panicked _ c \<Rightarrow> v \<le> unat (index c) \<and> reach b l c \<le> w
      | OutOfFuel \<Rightarrow> False)"

lemma advances_simps [simp]:
  "advances b l v w (Done x c) \<longleftrightarrow> v \<le> unat (index c) \<and> reach b l c \<le> w"
  "advances b l v w (Panicked p c) \<longleftrightarrow> v \<le> unat (index c) \<and> reach b l c \<le> w"
  "\<not> advances b l v w OutOfFuel"
  by (simp_all add: advances_def)

lemma advances_mono: "advances b l v w r \<Longrightarrow> v' \<le> v \<Longrightarrow> w \<le> w' \<Longrightarrow> advances b l v' w' r"
  by (cases r) auto

lemma reach_shared [simp]: "reach b l (c\<lparr>shared := s\<rparr>) = reach b l c" "reach b l (c\<lparr>abortIndex := i\<rparr>) = reach b l c"
  by (simp_all add: reach_def)

lemma index_step: "unat (index c) < 255 \<Longrightarrow> unat (index c + 1) = Suc (unat (index c))" for c :: "'v ctx"
  by (simp add: unat_word_ariths)

lemma exec_advances:
  fixes c :: "'v ctx"
  assumes nxt: "\<And>c :: 'v ctx. v \<le> unat (index c) \<Longrightarrow> reach b l c < 255 \<Longrightarrow>
      advances b l (Suc (unat (index c))) (Suc (reach b l c)) (nxt c)"
  shows "calls_at_most m h \<Longrightarrow> v \<le> unat (index c) \<Longrightarrow> reach b l c + m < 255 \<Longrightarrow>
    advances b l (unat (index c)) (reach b l c + m) (exec env g nxt h c)"
proof (induction h arbitrary: m c)
  case (Ask f)
  then show ?case by simp
next
  case (Call a f)
  then have "advances b l (unat (index c)) (reach b l c + m) (exec env g nxt (f e) (c\<lparr>shared := s\<rparr>))" for e s
    using Call.IH [OF rangeI, of m e "c\<lparr>shared := s\<rparr>"] by simp
  then show ?case by (auto split: sum.split outcome.split)
next
  case (Next h)
  then have n: "advances b l (Suc (unat (index c))) (Suc (reach b l c)) (nxt c)" and m: "0 < m"
    using nxt [of c] by auto
  show ?case
  proof (cases "nxt c")
    case (Done x c1)
    with n Next.prems m have "advances b l (unat (index c1)) (reach b l c1 + (m - 1)) (exec env g nxt h c1)"
      by (intro Next.IH) auto
    then show ?thesis using Done n m by (auto elim: advances_mono)
  qed (use n m in auto)
next
  case (NextRecover rec h)
  then have n: "advances b l (Suc (unat (index c))) (Suc (reach b l c)) (nxt c)" and m: "0 < m"
    using nxt [of c] by auto
  show ?case
  proof (cases "nxt c")
    case (Done x c1)
    with n NextRecover.prems m have "advances b l (unat (index c1)) (reach b l c1 + (m - 1)) (exec env g nxt h c1)"
      by (intro NextRecover.IH(2)) auto
    then show ?thesis using Done n m by (auto elim: advances_mono)
  next
    case (Panicked p c1)
    with n NextRecover.prems m
    have "advances b l (unat (index c1)) (reach b l c1 + (m - 1)) (exec env g nxt (rec p) c1)"
      by (intro NextRecover.IH(1)) auto
    then show ?thesis using Panicked n m by (auto elim: advances_mono)
  qed (use n in simp)
next
  case (Abort h)
  then show ?case using Abort.IH [of m "c\<lparr>abortIndex := index c\<rparr>"] by simp
qed simp_all

lemma next_loop_advances:
  assumes "bounded_group b g"
  shows "1 \<le> unat (index c) \<Longrightarrow> reach b (length g) c \<le> 255 \<Longrightarrow> Suc (length g) - unat (index c) < k \<Longrightarrow>
    unat (index c) + Suc b * (Suc (length g) - unat (index c)) \<le> 255 \<Longrightarrow>
    advances b (length g) (unat (index c)) (unat (index c) + Suc b * (Suc (length g) - unat (index c)))
      (next_loop env k g c)"
proof (induction k arbitrary: c)
  case (Suc k)
  let ?l = "length g" and ?u = "unat (index c)"
  let ?w = "?u + Suc b * (Suc ?l - ?u)"
  have len: "?l \<le> 254" using assms by (simp add: bounded_group_def)
  have le: "index c \<le> of_nat ?l \<longleftrightarrow> ?u \<le> ?l" by (rule index_le_length [OF len])
  have here: "reach b ?l c \<le> ?w" unfolding reach_def by (intro add_left_mono mult_le_mono2) simp
  show ?case
  proof (cases "index c \<le> of_nat ?l \<and> \<not> IsAborted c")
    case False
    then show ?thesis using here by auto
  next
    case True
    with le have u: "?u \<le> ?l" by simp
    then have w: "?w = Suc (reach b ?l c + b)" by (simp add: reach_def Suc_diff_le)
    have nxt: "advances b ?l (Suc (unat (index c'))) (Suc (reach b ?l c')) (next_loop env k g (c'\<lparr>index := index c' + 1\<rparr>))"
      if "?u \<le> unat (index c')" "reach b ?l c' < 255" for c' :: "'a ctx"
    proof -
      have i: "unat (index c' + 1) = Suc (unat (index c'))"
        using that(2) by (intro index_step) (simp add: reach_def)
      have "reach b ?l (c'\<lparr>index := index c' + 1\<rparr>) \<le> 255"
      proof -
        have "?l - Suc (unat (index c')) \<le> ?l - unat (index c')" by simp
        then have "Suc b * (?l - Suc (unat (index c'))) \<le> Suc b * (?l - unat (index c'))" by (rule mult_le_mono2)
        then show ?thesis using that(2) by (simp add: reach_def i)
      qed
      then have "advances b ?l (unat (index (c'\<lparr>index := index c' + 1\<rparr>)))
          (unat (index (c'\<lparr>index := index c' + 1\<rparr>)) + Suc b * (Suc ?l - unat (index (c'\<lparr>index := index c' + 1\<rparr>))))
          (next_loop env k g (c'\<lparr>index := index c' + 1\<rparr>))"
        by (intro Suc.IH) (use that Suc.prems(3) u in \<open>auto simp: i reach_def\<close>)
      then show ?thesis by (simp add: i reach_def)
    qed
    show ?thesis
    proof (cases "node_at g (index c - 1)")
      case (Inl p)
      then show ?thesis using True here by simp
    next
      case (Inr n)
      have "Some n \<in> set g" using Inr by (auto simp: node_at_def rbind_eq_Inr index_at_def split: option.splits if_splits)
          (metis nth_mem)
      then have calls: "calls_at_most b (HandleFunc n)" using assms by (auto simp: bounded_group_def)
      let ?r = "exec env g (\<lambda>c. next_loop env k g (c\<lparr>index := index c + 1\<rparr>)) (HandleFunc n) c"
      have r: "advances b ?l ?u (reach b ?l c + b) ?r"
        by (rule exec_advances [where v = ?u, OF nxt calls]) (use Suc.prems(4) w in simp_all)
      show ?thesis
      proof (cases ?r)
        case (Done x c1)
        with r have c1: "?u \<le> unat (index c1)" "reach b ?l c1 \<le> reach b ?l c + b" by simp_all
        with Suc.prems(4) w have "reach b ?l c1 < 255" by simp
        from nxt [OF c1(1) this] have "advances b ?l ?u ?w (next_loop env k g (c1\<lparr>index := index c1 + 1\<rparr>))"
          by (rule advances_mono) (use c1 w in simp_all)
        then show ?thesis using True Inr Done by simp
      qed (use r True Inr w in auto)
    qed
  qed
qed simp

lemma start_ends:
  assumes "bounded_group b g" "index c = 0" "length g < k"
  shows "start env k g c \<noteq> OutOfFuel"
proof -
  have "advances b (length g) (unat (index (c\<lparr>index := 1\<rparr>))) (unat (index (c\<lparr>index := 1\<rparr>)) +
      Suc b * (Suc (length g) - unat (index (c\<lparr>index := 1\<rparr>)))) (next_loop env k g (c\<lparr>index := 1\<rparr>))"
  proof (rule next_loop_advances [OF assms(1)])
    have "Suc b * (length g - 1) \<le> Suc b * length g" by (intro mult_le_mono2) simp
    then show "reach b (length g) (c\<lparr>index := 1\<rparr>) \<le> 255"
      using assms(1) by (simp add: bounded_group_def reach_def)
  qed (use assms in \<open>simp_all add: bounded_group_def\<close>)
  then have "NextFn env k g c \<noteq> OutOfFuel" using assms(2) by (auto simp: NextFn_def)
  then show ?thesis by (auto simp: start_def split: outcome.split sum.split)
qed

text \<open>C9: a request ends when the handlers of the group that it is matched to, interceptors included, call
  \<open>Next\<close> at most \<open>b\<close> times each on every path and \<open>b + 1\<close> times the length of the group is at most 254:
  \<open>ServeHTTP\<close> on a context of the pool returns or panics within as many turns of \<open>Next\<close>'s loop as there are
  handlers and one more, whatever the handlers do besides, recovering panics included; if it returns and no
  handler kept the context, a context as the pool's invariant demands goes back.  A handler's own body is a
  finite tree of calls in the model, so a handler that loops by itself is outside it.\<close>

theorem every_request_ends:
  assumes "pool_ok c"
    and "\<And>s ok g s1. Match (RouterOf e) s = Inr (ok, g, s1) \<Longrightarrow> ctx_request s = r \<Longrightarrow>
      bounded_group b (group_for e g) \<and> length (group_for e g) < k"
  shows "(\<exists>c1. ServeHTTP env k e r c = Done None c1 \<and> escape (shared c1)) \<or>
    (\<exists>c' c1. ServeHTTP env k e r c = Done (Some c') c1 \<and> pool_ok c' \<and> \<not> escape (shared c1)) \<or>
    (\<exists>q c1. ServeHTTP env k e r c = Panicked q c1)"
proof (cases "ServeHTTP env k e r c")
  case (Done put c1)
  then have "put = None \<longleftrightarrow> escape (shared c1)"
    by (auto simp: ServeHTTP_def Let_def split: sum.splits prod.splits outcome.splits if_splits)
  then show ?thesis using Done ServeHTTP_pools(1) by (cases put) auto
next
  case OutOfFuel
  then obtain ok g s1 where m: "Match (RouterOf e) ((shared c)\<lparr>ctx_request := r, writer := new_response\<rparr>) = Inr (ok, g, s1)"
    and o: "start env k (group_for e g) (c\<lparr>shared := s1\<lparr>matched := ok\<rparr>\<rparr>) = OutOfFuel"
    by (auto simp: ServeHTTP_def Let_def split: sum.splits prod.splits outcome.splits)
  have "index (c\<lparr>shared := s1\<lparr>matched := ok\<rparr>\<rparr>) = 0" using assms(1) by (simp add: pool_ok_def)
  moreover have "bounded_group b (group_for e g) \<and> length (group_for e g) < k"
    using assms(2) [OF m] by simp
  ultimately show ?thesis using start_ends o by blast
qed auto

theorem every_request_ends_witness:
  "ServeHTTP plain_env 2 running_engine (request ''PUT'' ''/a'') fresh_context \<noteq> OutOfFuel"
proof -
  have "bounded_group 1 (group_for running_engine g) \<and> length (group_for running_engine g) < 2"
    if "Match (RouterOf running_engine) s = Inr (ok, g, s1)" "ctx_request s = request ''PUT'' ''/a''" for s ok g s1
    using that by (simp add: Match_def running_engine_simps group_for_def bounded_group_def HandleNotFound_def)
  from every_request_ends [where e = running_engine and r = "request ''PUT'' ''/a''" and b = 1 and k = 2 and
      env = plain_env, OF pool_ok_fresh this] show ?thesis by auto
qed

end
