(* ===== verification/Startup.thy ===== *)
theory Startup
  imports EngineFacts
begin

text \<open>
  How an application is put together: the default services of a blueprint, the constructors of the
  engine, the steps before it listens, and the three ways of registering handlers that go through a
  conversion (\<open>RAW\<close>, \<open>Bind\<close> and \<open>BindMethod\<close>).
\<close>

section \<open>Constructors\<close>

text \<open>\<open>BluePrint.Default\<close>, on the six services that it makes.\<close>

definition DefaultBluePrint ::
  "'s \<Rightarrow> 's \<Rightarrow> 's \<Rightarrow> 's \<Rightarrow> 's \<Rightarrow> 's \<Rightarrow> nat \<Rightarrow> ('s, 'h) world \<Rightarrow> ('s, 'h) world res" where
  "DefaultBluePrint store val pars log js xs b w =
     rbind (SetFileStorage b (Some store) w) (\<lambda>w.
     rbind (SetValidator b (Some val) w) (\<lambda>w.
     rbind (SetParsers b (Some pars) w) (\<lambda>w.
     rbind (SetLogger b (Some log) w) (\<lambda>w.
     rbind (SetJSONSerializer b (Some js) w) (\<lambda>w.
     SetXMLSerializer b (Some xs) w)))))"

definition New :: "'s \<Rightarrow> 's \<Rightarrow> 's \<Rightarrow> 's \<Rightarrow> 's \<Rightarrow> 's \<Rightarrow> ('s, 'v) engine res" where
  "New store val pars log js xs =
     rbind (DefaultBluePrint store val pars log js xs 0 \<lparr>blueprints = [NewBluePrint], arrays = []\<rparr>) (\<lambda>w.
       Inr \<lparr>world = w, own = 0, RouterOf = Map.empty, NotFoundHandle = HandleNotFound, interceptors = []\<rparr>)"

text \<open>The starters go with the engine; \<open>Default\<close> adds its two.\<close>

definition AddStarter :: "('s, 'v) starter list \<Rightarrow> ('s, 'v) starter list \<Rightarrow> ('s, 'v) starter list" where
  "AddStarter starts starters = starters @ starts"

definition Default ::
  "('s, 'v) starter \<Rightarrow> ('s, 'v) starter \<Rightarrow> 's \<Rightarrow> 's \<Rightarrow> 's \<Rightarrow> 's \<Rightarrow> 's \<Rightarrow> 's \<Rightarrow>
   (('s, 'v) engine \<times> ('s, 'v) starter list) res" where
  "Default banner urlInfo store val pars log js xs =
     rbind (New store val pars log js xs) (\<lambda>e. Inr (e, AddStarter [banner, urlInfo] []))"

definition TestInit ::
  "(nat \<Rightarrow> nat \<Rightarrow> nat) \<Rightarrow> string list \<Rightarrow> ('s, 'v) starter list \<Rightarrow> ('s, 'v) engine \<Rightarrow>
   (string option \<times> ('s, 'v) engine) res" where
  "TestInit = init"

text \<open>
  \<open>ListenAndServe\<close>: the server is made only when \<open>init\<close> returned nil; \<open>listen\<close> is what the server's
  own \<open>ListenAndServe\<close> returns for the address.
\<close>

definition ListenAndServe ::
  "(string \<Rightarrow> string option) \<Rightarrow> (nat \<Rightarrow> nat \<Rightarrow> nat) \<Rightarrow> string list \<Rightarrow> ('s, 'v) starter list \<Rightarrow> string \<Rightarrow>
   ('s, 'v) engine \<Rightarrow> (string option \<times> ('s, 'v) engine) res" where
  "ListenAndServe listen grow order starters addr e =
     rbind (init grow order starters e) (\<lambda>(err, e1).
       Inr (case err of Some x \<Rightarrow> (Some x, e1) | None \<Rightarrow> (listen addr, e1)))"

text \<open>The same with the server's \<open>ListenAndServeTLS\<close>, which is given the certificate and the key.\<close>

definition ListenAndServeTLS ::
  "(string \<Rightarrow> string \<Rightarrow> string \<Rightarrow> string option) \<Rightarrow> (nat \<Rightarrow> nat \<Rightarrow> nat) \<Rightarrow> string list \<Rightarrow>
   ('s, 'v) starter list \<Rightarrow> string \<Rightarrow> string \<Rightarrow> string \<Rightarrow> ('s, 'v) engine \<Rightarrow>
   (string option \<times> ('s, 'v) engine) res" where
  "ListenAndServeTLS listenTLS grow order starters addr certFile keyFile e =
     rbind (init grow order starters e) (\<lambda>(err, e1).
       Inr (case err of Some x \<Rightarrow> (Some x, e1) | None \<Rightarrow> (listenTLS addr certFile keyFile, e1)))"

definition Run ::
  "(string \<Rightarrow> string option) \<Rightarrow> (nat \<Rightarrow> nat \<Rightarrow> nat) \<Rightarrow> string list \<Rightarrow> ('s, 'v) starter list \<Rightarrow> string \<Rightarrow>
   ('s, 'v) engine \<Rightarrow> (string option \<times> ('s, 'v) engine) res" where
  "Run listen grow order starters addr e = ListenAndServe listen grow order starters addr e"

section \<open>Converted handlers\<close>

definition RAW ::
  "(nat \<Rightarrow> nat \<Rightarrow> nat) \<Rightarrow> nat \<Rightarrow> string \<Rightarrow> string \<Rightarrow> 'v handler list \<Rightarrow> ('s, 'v handler) world \<Rightarrow>
   ('s, 'v handler) world" where
  "RAW grow b meth pth handlers = Handle grow b meth pth (RawHandlerFuncGroup handlers)"

text \<open>
  A method that \<open>reflect\<close> finds is a function value of an unnamed type such as \<open>func(*Context)\<close>; the
  assertion to the named type \<open>HandleFunc\<close> asks for a value of exactly that type.  \<open>methods\<close> gives the
  methods of the value by name, with the function where the signature is that of a handler.
\<close>

datatype 'h dynamic = UnnamedFunc 'h | OtherFunc | NamedHandleFunc 'h

definition method_value :: "'h option \<Rightarrow> 'h dynamic" where
  "method_value m = (case m of Some h \<Rightarrow> UnnamedFunc h | None \<Rightarrow> OtherFunc)"

definition assert_HandleFunc :: "'h dynamic \<Rightarrow> 'h option" where
  "assert_HandleFunc d = (case d of NamedHandleFunc h \<Rightarrow> Some h | _ \<Rightarrow> None)"

definition bind_entry ::
  "(nat \<Rightarrow> nat \<Rightarrow> nat) \<Rightarrow> nat \<Rightarrow> string \<Rightarrow> (string \<rightharpoonup> 'h option) \<Rightarrow> string \<times> string \<Rightarrow> ('s, 'h) world \<Rightarrow>
   ('s, 'h) world" where
  "bind_entry grow b pth methods entry w =
     (case methods (fst entry) of
        None \<Rightarrow> w
      | Some m \<Rightarrow>
          (case assert_HandleFunc (method_value m) of
             Some h \<Rightarrow> Handle grow b (snd entry) pth [h] w
           | None \<Rightarrow> w))"

fun bind_mappings ::
  "(nat \<Rightarrow> nat \<Rightarrow> nat) \<Rightarrow> nat \<Rightarrow> string \<Rightarrow> (string \<rightharpoonup> 'h option) \<Rightarrow> (string \<times> string) list list \<Rightarrow>
   ('s, 'h) world \<Rightarrow> ('s, 'h) world res" where
  "bind_mappings grow b pth methods [] w = Inr w"
| "bind_mappings grow b pth methods (mp # mps) w =
     rbind (detectIllegalMethod mp) (\<lambda>entries.
       bind_mappings grow b pth methods mps (fold (bind_entry grow b pth methods) entries w))"

text \<open>\<open>Bind\<close>: a value that is not a struct (\<open>None\<close>) panics.  \<open>BindMethod\<close> adds a mapping of its own.\<close>

definition Bind ::
  "(nat \<Rightarrow> nat \<Rightarrow> nat) \<Rightarrow> nat \<Rightarrow> string \<Rightarrow> (string \<rightharpoonup> 'h option) option \<Rightarrow> (string \<times> string) list list \<Rightarrow>
   ('s, 'h) world \<Rightarrow> ('s, 'h) world res" where
  "Bind grow b pth v mappings w =
     (case v of
        None \<Rightarrow> Inl (PanicMsg ''`v` should be a struct'')
      | Some methods \<Rightarrow> bind_mappings grow b pth methods mappings w)"

definition method_mapping :: "(string \<times> string) list" where
  "method_mapping = [(''GET'', ''GET''), (''POST'', ''POST''), (''PUT'', ''PUT''), (''PATCH'', ''PATCH''),
     (''DELETE'', ''DELETE''), (''OPTIONS'', ''OPTIONS''), (''HEAD'', ''HEAD''), (''TRACE'', ''TRACE'')]"

definition BindMethod ::
  "(nat \<Rightarrow> nat \<Rightarrow> nat) \<Rightarrow> nat \<Rightarrow> string \<Rightarrow> (string \<rightharpoonup> 'h option) option \<Rightarrow> (string \<times> string) list list \<Rightarrow>
   ('s, 'h) world \<Rightarrow> ('s, 'h) world res" where
  "BindMethod grow b pth fn mappings = Bind grow b pth fn (mappings @ [method_mapping])"

section \<open>Properties\<close>

lemma DefaultBluePrint_bp:
  assumes "b < length (blueprints w)"
  shows "DefaultBluePrint store val pars log js xs b w = Inr (upd_bp b (\<lambda>x. x\<lparr>fileStorage := Some store,
    validator := Some val, parsers := Some pars, logger := Some log, jsonSerializer := Some js,
    xmlSerializer := Some xs\<rparr>) w)"
  using assms by (simp add: DefaultBluePrint_def service_defs set_service_def upd_bp_def bp_def)

lemma init_methods_none: "\<forall>m. nodes_of (world e) (own e) m = [] \<Longrightarrow> init_methods grow order e = Inr e"
  by (induction order) simp_all

text \<open>A new engine has its own root blueprint on which each of the six services is the default one,
  a 404 handler and no route, so that its \<open>init\<close> leaves it as it is and returns what the starters
  return.\<close>

theorem New_services:
  "\<exists>e. New store val pars log js xs = Inr (e :: ('s, 'v) engine) \<and> IsRoot (world e) (own e) \<and>
     FileStorage (world e) (own e) = Some (Some store) \<and> Validator (world e) (own e) = Some (Some val) \<and>
     Parsers (world e) (own e) = Some (Some pars) \<and> Logger (world e) (own e) = Some (Some log) \<and>
     JSONSerializer (world e) (own e) = Some (Some js) \<and> XMLSerializer (world e) (own e) = Some (Some xs) \<and>
     init grow order starters e = Inr (run_starters starters e, e)"
proof -
  let ?w = "\<lparr>blueprints = [NewBluePrint], arrays = []\<rparr> :: ('s, 'v handler) world"
  let ?f = "\<lambda>x :: 's blueprint. x\<lparr>fileStorage := Some store, validator := Some val, parsers := Some pars, logger := Some log,
    jsonSerializer := Some js, xmlSerializer := Some xs\<rparr>"
  let ?e = "\<lparr>world = upd_bp 0 ?f ?w, own = 0, RouterOf = Map.empty, NotFoundHandle = HandleNotFound,
    interceptors = []\<rparr> :: ('s, 'v) engine"
  have e: "New store val pars log js xs = Inr ?e"
    by (simp add: New_def DefaultBluePrint_bp)
  have b: "bp (upd_bp 0 ?f ?w) 0 = ?f NewBluePrint" by (simp add: bp_def upd_bp_def)
  have "init_methods grow order ?e = Inr ?e"
    by (rule init_methods_none) (simp add: nodes_of_def bp_def upd_bp_def NewBluePrint_def)
  then have "init grow order starters ?e = Inr (run_starters starters ?e, ?e)" by (simp add: init_def)
  then show ?thesis
    using b by (intro exI [of _ ?e]) (simp add: e service_defs service.simps [of _ _ 0] IsRoot_def NewBluePrint_def)
qed

lemma bind_entry_none: "bind_entry grow b pth methods entry w = w"
  by (auto simp: bind_entry_def method_value_def assert_HandleFunc_def split: option.split)

lemma fold_bind_entry: "fold (bind_entry grow b pth methods) entries w = w"
  by (induction entries) (simp_all add: bind_entry_none)

lemma bind_mappings_legal:
  "\<forall>mp \<in> set mps. \<not> panics (detectIllegalMethod mp) \<Longrightarrow> bind_mappings grow b pth methods mps w = Inr w"
  by (induction mps) (auto simp: rbind_def panics_def fold_bind_entry split: sum.splits)

lemma bind_mappings_illegal:
  "\<exists>mp \<in> set mps. panics (detectIllegalMethod mp) \<Longrightarrow> panics (bind_mappings grow b pth methods mps w)"
  by (induction mps) (auto simp: rbind_def panics_def fold_bind_entry split: sum.splits)

text \<open>\<open>Bind\<close> and \<open>BindMethod\<close> register nothing: whatever methods the struct has and whatever the mappings
  say, the blueprints stay as they are; an unknown HTTP method in a mapping, or a value that is not
  a struct, makes them panic.\<close>

theorem Bind_registers_nothing:
  "Bind grow b pth v mappings w =
     (if v = None then Inl (PanicMsg ''`v` should be a struct'')
      else if list_all (\<lambda>mp. \<not> panics (detectIllegalMethod mp)) mappings then Inr w
      else bind_mappings grow b pth (the v) mappings w) \<and>
   (list_ex (\<lambda>mp. panics (detectIllegalMethod mp)) mappings \<longrightarrow> panics (Bind grow b pth v mappings w)) \<and>
   BindMethod grow b pth (Some methods) [] w = Inr w"
proof -
  have "\<not> panics (detectIllegalMethod method_mapping)" by code_simp
  then show ?thesis
    using bind_mappings_legal [of "[method_mapping]" grow b pth methods w]
    by (cases v) (auto simp: Bind_def BindMethod_def list_all_iff list_ex_iff bind_mappings_legal
        intro!: bind_mappings_illegal simp del: bind_mappings.simps)
qed

theorem Bind_registers_nothing_witness:
  "panics (Bind (\<lambda>c n. n) 0 ''/u'' (Some Map.empty) [[(''Show'', ''FETCH'')]] sample_world)"
proof -
  have "list_ex (\<lambda>mp. panics (detectIllegalMethod mp)) [[(''Show'', ''FETCH'')]]" by code_simp
  with Bind_registers_nothing [of "\<lambda>c n. n" 0 "''/u''" "Some Map.empty" "[[(''Show'', ''FETCH'')]]" sample_world Map.empty]
  show ?thesis by blast
qed

text \<open>A route of \<open>RAW\<close> runs the last of its handlers once for every handler it was given: after the
  blueprint's middleware the chain holds as many copies of the closure that stores the context in the
  request and calls it.\<close>

theorem RAW_repeats_last:
  assumes "b < length (blueprints w)" "slice_ok (arrays w) (middleware (bp w b))" "grows grow"
    and "meth \<noteq> ALLMethod" "ToUpper meth = meth"
  shows "\<exists>node. nodes_of (RAW grow b meth pth handlers w) b meth = nodes_of w b meth @ [node] \<and>
    chain_of (RAW grow b meth pth handlers w) node =
      contents (arrays w) (middleware (bp w b)) @ replicate (length handlers) (Some (raw_closure (last handlers)))"
proof -
  have m: "map Some (RawHandlerFuncGroup handlers) = replicate (length handlers) (Some (raw_closure (last handlers)))"
    by (simp add: RawHandlerFuncGroup_def map_replicate_const o_def)
  have "meth \<in> set (methods_of meth)" using assms(4,5) by (simp add: methods_of_def)
  with Handle_node [OF assms(1-3), of pth meth "RawHandlerFuncGroup handlers"] show ?thesis
    unfolding RAW_def m by fastforce
qed

theorem RAW_repeats_last_witness:
  "\<exists>node. chain_of (RAW (\<lambda>c n. n) 0 ''GET'' ''/raw'' [Return, HandleNotFound] \<lparr>blueprints = [NewBluePrint :: nat blueprint], arrays = []\<rparr>) node =
     [Some (raw_closure HandleNotFound :: nat handler), Some (raw_closure HandleNotFound)]"
  using RAW_repeats_last [of 0 "\<lparr>blueprints = [NewBluePrint :: nat blueprint], arrays = []\<rparr>" "\<lambda>c n. n" "''GET''" "''/raw''"
      "[Return, HandleNotFound :: nat handler]"] sample_method
  by (auto simp: bp_def NewBluePrint_def grows_def methods_of_def)

end
