(* ===== verification/Values.thy ===== *)
theory Values
  imports Strconv "HOL-Library.Word"
begin

text \<open>
  \<open>core/valuse.go\<close>: a request value is a string that is read as a number, a boolean or a duration,
  with an optional default; \<open>Values\<close>; and the engine's warehouse.  The ten integer readers differ
  only in their type, which fixes the bit size: they are instances of one signed and one unsigned
  reader.  The variadic default is a list of which only the first element counts.
\<close>

section \<open>Readers\<close>

definition IsEmpty :: "string \<Rightarrow> bool" where
  "IsEmpty v \<longleftrightarrow> v = []"

definition Text :: "string \<Rightarrow> string list \<Rightarrow> string" where
  "Text v def = (if IsEmpty v \<and> length def > 0 then def ! 0 else v)"

text \<open>The common body: the default replaces the value on an error, the error is returned all the same.\<close>

definition or_default :: "string \<Rightarrow> 'a list \<Rightarrow> 'a \<times> num_error option \<Rightarrow> 'a \<times> num_error option" where
  "or_default v def r =
     (case r of (i, err) \<Rightarrow> if (err \<noteq> None \<or> IsEmpty v) \<and> length def > 0 then (def ! 0, err) else (i, err))"

definition signed_value :: "string \<Rightarrow> 'w word list \<Rightarrow> 'w::len word \<times> num_error option" where
  "signed_value v def = or_default v def (map_prod word_of_int id (ParseInt v LENGTH('w)))"

definition unsigned_value :: "string \<Rightarrow> 'w word list \<Rightarrow> 'w::len word \<times> num_error option" where
  "unsigned_value v def = or_default v def (map_prod of_nat id (ParseUint v LENGTH('w)))"

definition Int_value :: "string \<Rightarrow> 64 word list \<Rightarrow> 64 word \<times> num_error option" where "Int_value = signed_value"
definition Int8 :: "string \<Rightarrow> 8 word list \<Rightarrow> 8 word \<times> num_error option" where "Int8 = signed_value"
definition Int16 :: "string \<Rightarrow> 16 word list \<Rightarrow> 16 word \<times> num_error option" where "Int16 = signed_value"
definition Int32 :: "string \<Rightarrow> 32 word list \<Rightarrow> 32 word \<times> num_error option" where "Int32 = signed_value"
definition Int64 :: "string \<Rightarrow> 64 word list \<Rightarrow> 64 word \<times> num_error option" where "Int64 = signed_value"
definition Uint :: "string \<Rightarrow> 64 word list \<Rightarrow> 64 word \<times> num_error option" where "Uint = unsigned_value"
definition Uint8 :: "string \<Rightarrow> 8 word list \<Rightarrow> 8 word \<times> num_error option" where "Uint8 = unsigned_value"
definition Uint16 :: "string \<Rightarrow> 16 word list \<Rightarrow> 16 word \<times> num_error option" where "Uint16 = unsigned_value"
definition Uint32 :: "string \<Rightarrow> 32 word list \<Rightarrow> 32 word \<times> num_error option" where "Uint32 = unsigned_value"
definition Uint64 :: "string \<Rightarrow> 64 word list \<Rightarrow> 64 word \<times> num_error option" where "Uint64 = unsigned_value"

text \<open>\<open>strconv.ParseFloat\<close> and the conversion to the narrower type are parameters.\<close>

definition Float32 ::
  "(string \<Rightarrow> nat \<Rightarrow> 'f \<times> num_error option) \<Rightarrow> ('f \<Rightarrow> 'g) \<Rightarrow> string \<Rightarrow> 'g list \<Rightarrow> 'g \<times> num_error option" where
  "Float32 ParseFloat float32 v def = or_default v def (map_prod float32 id (ParseFloat v 32))"

definition Float64 ::
  "(string \<Rightarrow> nat \<Rightarrow> 'f \<times> num_error option) \<Rightarrow> string \<Rightarrow> 'f list \<Rightarrow> 'f \<times> num_error option" where
  "Float64 ParseFloat v def = or_default v def (ParseFloat v 64)"

definition Bool :: "string \<Rightarrow> bool list \<Rightarrow> bool \<times> num_error option" where
  "Bool v def =
     (if IsEmpty v then (False, None)
      else case ParseBool v of (i, err) \<Rightarrow> if err \<noteq> None \<and> length def > 0 then (def ! 0, err) else (i, err))"

text \<open>\<open>time.Duration\<close> is an \<open>int64\<close>.\<close>

definition Duration :: "string \<Rightarrow> 64 word list \<Rightarrow> 64 word \<times> num_error option" where
  "Duration v def = (case Int64 v def of (i, err) \<Rightarrow> (i, err))"

text \<open>Every \<open>Must\<close> reader drops the error.\<close>

definition MustInt :: "string \<Rightarrow> 64 word list \<Rightarrow> 64 word" where "MustInt v def = fst (Int_value v def)"
definition MustInt8 :: "string \<Rightarrow> 8 word list \<Rightarrow> 8 word" where "MustInt8 v def = fst (Int8 v def)"
definition MustInt16 :: "string \<Rightarrow> 16 word list \<Rightarrow> 16 word" where "MustInt16 v def = fst (Int16 v def)"
definition MustInt32 :: "string \<Rightarrow> 32 word list \<Rightarrow> 32 word" where "MustInt32 v def = fst (Int32 v def)"
definition MustInt64 :: "string \<Rightarrow> 64 word list \<Rightarrow> 64 word" where "MustInt64 v def = fst (Int64 v def)"
definition MustUint :: "string \<Rightarrow> 64 word list \<Rightarrow> 64 word" where "MustUint v def = fst (Uint v def)"
definition MustUint8 :: "string \<Rightarrow> 8 word list \<Rightarrow> 8 word" where "MustUint8 v def = fst (Uint8 v def)"
definition MustUint16 :: "string \<Rightarrow> 16 word list \<Rightarrow> 16 word" where "MustUint16 v def = fst (Uint16 v def)"
definition MustUint32 :: "string \<Rightarrow> 32 word list \<Rightarrow> 32 word" where "MustUint32 v def = fst (Uint32 v def)"
definition MustUint64 :: "string \<Rightarrow> 64 word list \<Rightarrow> 64 word" where "MustUint64 v def = fst (Uint64 v def)"
definition MustBool :: "string \<Rightarrow> bool list \<Rightarrow> bool" where "MustBool v def = fst (Bool v def)"

definition MustFloat32 ::
  "(string \<Rightarrow> nat \<Rightarrow> 'f \<times> num_error option) \<Rightarrow> ('f \<Rightarrow> 'g) \<Rightarrow> string \<Rightarrow> 'g list \<Rightarrow> 'g" where
  "MustFloat32 ParseFloat float32 v def = fst (Float32 ParseFloat float32 v def)"

definition MustFloat64 ::
  "(string \<Rightarrow> nat \<Rightarrow> 'f \<times> num_error option) \<Rightarrow> string \<Rightarrow> 'f list \<Rightarrow> 'f" where
  "MustFloat64 ParseFloat v def = fst (Float64 ParseFloat v def)"

text \<open>\<open>make\<close> has already given the slice its length when the values are appended.\<close>

definition NewValues :: "string list \<Rightarrow> string list" where
  "NewValues values = replicate (length values) [] @ values"

section \<open>Warehouse\<close>

definition warehouse_set :: "'k \<Rightarrow> 'v \<Rightarrow> ('k \<rightharpoonup> 'v) \<Rightarrow> ('k \<rightharpoonup> 'v)" where
  "warehouse_set key val w = w(key \<mapsto> val)"

definition warehouse_get :: "'k \<Rightarrow> ('k \<rightharpoonup> 'v) \<Rightarrow> 'v option" where
  "warehouse_get key w = w key"

section \<open>Reading back what was written\<close>

lemma signed_decimal:
  assumes "1 < LENGTH('w::len)"
  shows "signed_value (decimal z) (def :: 'w word list) =
    (if - (2 ^ (LENGTH('w) - 1)) \<le> z \<and> z < 2 ^ (LENGTH('w) - 1) then (word_of_int z, None)
     else (case def of d # _ \<Rightarrow> d
       | [] \<Rightarrow> if z < 0 then word_of_int (- (2 ^ (LENGTH('w) - 1))) else word_of_int (2 ^ (LENGTH('w) - 1) - 1),
       Some ErrRange))"
proof -
  have b: "bits_of LENGTH('w) = LENGTH('w)" by (simp add: bits_of_def)
  with assms ParseInt_decimal [of "LENGTH('w)" z] show ?thesis
    by (auto simp: signed_value_def or_default_def IsEmpty_def decimal_not_Nil in_range_def split: list.split)
qed

lemma unsigned_decimal:
  "unsigned_value (nat_digits n) (def :: 'w::len word list) =
    (if n < 2 ^ LENGTH('w) then (of_nat n, None)
     else (case def of d # _ \<Rightarrow> d | [] \<Rightarrow> - 1, Some ErrRange))"
proof -
  have b: "bits_of LENGTH('w) = LENGTH('w)" by (simp add: bits_of_def)
  have m: "(of_nat (2 ^ LENGTH('w) - Suc 0) :: 'w word) = - 1"
    by (simp add: of_nat_diff)
  from b ParseUint_decimal [of n "LENGTH('w)"] m show ?thesis
    by (auto simp: unsigned_value_def or_default_def IsEmpty_def nat_digits_not_Nil split: list.split)
qed

lemma sint_range: "- (2 ^ (LENGTH('w) - 1)) \<le> sint (x :: 'w::len word) \<and> sint x < 2 ^ (LENGTH('w) - 1)"
  using sint_greater_eq [of x] sint_lt [of x] by simp

lemma signed_sint:
  assumes "1 < LENGTH('w::len)"
  shows "signed_value (decimal (sint x)) def = (x :: 'w word, None)"
  using sint_range [of x] by (simp add: signed_decimal [OF assms])

lemma unsigned_unat: "unsigned_value (nat_digits (unat x)) def = (x :: 'w::len word, None)"
  by (simp add: unsigned_decimal)

text \<open>What a reader of signed or of unsigned integers does with decimal notation: it gives back the number,
  without an error and whatever the default, or if it does not fit the default, or the nearest number of the
  type when there is none, and the range error.\<close>

definition reads_signed :: "(string \<Rightarrow> 'w word list \<Rightarrow> 'w::len word \<times> num_error option) \<Rightarrow> bool" where
  "reads_signed r \<longleftrightarrow>
     (\<forall>w ds. r (decimal (sint w)) ds = (w, None)) \<and>
     (\<forall>z ds. \<not> (- (2 ^ (LENGTH('w) - 1)) \<le> z \<and> z < 2 ^ (LENGTH('w) - 1)) \<longrightarrow>
        r (decimal z) ds = (case ds of d # _ \<Rightarrow> d
          | [] \<Rightarrow> if z < 0 then word_of_int (- (2 ^ (LENGTH('w) - 1))) else word_of_int (2 ^ (LENGTH('w) - 1) - 1), Some ErrRange))"

definition reads_unsigned :: "(string \<Rightarrow> 'w word list \<Rightarrow> 'w::len word \<times> num_error option) \<Rightarrow> bool" where
  "reads_unsigned r \<longleftrightarrow>
     (\<forall>w ds. r (nat_digits (unat w)) ds = (w, None)) \<and>
     (\<forall>n ds. 2 ^ LENGTH('w) \<le> n \<longrightarrow>
        r (nat_digits n) ds = (case ds of d # _ \<Rightarrow> d | [] \<Rightarrow> word_of_int (2 ^ LENGTH('w) - 1), Some ErrRange))"

lemma signed_value_reads: "1 < LENGTH('w::len) \<Longrightarrow> reads_signed (signed_value :: _ \<Rightarrow> 'w word list \<Rightarrow> _)"
  unfolding reads_signed_def by (auto simp: signed_sint) (simp_all add: signed_decimal split: list.split)

lemma unsigned_value_reads: "reads_unsigned (unsigned_value :: _ \<Rightarrow> 'w::len word list \<Rightarrow> _)"
  unfolding reads_unsigned_def by (auto simp: unsigned_unat) (simp add: unsigned_decimal split: list.split)

text \<open>C36: every reader of an integer, of a duration too, gives back the number whose decimal notation it is
  given, without an error and whatever the default; a number that does not fit its type is a range error and
  gives the default, or the nearest number of the type when there is none.\<close>

theorem integer_readers_roundtrip:
  "reads_signed Int_value \<and> reads_signed Int8 \<and> reads_signed Int16 \<and> reads_signed Int32 \<and>
   reads_signed Int64 \<and> reads_signed Duration \<and> reads_unsigned Uint \<and> reads_unsigned Uint8 \<and>
   reads_unsigned Uint16 \<and> reads_unsigned Uint32 \<and> reads_unsigned Uint64"
proof -
  have "Duration = signed_value" by (simp add: fun_eq_iff Duration_def Int64_def)
  then show ?thesis
    by (simp add: Int_value_def Int8_def Int16_def Int32_def Int64_def Uint_def Uint8_def Uint16_def Uint32_def
        Uint64_def signed_value_reads unsigned_value_reads)
qed

text \<open>\<open>NewValues\<close> puts an empty value in front for every value it is given, so that the first of
  them is never the one sent.\<close>

theorem NewValues_padded:
  assumes "i < length vs"
  shows "length (NewValues vs) = 2 * length vs \<and> NewValues vs ! i = [] \<and>
    NewValues vs ! (length vs + i) = vs ! i"
  using assms by (simp add: NewValues_def nth_append)

theorem NewValues_padded_witness: "NewValues [''a''] ! 0 = [] \<and> NewValues [''a''] ! 1 = ''a''"
  using NewValues_padded [of 0 "[''a'']"] by simp

end
