(* ===== verification/Validators.thy ===== *)
theory Validators
  imports Values
begin

text \<open>
  \<open>core/validators\<close>: the rules that a struct's \<open>validate\<close> tags name, and the functions that check
  one field against one rule.  A struct is the list of its fields with their names, tags and
  values as \<open>reflect\<close> shows them; floats, the regular expressions in tags, dates and the deep equality of
  other values are parameters.
\<close>

section \<open>Values seen through reflection\<close>

datatype int_kind = KInt | KInt8 | KInt16 | KInt32 | KInt64
datatype uint_kind = KUint | KUint8 | KUint16 | KUint32 | KUint64
datatype float_kind = KFloat32 | KFloat64

text \<open>\<open>Int()\<close>, \<open>Uint()\<close> and \<open>Float()\<close> give the value at 64 bits; \<open>ROther\<close> is a value of any other kind.\<close>

datatype ('f, 'o) rvalue =
    RString string
  | RBool bool
  | RInt int_kind "64 word"
  | RUint uint_kind "64 word"
  | RFloat float_kind 'f
  | ROther 'o

record ('f, 'o) field =
  FieldName :: string
  Tag :: "string option"
  FieldVal :: "('f, 'o) rvalue"

type_synonym ('f, 'o) struct = "('f, 'o) field list"

section \<open>Errors and parameters\<close>

datatype error =
    ErrText string
  | MessageRequired
  | ValueRequired
  | Unsupported
  | NumError num_error
  | ValidationErrorPtr error string string
  | ValidationErrorVal error string string

definition NewValidationError :: "error \<Rightarrow> string \<Rightarrow> string \<Rightarrow> error" where
  "NewValidationError err fieldName rule = ValidationErrorPtr err fieldName rule"

text \<open>The type assertion is to \<open>ValidationError\<close>, not to the pointer type that \<open>NewValidationError\<close> makes.\<close>

definition IsValidationError :: "error \<Rightarrow> bool" where
  "IsValidationError err = (case err of ValidationErrorVal _ _ _ \<Rightarrow> True | _ \<Rightarrow> False)"

record Param =
  Message :: string
  Value :: string

text \<open>What \<open>reflect\<close> tells of a value of another kind: the length of an array, slice, map or channel,
  whether a struct is its zero value, whether a pointer or interface is nil.\<close>

datatype other_kind = Collection nat | StructValue bool | Nilable bool | Plain

record ('f, 'o) lib =
  ParseFloat :: "string \<Rightarrow> nat \<Rightarrow> 'f \<times> num_error option"
  FormatFloat :: "'f \<Rightarrow> nat \<Rightarrow> string"
  float_less :: "'f \<Rightarrow> 'f \<Rightarrow> bool"
  float_eq :: "'f \<Rightarrow> 'f \<Rightarrow> bool"
  other_eq :: "'o \<Rightarrow> 'o \<Rightarrow> bool"
  regexp_match :: "string \<Rightarrow> string \<Rightarrow> bool option"    \<comment> \<open>\<open>None\<close> if the expression does not compile\<close>
  float_zero :: "'f \<Rightarrow> bool"
  kind_of :: "'o \<Rightarrow> other_kind"
  dateParses :: "string \<Rightarrow> string \<Rightarrow> bool"
  hasMethod :: "string \<Rightarrow> bool"

text \<open>A validator panics, or returns an error or nil.\<close>

type_synonym ('f, 'o) validator = "('f, 'o) lib \<Rightarrow> ('f, 'o) struct \<Rightarrow> nat \<Rightarrow> Param \<Rightarrow> error option res"

definition float_le :: "('f, 'o) lib \<Rightarrow> 'f \<Rightarrow> 'f \<Rightarrow> bool" where
  "float_le l a b \<longleftrightarrow> float_less l a b \<or> float_eq l a b"

section \<open>Comparisons\<close>

text \<open>
  The predicates take the field and a text; the left value is their error.  Two of the kinds are
  missing from the \<open>case\<close> lists: \<open>int16\<close> everywhere, and \<open>uint16\<close> in \<open>isLt\<close>.
\<close>

definition parse_int :: "string \<Rightarrow> error + int" where
  "parse_int v = (case ParseInt v 64 of (n, None) \<Rightarrow> Inr n | (_, Some e) \<Rightarrow> Inl (NumError e))"

definition parse_uint :: "string \<Rightarrow> error + nat" where
  "parse_uint v = (case ParseUint v 64 of (n, None) \<Rightarrow> Inr n | (_, Some e) \<Rightarrow> Inl (NumError e))"

definition parse_float :: "('f, 'o) lib \<Rightarrow> string \<Rightarrow> error + 'f" where
  "parse_float l v = (case ParseFloat l v 64 of (n, None) \<Rightarrow> Inr n | (_, Some e) \<Rightarrow> Inl (NumError e))"

fun isGt :: "('f, 'o) lib \<Rightarrow> ('f, 'o) rvalue \<Rightarrow> string \<Rightarrow> error + bool" where
  "isGt l (RInt k x) v =
     (if k = KInt16 then Inl Unsupported else rbind (parse_int v) (\<lambda>n. Inr (sint x > n)))"
| "isGt l (RUint k x) v = rbind (parse_uint v) (\<lambda>n. Inr (unat x > n))"
| "isGt l (RFloat k x) v = rbind (parse_float l v) (\<lambda>n. Inr (float_less l n x))"
| "isGt l _ v = Inl Unsupported"

fun isLt :: "('f, 'o) lib \<Rightarrow> ('f, 'o) rvalue \<Rightarrow> string \<Rightarrow> error + bool" where
  "isLt l (RInt k x) v =
     (if k = KInt16 then Inl Unsupported else rbind (parse_int v) (\<lambda>n. Inr (sint x < n)))"
| "isLt l (RUint k x) v =
     (if k = KUint16 then Inl Unsupported else rbind (parse_uint v) (\<lambda>n. Inr (unat x < n)))"
| "isLt l (RFloat k x) v = rbind (parse_float l v) (\<lambda>n. Inr (float_less l x n))"
| "isLt l _ v = Inl Unsupported"

fun isGe :: "('f, 'o) lib \<Rightarrow> ('f, 'o) rvalue \<Rightarrow> string \<Rightarrow> error + bool" where
  "isGe l (RInt k x) v =
     (if k = KInt16 then Inl Unsupported else rbind (parse_int v) (\<lambda>n. Inr (sint x \<ge> n)))"
| "isGe l (RUint k x) v = rbind (parse_uint v) (\<lambda>n. Inr (unat x \<ge> n))"
| "isGe l (RFloat k x) v = rbind (parse_float l v) (\<lambda>n. Inr (float_le l n x))"
| "isGe l _ v = Inl Unsupported"

fun isLe :: "('f, 'o) lib \<Rightarrow> ('f, 'o) rvalue \<Rightarrow> string \<Rightarrow> error + bool" where
  "isLe l (RInt k x) v =
     (if k = KInt16 then Inl Unsupported else rbind (parse_int v) (\<lambda>n. Inr (sint x \<le> n)))"
| "isLe l (RUint k x) v = rbind (parse_uint v) (\<lambda>n. Inr (unat x \<le> n))"
| "isLe l (RFloat k x) v = rbind (parse_float l v) (\<lambda>n. Inr (float_le l x n))"
| "isLe l _ v = Inl Unsupported"

fun isEqual :: "('f, 'o) lib \<Rightarrow> ('f, 'o) rvalue \<Rightarrow> string \<Rightarrow> error + bool" where
  "isEqual l (RString s) v = Inr (s = v)"
| "isEqual l (RInt k x) v =
     (if k = KInt16 then Inl Unsupported else rbind (parse_int v) (\<lambda>n. Inr (sint x = n)))"
| "isEqual l (RUint k x) v = rbind (parse_uint v) (\<lambda>n. Inr (unat x = n))"
| "isEqual l (RFloat k x) v = rbind (parse_float l v) (\<lambda>n. Inr (float_eq l x n))"
| "isEqual l (RBool b) v =
     (case ParseBool v of (x, None) \<Rightarrow> Inr (b = x) | (_, Some e) \<Rightarrow> Inl (NumError e))"
| "isEqual l (ROther _) v = Inl Unsupported"

text \<open>Both bounds are parsed before the comparison; an unsupported kind is no error here.\<close>

fun isBetween :: "('f, 'o) lib \<Rightarrow> ('f, 'o) rvalue \<Rightarrow> string \<Rightarrow> string \<Rightarrow> error + bool" where
  "isBetween l (RInt k x) mi ma =
     (if k = KInt16 then Inr False
      else rbind (parse_int mi) (\<lambda>a. rbind (parse_int ma) (\<lambda>b. Inr (sint x \<ge> a \<and> sint x \<le> b))))"
| "isBetween l (RUint k x) mi ma =
     rbind (parse_uint mi) (\<lambda>a. rbind (parse_uint ma) (\<lambda>b. Inr (unat x \<ge> a \<and> unat x \<le> b)))"
| "isBetween l (RFloat k x) mi ma =
     rbind (parse_float l mi) (\<lambda>a. rbind (parse_float l ma) (\<lambda>b. Inr (float_le l a x \<and> float_le l x b)))"
| "isBetween l _ mi ma = Inr False"

text \<open>
  The loops over the alternatives stop at the first that does not parse or is equal; after the loop
  for unsigned integers the \<open>return\<close> is missing.
\<close>

fun any_equal :: "(string \<Rightarrow> error + bool) \<Rightarrow> (error + bool) \<Rightarrow> string list \<Rightarrow> error + bool" where
  "any_equal eq none [] = none"
| "any_equal eq none (t # ts) = rbind (eq (remove_spaces t)) (\<lambda>b. if b then Inr True else any_equal eq none ts)"

fun isContains :: "('f, 'o) lib \<Rightarrow> ('f, 'o) rvalue \<Rightarrow> string \<Rightarrow> error + bool" where
  "isContains l (RString s) v = Inr (s \<in> set (split_at (CHR '','') v))"
| "isContains l (RInt k x) v =
     (if k = KInt16 then Inl Unsupported
      else any_equal (\<lambda>t. rbind (parse_int t) (\<lambda>n. Inr (sint x = n))) (Inr False) (split_at (CHR '','') v))"
| "isContains l (RUint k x) v =
     any_equal (\<lambda>t. rbind (parse_uint t) (\<lambda>n. Inr (unat x = n))) (Inl Unsupported) (split_at (CHR '','') v)"
| "isContains l (RFloat k x) v =
     any_equal (\<lambda>t. rbind (parse_float l t) (\<lambda>n. Inr (float_eq l n x))) (Inr False) (split_at (CHR '','') v)"
| "isContains l _ v = Inl Unsupported"

section \<open>The shape that most validators share\<close>

text \<open>
  Message and value must be given; then the predicate decides: its error is returned, and a field
  that does not satisfy it gives the message.
\<close>

definition field_at :: "('f, 'o) struct \<Rightarrow> nat \<Rightarrow> ('f, 'o) rvalue" where
  "field_at s i = FieldVal (s ! i)"

definition verdict :: "string \<Rightarrow> error + bool \<Rightarrow> error option res" where
  "verdict msg r = Inr (case r of Inl e \<Rightarrow> Some e | Inr ok \<Rightarrow> if \<not> ok then Some (ErrText msg) else None)"

definition with_params :: "Param \<Rightarrow> error option res \<Rightarrow> error option res" where
  "with_params p r =
     (if Message p = [] then Inr (Some MessageRequired)
      else if Value p = [] then Inr (Some ValueRequired) else r)"

definition GreaterThan :: "('f, 'o) validator" where
  "GreaterThan l s i p = with_params p (verdict (Message p) (isGt l (field_at s i) (Value p)))"

definition LowerThan :: "('f, 'o) validator" where
  "LowerThan l s i p = with_params p (verdict (Message p) (isLt l (field_at s i) (Value p)))"

text \<open>\<open>GreaterEqual\<close> returns the value as the message.\<close>

definition GreaterEqual :: "('f, 'o) validator" where
  "GreaterEqual l s i p = with_params p (verdict (Value p) (isGe l (field_at s i) (Value p)))"

definition LowerEqual :: "('f, 'o) validator" where
  "LowerEqual l s i p = with_params p (verdict (Message p) (isLe l (field_at s i) (Value p)))"

definition negate :: "error + bool \<Rightarrow> error + bool" where
  "negate r = rbind r (\<lambda>b. Inr (\<not> b))"

definition Equal :: "('f, 'o) validator" where
  "Equal l s i p = with_params p (verdict (Message p) (isEqual l (field_at s i) (Value p)))"

definition NotEqual :: "('f, 'o) validator" where
  "NotEqual l s i p = with_params p (verdict (Message p) (negate (isEqual l (field_at s i) (Value p))))"

definition Contains :: "('f, 'o) validator" where
  "Contains l s i p = with_params p (verdict (Message p) (isContains l (field_at s i) (Value p)))"

definition NotContains :: "('f, 'o) validator" where
  "NotContains l s i p = with_params p (verdict (Message p) (negate (isContains l (field_at s i) (Value p))))"

definition bounds_of :: "string \<Rightarrow> (string \<times> string) option" where
  "bounds_of v = (case split_at (CHR '','') v of [a, b] \<Rightarrow> Some (remove_spaces a, remove_spaces b) | _ \<Rightarrow> None)"

definition Between :: "('f, 'o) validator" where
  "Between l s i p = with_params p
     (case bounds_of (Value p) of
        None \<Rightarrow> Inr (Some (ErrText (Value p @ '' syntax error'')))
      | Some (mi, ma) \<Rightarrow> verdict (Message p) (isBetween l (field_at s i) mi ma))"

definition NotBetween :: "('f, 'o) validator" where
  "NotBetween l s i p = with_params p
     (case bounds_of (Value p) of
        None \<Rightarrow> Inr (Some (ErrText (Value p @ '' syntax error'')))
      | Some (mi, ma) \<Rightarrow> verdict (Message p) (negate (isBetween l (field_at s i) mi ma)))"

end
