(* ===== verification/FormBind.thy ===== *)
theory FormBind
  imports Validators
begin

text \<open>
  \<open>core/bind/bind\_value.go\<close> and \<open>core/bind/from.go\<close>: the fields of a struct are set from the values of a
  form.  A field holds a value of one of the kinds that the code tells apart; what \<open>json.Unmarshal\<close>,
  \<open>strconv.ParseFloat\<close> and \<open>time\<close> do is a parameter.  Every operation returns the new value together
  with a panic, an error or nil, since the part that was written before an error stays.
\<close>

section \<open>Fields\<close>

text \<open>
  Integers are kept at 64 bits, as \<open>Int()\<close> and \<open>Uint()\<close> show them.  \<open>SJson\<close> is a struct, a map or a
  pointer; \<open>time.Time\<close> (a struct) and \<open>*multipart.FileHeader\<close> (a pointer) are told from the others.
  A slice carries the zero value of its element type, since that decides how new elements are read.
\<close>

datatype ('f, 'j, 't, 'x) slot =
    SString string
  | SBool bool
  | SInt int_kind "64 word"
  | SUint uint_kind "64 word"
  | SFloat float_kind 'f
  | SJson 'j
  | STime 't
  | SFile "'x option"
  | SArray "('f, 'j, 't, 'x) slot list"
  | SSlice "('f, 'j, 't, 'x) slot" "('f, 'j, 't, 'x) slot list"
  | SOther

datatype bind_error = BindText string | BindNum num_error | BindLib string

type_synonym 'a bound = "'a \<times> bind_error option res"

record ('f, 'j, 't, 'x) bind_lib =
  parseFloat :: "string \<Rightarrow> nat \<Rightarrow> 'f \<times> num_error option"
  json_any :: "string \<Rightarrow> 'j \<Rightarrow> 'j \<times> string option"
  json_time :: "string \<Rightarrow> 't \<Rightarrow> 't \<times> string option"
  json_file :: "string \<Rightarrow> 'x option \<Rightarrow> 'x option \<times> string option"
  unix_time :: "int \<Rightarrow> 't"
  parse_time :: "string \<Rightarrow> string \<Rightarrow> string + 't"

text \<open>The bit sizes that \<open>bindSingle\<close> passes to the parsers; 0 stands for 64.\<close>

fun int_bits :: "int_kind \<Rightarrow> nat" where
  "int_bits KInt = 0"
| "int_bits KInt8 = 8"
| "int_bits KInt16 = 16"
| "int_bits KInt32 = 32"
| "int_bits KInt64 = 64"

fun uint_bits :: "uint_kind \<Rightarrow> nat" where
  "uint_bits KUint = 0"
| "uint_bits KUint8 = 8"
| "uint_bits KUint16 = 16"
| "uint_bits KUint32 = 32"
| "uint_bits KUint64 = 64"

section \<open>Setting one value\<close>

text \<open>The empty text stands for zero; the field changes only when the text can be read.\<close>

definition bindInt :: "int_kind \<Rightarrow> 64 word \<Rightarrow> string \<Rightarrow> ('f, 'j, 't, 'x) slot \<times> bind_error option" where
  "bindInt k x v =
     (case ParseInt (if v = [] then ''0'' else v) (int_bits k) of
        (n, None) \<Rightarrow> (SInt k (word_of_int n), None)
      | (_, Some e) \<Rightarrow> (SInt k x, Some (BindNum e)))"

definition bindUint :: "uint_kind \<Rightarrow> 64 word \<Rightarrow> string \<Rightarrow> ('f, 'j, 't, 'x) slot \<times> bind_error option" where
  "bindUint k x v =
     (case ParseUint (if v = [] then ''0'' else v) (uint_bits k) of
        (n, None) \<Rightarrow> (SUint k (of_nat n), None)
      | (_, Some e) \<Rightarrow> (SUint k x, Some (BindNum e)))"

definition bindFloat ::
  "('f, 'j, 't, 'x) bind_lib \<Rightarrow> float_kind \<Rightarrow> 'f \<Rightarrow> string \<Rightarrow> ('f, 'j, 't, 'x) slot \<times> bind_error option" where
  "bindFloat l k x v =
     (case parseFloat l (if v = [] then ''0.0'' else v) (if k = KFloat32 then 32 else 64) of
        (n, None) \<Rightarrow> (SFloat k n, None)
      | (_, Some e) \<Rightarrow> (SFloat k x, Some (BindNum e)))"

definition bindBool :: "bool \<Rightarrow> string \<Rightarrow> ('f, 'j, 't, 'x) slot \<times> bind_error option" where
  "bindBool b v =
     (case ParseBool (if v = [] then ''0'' else v) of
        (n, None) \<Rightarrow> (SBool n, None)
      | (_, Some e) \<Rightarrow> (SBool b, Some (BindNum e)))"

definition from_json :: "('a \<Rightarrow> 'b) \<Rightarrow> 'a \<times> string option \<Rightarrow> 'b \<times> bind_error option" where
  "from_json = (\<lambda>c. map_prod c (map_option BindLib))"

fun bindSingle ::
  "('f, 'j, 't, 'x) bind_lib \<Rightarrow> ('f, 'j, 't, 'x) slot \<Rightarrow> string \<Rightarrow> ('f, 'j, 't, 'x) slot \<times> bind_error option" where
  "bindSingle l (SString s) v = (SString v, None)"
| "bindSingle l (SInt k x) v = bindInt k x v"
| "bindSingle l (SUint k x) v = bindUint k x v"
| "bindSingle l (SFloat k x) v = bindFloat l k x v"
| "bindSingle l (SBool b) v = bindBool b v"
| "bindSingle l (SJson j) v = from_json SJson (json_any l v j)"
| "bindSingle l (STime t) v = from_json STime (json_time l v t)"
| "bindSingle l (SFile x) v = from_json SFile (json_file l v x)"
| "bindSingle l s v = (s, Some (BindText ''unknown type got''))"

section \<open>Arrays and slices\<close>

text \<open>The loop stops at the first error; an index past the end panics.\<close>

definition array_panic :: panic where
  "array_panic = PanicMsg ''reflect: array index out of range''"

fun bindArray ::
  "('f, 'j, 't, 'x) bind_lib \<Rightarrow> ('f, 'j, 't, 'x) slot list \<Rightarrow> string list \<Rightarrow> ('f, 'j, 't, 'x) slot list bound" where
  "bindArray l es [] = (es, Inr None)"
| "bindArray l [] (v # vs) = ([], Inl array_panic)"
| "bindArray l (e # es) (v # vs) =
     (case bindSingle l e v of
        (e1, Some err) \<Rightarrow> (e1 # es, Inr (Some err))
      | (e1, None) \<Rightarrow> (case bindArray l es vs of (es1, r) \<Rightarrow> (e1 # es1, r)))"

text \<open>A fresh slice of zero values is filled, and replaces the field only when all went well.\<close>

definition bindSlice ::
  "('f, 'j, 't, 'x) bind_lib \<Rightarrow> ('f, 'j, 't, 'x) slot \<Rightarrow> ('f, 'j, 't, 'x) slot list \<Rightarrow> string list \<Rightarrow>
   ('f, 'j, 't, 'x) slot bound" where
  "bindSlice l zero es vs =
     (case bindArray l (replicate (length vs) zero) vs of
        (es1, Inr None) \<Rightarrow> (SSlice zero es1, Inr None)
      | (_, r) \<Rightarrow> (SSlice zero es, r))"

definition bind ::
  "('f, 'j, 't, 'x) bind_lib \<Rightarrow> ('f, 'j, 't, 'x) slot \<Rightarrow> string list \<Rightarrow> ('f, 'j, 't, 'x) slot bound" where
  "bind l s vs =
     (case s of
        SArray es \<Rightarrow> map_prod SArray id (bindArray l es vs)
      | SSlice zero es \<Rightarrow> bindSlice l zero es vs
      | _ \<Rightarrow> (if length vs > 0 then map_prod id Inr (bindSingle l s (vs ! 0)) else (s, Inr None)))"

section \<open>Methods for times\<close>

type_synonym ('f, 'j, 't, 'x) bind_method =
  "('f, 'j, 't, 'x) slot \<Rightarrow> string list \<Rightarrow> ('f, 'j, 't, 'x) slot bound"

definition first_value :: "string list \<Rightarrow> string" where
  "first_value vs = (if length vs > 0 then vs ! 0 else [])"

definition Int64TimeBinder :: "('f, 'j, 't, 'x) bind_lib \<Rightarrow> ('f, 'j, 't, 'x) bind_method" where
  "Int64TimeBinder l s vs =
     (case s of
        STime t \<Rightarrow>
          (case ParseInt (first_value vs) 64 of
             (n, None) \<Rightarrow> (STime (unix_time l n), Inr None)
           | (_, Some e) \<Rightarrow> (s, Inr (Some (BindNum e))))
      | _ \<Rightarrow> (s, Inr (Some (BindText ''time.Time type required''))))"

definition FormatTimeBinder :: "('f, 'j, 't, 'x) bind_lib \<Rightarrow> string \<Rightarrow> ('f, 'j, 't, 'x) bind_method" where
  "FormatTimeBinder l format s vs =
     (case s of
        STime t \<Rightarrow>
          (case parse_time l format (first_value vs) of
             Inr t1 \<Rightarrow> (STime t1, Inr None)
           | Inl e \<Rightarrow> (s, Inr (Some (BindLib e))))
      | _ \<Rightarrow> (s, Inr (Some (BindText ''time.Time type required''))))"

section \<open>Files\<close>

text \<open>
  The loop that removes nil files ranges over the slice as it was, while every removal shifts the
  shared array to the left: \<open>a\<close> is the array, \<open>n\<close> the length of \<open>files\<close>.
\<close>

fun remove_nil :: "nat list \<Rightarrow> 'x option list \<Rightarrow> nat \<Rightarrow> 'x option list res" where
  "remove_nil [] a n = Inr (take n a)"
| "remove_nil (i # js) a n =
     (if a ! i = None then
        if i + 1 > n then Inl SliceBounds
        else remove_nil js (take i a @ drop (i + 1) (take n a) @ drop (n - 1) a) (n - 1)
      else remove_nil js a n)"

definition nil_panic :: panic where
  "nil_panic = PanicMsg ''reflect: call of reflect.Value.Addr on zero Value''"

definition bindFile :: "('f, 'j, 't, 'x) slot \<Rightarrow> 'x option list \<Rightarrow> ('f, 'j, 't, 'x) slot bound" where
  "bindFile s files =
     (case remove_nil [0..<length files] files (length files) of
        Inl p \<Rightarrow> (s, Inl p)
      | Inr fs \<Rightarrow>
          (case s of
             SFile _ \<Rightarrow>
               (case fs of
                  [] \<Rightarrow> (s, Inr (Some (BindText ''no such file found'')))
                | None # _ \<Rightarrow> (s, Inl nil_panic)
                | Some x # _ \<Rightarrow> (SFile (Some x), Inr None))
           | SSlice (SFile z) es \<Rightarrow>
               (if None \<in> set fs then (s, Inl nil_panic) else (SSlice (SFile z) (map SFile fs), Inr None))
           | _ \<Rightarrow> (s, Inr (Some (BindText ''unknown type got'')))))"

section \<open>Forms\<close>

record ('f, 'j, 't, 'x) bfield =
  BName :: string
  BTags :: "string \<Rightarrow> string option"      \<comment> \<open>\<open>field.Tag.Lookup\<close>\<close>
  BSlot :: "('f, 'j, 't, 'x) slot"

text \<open>The argument of a binder: a pointer to a struct, or a struct.\<close>

datatype ('f, 'j, 't, 'x) target =
    Ptr "('f, 'j, 't, 'x) bfield list"
  | NotPtr "('f, 'j, 't, 'x) bfield list"

record ('f, 'j, 't, 'x) URLValueBinder =
  TagName :: string
  BindTagName :: string
  BindMethods :: "string \<rightharpoonup> ('f, 'j, 't, 'x) bind_method option"    \<comment> \<open>a method may be nil\<close>

definition AddBindMethod ::
  "string \<Rightarrow> ('f, 'j, 't, 'x) bind_method option \<Rightarrow> ('f, 'j, 't, 'x) URLValueBinder \<Rightarrow>
   bind_error option \<times> ('f, 'j, 't, 'x) URLValueBinder" where
  "AddBindMethod name m u =
     (if BindMethods u name \<noteq> None then (Some (BindText (name @ '' already exist'')), u)
      else (None, u\<lparr>BindMethods := (BindMethods u)(name \<mapsto> m)\<rparr>))"

text \<open>The key of a field and its default values, from its tag or its name.\<close>

definition tags_of :: "string \<Rightarrow> ('f, 'j, 't, 'x) bfield \<Rightarrow> string list" where
  "tags_of tagName f = split_at (CHR '','') (case BTags f tagName of None \<Rightarrow> BName f | Some tag \<Rightarrow> tag)"

definition form_key :: "string \<Rightarrow> ('f, 'j, 't, 'x) bfield \<Rightarrow> string" where
  "form_key tagName f = tags_of tagName f ! 0"

definition default_values :: "string \<Rightarrow> ('f, 'j, 't, 'x) bfield \<Rightarrow> string list" where
  "default_values tagName f = (if length (tags_of tagName f) \<noteq> 1 then drop 1 (tags_of tagName f) else [])"

text \<open>One round of the loop over the fields: the field's new value, and to go on or to return.\<close>

datatype flow = Next | Stop "bind_error option res"

definition or_stop :: "'a bound \<Rightarrow> ('a \<Rightarrow> 'a \<times> flow) \<Rightarrow> 'a \<times> flow" where
  "or_stop b k = (case b of (s, Inr None) \<Rightarrow> k s | (s, r) \<Rightarrow> (s, Stop r))"

fun each_field ::
  "(('f, 'j, 't, 'x) bfield \<Rightarrow> ('f, 'j, 't, 'x) slot \<times> flow) \<Rightarrow> ('f, 'j, 't, 'x) bfield list \<Rightarrow>
   ('f, 'j, 't, 'x) bfield list bound" where
  "each_field step [] = ([], Inr None)"
| "each_field step (f # fs) =
     (case step f of
        (s, Stop r) \<Rightarrow> (f\<lparr>BSlot := s\<rparr> # fs, r)
      | (s, Next) \<Rightarrow> (case each_field step fs of (fs1, r) \<Rightarrow> (f\<lparr>BSlot := s\<rparr> # fs1, r)))"

definition into_struct ::
  "(('f, 'j, 't, 'x) bfield \<Rightarrow> ('f, 'j, 't, 'x) slot \<times> flow) \<Rightarrow> ('f, 'j, 't, 'x) target \<Rightarrow>
   ('f, 'j, 't, 'x) target bound" where
  "into_struct step v =
     (case v of
        NotPtr fs \<Rightarrow> (v, Inr (Some (BindText ''pointer type required'')))
      | Ptr fs \<Rightarrow> map_prod Ptr id (each_field step fs))"

text \<open>
  \<open>BindForm\<close>: a default is bound when the form has no such key, and then the missing values as well;
  with values, a method named by the tag takes over; when the values cannot be bound, a default that
  can be is bound and \<open>nil\<close> is returned from the loop.
\<close>

definition bind_values ::
  "('f, 'j, 't, 'x) bind_lib \<Rightarrow> string list \<Rightarrow> string list \<Rightarrow> ('f, 'j, 't, 'x) slot \<Rightarrow>
   ('f, 'j, 't, 'x) slot \<times> flow" where
  "bind_values l vs def s =
     (case bind l s vs of
        (s1, Inr None) \<Rightarrow> (s1, Next)
      | (s1, Inl p) \<Rightarrow> (s1, Stop (Inl p))
      | (s1, Inr (Some e)) \<Rightarrow>
          if length def > 0 then (case bind l s1 def of (s2, r) \<Rightarrow> (s2, Stop r))
          else (s1, Stop (Inr (Some e))))"

definition form_step ::
  "('f, 'j, 't, 'x) bind_lib \<Rightarrow> ('f, 'j, 't, 'x) URLValueBinder \<Rightarrow> form \<Rightarrow> ('f, 'j, 't, 'x) bfield \<Rightarrow>
   ('f, 'j, 't, 'x) slot \<times> flow" where
  "form_step l u form f =
     (let key = form_key (TagName u) f; def = default_values (TagName u) f; vs = values_at form key in
      if key = ''-'' then (BSlot f, Next)
      else if form key = None \<and> length def > 0
      then or_stop (bind l (BSlot f) def) (bind_values l vs def)
      else case BTags f (BindTagName u) of
        Some name \<Rightarrow>
          (case BindMethods u name of
             Some (Some m) \<Rightarrow> or_stop (m (BSlot f) vs) (\<lambda>s. (s, Next))
           | _ \<Rightarrow> (BSlot f, Stop (Inr (Some (BindText (''no method named '' @ name))))))
      | None \<Rightarrow> bind_values l vs def (BSlot f))"

definition BindForm ::
  "('f, 'j, 't, 'x) bind_lib \<Rightarrow> ('f, 'j, 't, 'x) URLValueBinder \<Rightarrow> form \<Rightarrow> ('f, 'j, 't, 'x) target \<Rightarrow>
   ('f, 'j, 't, 'x) target bound" where
  "BindForm l u form = into_struct (form_step l u form)"

section \<open>Multipart forms\<close>

record 'x multipart_form =
  FormValue :: form
  FormFile :: "string \<rightharpoonup> 'x option list"

record ('f, 'j, 't, 'x) HttpMultipartFormBinder = "('f, 'j, 't, 'x) URLValueBinder" +
  FieldTag :: string

text \<open>
  The files of a field: the name is the field's own when the tag is there and empty when it is not.
\<close>

definition is_file :: "('f, 'j, 't, 'x) slot \<Rightarrow> bool" where
  "is_file s = (case s of SFile _ \<Rightarrow> True | SSlice (SFile _) _ \<Rightarrow> True | _ \<Rightarrow> False)"

definition file_step ::
  "string \<Rightarrow> 'x multipart_form \<Rightarrow> ('f, 'j, 't, 'x) bfield \<Rightarrow> ('f, 'j, 't, 'x) slot \<Rightarrow>
   ('f, 'j, 't, 'x) slot \<times> flow" where
  "file_step fileTag form f s =
     (if is_file s then
        let name = (if BTags f fileTag \<noteq> None then BName f else [])
        in if name = ''-'' then (s, Next)
           else case FormFile form name of
             Some files \<Rightarrow> or_stop (bindFile s files) (\<lambda>s. (s, Next))
           | None \<Rightarrow> (s, Next)
      else (s, Next))"

text \<open>Values that cannot be bound are no error here, unless a default cannot be bound either.\<close>

definition bind_or_default ::
  "('f, 'j, 't, 'x) bind_lib \<Rightarrow> string list \<Rightarrow> string list \<Rightarrow> ('f, 'j, 't, 'x) slot \<Rightarrow>
   ('f, 'j, 't, 'x) slot \<times> flow" where
  "bind_or_default l vs def s =
     (case bind l s vs of
        (s1, Inr None) \<Rightarrow> (s1, Next)
      | (s1, Inl p) \<Rightarrow> (s1, Stop (Inl p))
      | (s1, Inr (Some e)) \<Rightarrow>
          if length def > 0 then or_stop (bind l s1 def) (\<lambda>s. (s, Next)) else (s1, Next))"

definition multipart_step ::
  "('f, 'j, 't, 'x) bind_lib \<Rightarrow> ('f, 'j, 't, 'x) HttpMultipartFormBinder \<Rightarrow> 'x multipart_form \<Rightarrow>
   ('f, 'j, 't, 'x) bfield \<Rightarrow> ('f, 'j, 't, 'x) slot \<times> flow" where
  "multipart_step l h form f =
     (let key = form_key (TagName h) f; def = default_values (TagName h) f in
      if key = ''-'' then (BSlot f, Next)
      else case FormValue form key of
        Some vs \<Rightarrow>
          (case BTags f (BindTagName h) of
             Some name \<Rightarrow>
               (case BindMethods h name of
                  Some (Some m) \<Rightarrow> or_stop (m (BSlot f) vs) (\<lambda>s. (s, Next))
                | _ \<Rightarrow> (BSlot f, Next))
           | None \<Rightarrow> bind_or_default l vs def (BSlot f))
      | None \<Rightarrow>
          if length def > 0 then or_stop (bind l (BSlot f) def) (file_step (FieldTag h) form f)
          else file_step (FieldTag h) form f (BSlot f))"

definition BindMultipartForm ::
  "('f, 'j, 't, 'x) bind_lib \<Rightarrow> ('f, 'j, 't, 'x) HttpMultipartFormBinder \<Rightarrow> 'x multipart_form option \<Rightarrow>
   ('f, 'j, 't, 'x) target \<Rightarrow> ('f, 'j, 't, 'x) target bound" where
  "BindMultipartForm l h form v =
     (case form of
        None \<Rightarrow> (v, Inr (Some (BindText ''nil *multipart.Form got'')))
      | Some fm \<Rightarrow> into_struct (multipart_step l h fm) v)"

text \<open>The binders of \<open>binder.go\<close>: the tag that names the key, and no methods.\<close>

definition url_binder :: "string \<Rightarrow> ('f, 'j, 't, 'x) URLValueBinder" where
  "url_binder tag = \<lparr>TagName = tag, BindTagName = ''bind'', BindMethods = Map.empty\<rparr>"

definition file_binder :: "('f, 'j, 't, 'x) HttpMultipartFormBinder" where
  "file_binder = \<lparr>TagName = ''form'', BindTagName = ''bind'', BindMethods = Map.empty, FieldTag = ''file''\<rparr>"

end
