(* ===== verification/FormFacts.thy ===== *)
theory FormFacts
  imports FormBind
begin

text \<open>
  What binding a form does to a struct: it keeps every field within its type, it reads back what was
  written from a struct of the same types, and what happens on values that cannot be read.
\<close>

section \<open>Types\<close>

text \<open>The type of a field's value, and the values that a field of an integer type can hold.\<close>

datatype ty =
    TString | TBool | TInt int_kind | TUint uint_kind | TFloat float_kind | TJson | TTime | TFile
  | TArray "ty list" | TSlice ty | TOther

fun type_of :: "('f, 'j, 't, 'x) slot \<Rightarrow> ty" where
  "type_of (SString _) = TString"
| "type_of (SBool _) = TBool"
| "type_of (SInt k _) = TInt k"
| "type_of (SUint k _) = TUint k"
| "type_of (SFloat k _) = TFloat k"
| "type_of (SJson _) = TJson"
| "type_of (STime _) = TTime"
| "type_of (SFile _) = TFile"
| "type_of (SArray es) = TArray (map type_of es)"
| "type_of (SSlice zero _) = TSlice (type_of zero)"
| "type_of SOther = TOther"

fun well_typed :: "('f, 'j, 't, 'x) slot \<Rightarrow> bool" where
  "well_typed (SInt k x) = in_range (int_bits k) (sint x)"
| "well_typed (SUint k x) = (unat x < 2 ^ bits_of (uint_bits k))"
| "well_typed (SArray es) = list_all well_typed es"
| "well_typed (SSlice zero es) = (well_typed zero \<and> list_all (\<lambda>e. well_typed e \<and> type_of e = type_of zero) es)"
| "well_typed _ = True"

text \<open>A value that may take the place of another.\<close>

definition fits :: "('f, 'j, 't, 'x) slot \<Rightarrow> ('f, 'j, 't, 'x) slot \<Rightarrow> bool" where
  "fits s s1 \<longleftrightarrow> well_typed s1 \<and> type_of s1 = type_of s"

lemma int_bits_le: "bits_of (int_bits k) \<le> 64" "1 < bits_of (int_bits k)"
  by (cases k; simp add: bits_of_def)+

lemma uint_bits_le: "bits_of (uint_bits k) \<le> 64"
  by (cases k; simp add: bits_of_def)

text \<open>The parsers stay within the bit size.\<close>

lemma parse_digits_bound: "parse_digits b n s = (r, None) \<Longrightarrow> n \<le> b \<Longrightarrow> r \<le> b"
  by (induction b n s rule: parse_digits.induct) (auto split: option.splits if_splits)

lemma ParseUint_bound:
  assumes "ParseUint s b = (n, None)"
  shows "n < 2 ^ bits_of b"
proof -
  have "n \<le> 2 ^ bits_of b - 1"
    using assms parse_digits_bound [of "2 ^ bits_of b - 1" 0 s n] by (auto simp: ParseUint_def split: if_splits)
  then show ?thesis using zero_less_power [of "2 :: nat" "bits_of b"] by linarith
qed

lemma ParseInt_bound:
  assumes "ParseInt s b = (z, None)"
  shows "in_range b z"
proof -
  obtain un err where u: "ParseUint (if hd s = CHR ''+'' \<or> hd s = CHR ''-'' then tl s else s) b = (un, err)"
    by fastforce
  define c where "c = (2 :: nat) ^ (bits_of b - 1)"
  have "z = int un \<and> un < c \<or> z = - int un \<and> un \<le> c"
    using assms u unfolding c_def by (auto simp: ParseInt_def Let_def split: if_splits)
  moreover have p: "(2 :: int) ^ (bits_of b - 1) = int c" "0 < c" by (simp_all add: c_def)
  ultimately show ?thesis unfolding in_range_def p(1) by linarith
qed

lemma in_range_64: "in_range b z \<Longrightarrow> bits_of b \<le> 64 \<Longrightarrow> in_range 64 z"
proof -
  assume r: "in_range b z" "bits_of b \<le> 64"
  have "(2 :: int) ^ (bits_of b - 1) \<le> 2 ^ 63"
    using r(2) by (intro power_increasing) auto
  then show ?thesis using r(1) by (auto simp: in_range_def bits_of_def)
qed

lemma sint_in_range: "in_range 64 z \<Longrightarrow> sint (word_of_int z :: 64 word) = z"
  by (simp add: in_range_def bits_of_def signed_take_bit_int_eq_self sint_sbintrunc')


text \<open>Every operation on a field keeps it within its type.\<close>

lemma fits_self: "well_typed s \<Longrightarrow> fits s s"
  by (simp add: fits_def)

lemma word_in_range: "in_range (int_bits k) z \<Longrightarrow> in_range (int_bits k) (sint (word_of_int z :: 64 word))"
  by (simp add: sint_in_range in_range_64 [OF _ int_bits_le(1)])

lemma bindInt_fits: "well_typed (SInt k x) \<Longrightarrow> fits (SInt k x) (fst (bindInt k x v))"
  by (auto simp: bindInt_def fits_def word_in_range dest!: ParseInt_bound split: prod.split option.split)

lemma bindUint_fits: "well_typed (SUint k x) \<Longrightarrow> fits (SUint k x) (fst (bindUint k x v))"
proof -
  have "n < 2 ^ bits_of (uint_bits k) \<Longrightarrow> unat (of_nat n :: 64 word) < 2 ^ bits_of (uint_bits k)" for n
    using unat_of_nat [where ?'a = 64, of n] mod_less_eq_dividend [of n "2 ^ 64"] by simp
  then show "well_typed (SUint k x) \<Longrightarrow> fits (SUint k x) (fst (bindUint k x v))"
    by (auto simp: bindUint_def fits_def dest!: ParseUint_bound split: prod.split option.split)
qed

lemma bindSingle_fits: "well_typed s \<Longrightarrow> fits s (fst (bindSingle l s v))"
proof (cases s)
  case (SInt k x)
  then show "well_typed s \<Longrightarrow> ?thesis" by (simp only: bindSingle.simps bindInt_fits)
next
  case (SUint k x)
  then show "well_typed s \<Longrightarrow> ?thesis" by (simp only: bindSingle.simps bindUint_fits)
qed (auto simp: fits_def bindFloat_def bindBool_def from_json_def split: prod.split option.split)

lemma bindArray_fits:
  "list_all well_typed es \<Longrightarrow> list_all2 fits es (fst (bindArray l es vs))"
proof (induction l es vs rule: bindArray.induct)
  case (3 l e es v vs)
  have "fits e (fst (bindSingle l e v))" using 3(2) by (simp add: bindSingle_fits)
  moreover have "list_all2 fits es es" using 3(2) by (auto simp: list_all2_same list_all_iff fits_def)
  ultimately show ?case using 3 by (auto split: prod.split option.split)
qed (auto simp: list_all2_same list_all_iff fits_def)

lemma fits_list: "list_all2 fits es es1 \<Longrightarrow> list_all well_typed es1 \<and> map type_of es1 = map type_of es"
  by (induction rule: list_all2_induct) (auto simp: fits_def)

lemma bindSlice_fits:
  assumes "well_typed (SSlice zero es)"
  shows "fits (SSlice zero es) (fst (bindSlice l zero es vs))"
proof -
  obtain es1 r where b: "bindArray l (replicate (length vs) zero) vs = (es1, r)" by fastforce
  have "list_all2 fits (replicate (length vs) zero) es1"
    using assms bindArray_fits [of "replicate (length vs) zero" l vs] b by (simp add: list_all_iff)
  then have "list_all (\<lambda>e. well_typed e \<and> type_of e = type_of zero) es1"
    by (auto simp: list_all2_conv_all_nth list_all_length fits_def)
  then show ?thesis
    using assms b by (auto simp: bindSlice_def fits_def split: sum.split option.split)
qed

lemma bind_fits: "well_typed s \<Longrightarrow> fits s (fst (bind l s vs))"
proof (cases s)
  case (SArray es)
  assume "well_typed s"
  then have "list_all2 fits es (fst (bindArray l es vs))" using SArray bindArray_fits by simp
  from fits_list [OF this] show ?thesis by (simp add: bind_def SArray fits_def)
next
  case (SSlice zero es)
  assume "well_typed s"
  then show ?thesis using SSlice bindSlice_fits by (auto simp: bind_def)
qed (auto simp: bind_def fits_self bindSingle_fits simp del: bindSingle.simps well_typed.simps)

lemma bindFile_fits: "well_typed s \<Longrightarrow> fits s (fst (bindFile s files))"
  by (auto simp: bindFile_def fits_def list_all_iff split: sum.split slot.split list.split option.split)

text \<open>
  The contract of a round of the loop: it leaves a value of the field's type.  Under it, the loop keeps
  the struct: the same fields with the same names and tags, each within its type.
\<close>

definition field_fits :: "('f, 'j, 't, 'x) bfield \<Rightarrow> ('f, 'j, 't, 'x) bfield \<Rightarrow> bool" where
  "field_fits f g \<longleftrightarrow> BName g = BName f \<and> BTags g = BTags f \<and> fits (BSlot f) (BSlot g)"

fun struct_typed :: "('f, 'j, 't, 'x) target \<Rightarrow> bool" where
  "struct_typed (Ptr fs) = list_all (well_typed \<circ> BSlot) fs"
| "struct_typed (NotPtr fs) = list_all (well_typed \<circ> BSlot) fs"

fun struct_fits :: "('f, 'j, 't, 'x) target \<Rightarrow> ('f, 'j, 't, 'x) target \<Rightarrow> bool" where
  "struct_fits (Ptr fs) (Ptr gs) = list_all2 field_fits fs gs"
| "struct_fits (NotPtr fs) (NotPtr gs) = list_all2 field_fits fs gs"
| "struct_fits _ _ = False"

lemma fields_fit_self: "list_all (well_typed \<circ> BSlot) fs \<Longrightarrow> list_all2 field_fits fs fs"
  by (auto simp: list_all2_same list_all_iff field_fits_def fits_self)

lemma struct_typed_fits: "struct_typed v \<Longrightarrow> struct_fits v v"
  by (cases v) (simp_all add: fields_fit_self del: o_apply)

locale typed_step =
  fixes step :: "('f, 'j, 't, 'x) bfield \<Rightarrow> ('f, 'j, 't, 'x) slot \<times> flow"
  assumes step_fits: "well_typed (BSlot f) \<Longrightarrow> fits (BSlot f) (fst (step f))"
begin

lemma each_field_fits:
  "list_all (well_typed \<circ> BSlot) fs \<Longrightarrow> list_all2 field_fits fs (fst (each_field step fs))"
proof (induction fs)
  case (Cons f fs)
  then have "fits (BSlot f) (fst (step f))" by (simp add: step_fits)
  then have "field_fits f (f\<lparr>BSlot := fst (step f)\<rparr>)" by (simp add: field_fits_def)
  moreover have "list_all2 field_fits fs fs"
    using Cons.prems by (intro fields_fit_self) (simp add: o_def)
  ultimately show ?case
    using Cons by (auto split: prod.split flow.split)
qed simp

lemma into_struct_fits: "struct_typed v \<Longrightarrow> struct_fits v (fst (into_struct step v))"
  by (cases v) (simp_all add: into_struct_def each_field_fits fields_fit_self del: o_apply)

end

text \<open>The methods of a binder keep the type of the value, as \<open>reflect\<close> demands; the two for times do.\<close>

definition typed_methods :: "(string \<rightharpoonup> ('f, 'j, 't, 'x) bind_method option) \<Rightarrow> bool" where
  "typed_methods ms \<longleftrightarrow> (\<forall>name m s vs. ms name = Some (Some m) \<longrightarrow> well_typed s \<longrightarrow> fits s (fst (m s vs)))"

lemma typed_methods_empty: "typed_methods Map.empty"
  by (simp add: typed_methods_def)

lemma time_methods_fit:
  "well_typed s \<Longrightarrow> fits s (fst (Int64TimeBinder l s vs))"
  "well_typed s \<Longrightarrow> fits s (fst (FormatTimeBinder l format s vs))"
  by (auto simp: Int64TimeBinder_def FormatTimeBinder_def fits_def
      split: slot.split prod.split option.split sum.split)

lemma fits_trans: "fits s s1 \<Longrightarrow> fits s1 s2 \<Longrightarrow> fits s s2"
  by (simp add: fits_def)

lemma or_stop_fits:
  "\<lbrakk>fits s (fst b); \<And>s1. fits s s1 \<Longrightarrow> fits s (fst (k s1))\<rbrakk> \<Longrightarrow> fits s (fst (or_stop b k))"
  by (auto simp: or_stop_def split: prod.split sum.split option.split)

lemma bind_fits_trans: "fits s s1 \<Longrightarrow> fits s (fst (bind l s1 vs))"
  using bind_fits fits_trans by (metis fits_def)

lemma bind_values_fits:
  assumes "fits s s1"
  shows "fits s (fst (bind_values l vs def s1))"
proof -
  obtain s2 r where b: "bind l s1 vs = (s2, r)" by fastforce
  have "fits s s2" using bind_fits_trans [OF assms, of l vs] b by simp
  moreover from this have "fits s (fst (bind l s2 def))" by (rule bind_fits_trans)
  ultimately show ?thesis
    by (auto simp: bind_values_def b split: sum.split option.split prod.split)
qed

lemma form_step_fits:
  assumes "typed_methods (BindMethods u)" "well_typed (BSlot f)"
  shows "fits (BSlot f) (fst (form_step l u form f))"
  using assms
  by (auto simp: form_step_def Let_def fits_self typed_methods_def bind_fits
      intro!: or_stop_fits bind_values_fits split: option.split)

lemma bindFile_fits_trans: "fits s s1 \<Longrightarrow> fits s (fst (bindFile s1 files))"
  using bindFile_fits fits_trans by (metis fits_def)

lemma file_step_fits: "fits s s1 \<Longrightarrow> fits s (fst (file_step t form f s1))"
  by (auto simp: file_step_def Let_def intro!: or_stop_fits bindFile_fits_trans split: option.split)

lemma bind_or_default_fits: "well_typed s \<Longrightarrow> fits s (fst (bind_or_default l vs def s))"
  using bind_fits [of s l vs]
  by (auto simp: bind_or_default_def intro!: or_stop_fits bind_fits_trans
      split: prod.split sum.split option.split)

lemma multipart_step_fits:
  assumes "typed_methods (BindMethods h)" "well_typed (BSlot f)"
  shows "fits (BSlot f) (fst (multipart_step l h form f))"
  using assms
  by (auto simp: multipart_step_def Let_def fits_self typed_methods_def bind_fits bind_or_default_fits
      intro!: or_stop_fits file_step_fits split: option.split)

interpretation plain_form: typed_step
  "form_step l \<lparr>TagName = tag, BindTagName = bindTag, BindMethods = Map.empty\<rparr> form" for l tag bindTag form
  by unfold_locales (simp add: form_step_fits typed_methods_empty)

interpretation plain_multipart: typed_step
  "multipart_step l \<lparr>TagName = tag, BindTagName = bindTag, BindMethods = Map.empty, FieldTag = fileT\<rparr> form"
  for l tag bindTag fileT form
  by unfold_locales (simp add: multipart_step_fits typed_methods_empty)

text \<open>C14: binding a form or a multipart form never takes a field out of its type, whether it succeeds,
  fails or panics: the struct keeps its fields with their names and tags, every value keeps its type,
  and every integer stays within the width of its kind, provided that the methods of the binder do
  so.\<close>

theorem binding_keeps_types:
  assumes "typed_methods (BindMethods u)" "typed_methods (BindMethods h)" "struct_typed v"
  shows "struct_fits v (fst (BindForm l u form v)) \<and> struct_fits v (fst (BindMultipartForm l h mform v))"
proof
  show "struct_fits v (fst (BindForm l u form v))"
    unfolding BindForm_def
    by (intro typed_step.into_struct_fits typed_step.intro form_step_fits assms)
  show "struct_fits v (fst (BindMultipartForm l h mform v))"
    unfolding BindMultipartForm_def
    by (cases mform) (auto intro!: typed_step.into_struct_fits typed_step.intro multipart_step_fits
        intro: assms struct_typed_fits)
qed

definition plain_bind_lib :: "(unit, unit, unit, unit) bind_lib" where
  "plain_bind_lib = \<lparr>parseFloat = (\<lambda>_ _. ((), None)), json_any = (\<lambda>_ j. (j, Some [])), json_time = (\<lambda>_ t. (t, Some [])),
     json_file = (\<lambda>_ x. (x, Some [])), unix_time = (\<lambda>_. ()), parse_time = (\<lambda>_ _. Inr ())\<rparr>"

definition plain_field :: "string \<Rightarrow> string option \<Rightarrow> ('f, 'j, 't, 'x) slot \<Rightarrow> ('f, 'j, 't, 'x) bfield" where
  "plain_field name tag s = \<lparr>BName = name, BTags = (\<lambda>t. if t = ''form'' then tag else None), BSlot = s\<rparr>"

theorem binding_keeps_types_witness:
  "struct_fits (Ptr [plain_field ''Age'' None (SInt KInt8 5)])
     (fst (BindForm plain_bind_lib (url_binder ''form'') [''Age'' \<mapsto> [''300'']]
       (Ptr [plain_field ''Age'' None (SInt KInt8 5)])))"
  by (rule conjunct1 [OF binding_keeps_types [where h = file_binder]])
    (simp_all add: url_binder_def file_binder_def typed_methods_empty plain_field_def in_range_def bits_of_def)

section \<open>Reading back what was written\<close>

text \<open>The texts of a value: strings as they are, numbers in decimal, one text per element.\<close>

fun text_of :: "('f, 'j, 't, 'x) slot \<Rightarrow> string" where
  "text_of (SString s) = s"
| "text_of (SBool b) = (if b then ''true'' else ''false'')"
| "text_of (SInt k x) = decimal (sint x)"
| "text_of (SUint k x) = nat_digits (unat x)"
| "text_of _ = []"

fun scalar :: "('f, 'j, 't, 'x) slot \<Rightarrow> bool" where
  "scalar (SString s) = True"
| "scalar (SBool b) = True"
| "scalar (SInt k x) = in_range (int_bits k) (sint x)"
| "scalar (SUint k x) = (unat x < 2 ^ bits_of (uint_bits k))"
| "scalar _ = False"

definition texts_of :: "('f, 'j, 't, 'x) slot \<Rightarrow> string list" where
  "texts_of s = (case s of SArray es \<Rightarrow> map text_of es | SSlice zero es \<Rightarrow> map text_of es | _ \<Rightarrow> [text_of s])"

text \<open>A value that can be written and read back into the place of another.\<close>

definition replaceable :: "('f, 'j, 't, 'x) slot \<Rightarrow> ('f, 'j, 't, 'x) slot \<Rightarrow> bool" where
  "replaceable s t = (case t of
     SArray ts \<Rightarrow> (case s of SArray ss \<Rightarrow> list_all2 (\<lambda>s t. type_of s = type_of t \<and> scalar t) ss ts | _ \<Rightarrow> False)
   | SSlice zero ts \<Rightarrow>
       (case s of SSlice z _ \<Rightarrow> z = zero \<and> list_all (\<lambda>t. type_of t = type_of zero \<and> scalar t) ts | _ \<Rightarrow> False)
   | _ \<Rightarrow> type_of s = type_of t \<and> scalar t)"

lemma bindSingle_text: "\<lbrakk>type_of s = type_of t; scalar t\<rbrakk> \<Longrightarrow> bindSingle l s (text_of t) = (t, None)"
proof (cases t)
  case (SInt k x)
  assume "type_of s = type_of t" "scalar t"
  then show ?thesis
    using SInt by (cases s) (auto simp: bindInt_def decimal_not_Nil ParseInt_decimal [OF int_bits_le(2)])
next
  case (SUint k x)
  assume "type_of s = type_of t" "scalar t"
  then show ?thesis
    using SUint by (cases s) (auto simp: bindUint_def nat_digits_not_Nil ParseUint_decimal)
next
  case (SBool b)
  assume "type_of s = type_of t" "scalar t"
  then show ?thesis
    using SBool by (cases s) (auto simp: bindBool_def ParseBool_def)
next
  case (SString v)
  assume "type_of s = type_of t" "scalar t"
  then show ?thesis using SString by (cases s) auto
qed simp_all

lemma bindArray_texts:
  "list_all2 (\<lambda>s t. type_of s = type_of t \<and> scalar t) ss ts \<Longrightarrow> bindArray l ss (map text_of ts) = (ts, Inr None)"
  by (induction rule: list_all2_induct) (auto simp: bindSingle_text)

lemma bind_scalar: "\<lbrakk>type_of s = type_of t; scalar t\<rbrakk> \<Longrightarrow> bind l s [text_of t] = (t, Inr None)"
  by (cases t; cases s) (simp_all add: bind_def bindSingle_text del: bindSingle.simps text_of.simps)

lemma bind_texts:
  assumes "replaceable s t"
  shows "bind l s (texts_of t) = (t, Inr None)"
proof (cases t)
  case (SArray ts)
  with assms show ?thesis
    by (auto simp: replaceable_def bind_def texts_of_def bindArray_texts split: slot.splits)
next
  case (SSlice zero ts)
  then obtain es where s: "s = SSlice zero es" "list_all (\<lambda>t. type_of t = type_of zero \<and> scalar t) ts"
    using assms by (auto simp: replaceable_def split: slot.splits)
  then have "list_all2 (\<lambda>s t. type_of s = type_of t \<and> scalar t) (replicate (length ts) zero) ts"
    by (auto simp: list_all2_conv_all_nth list_all_length)
  from bindArray_texts [OF this, of l] show ?thesis
    by (simp add: bind_def bindSlice_def texts_of_def SSlice s(1))
qed (use assms bind_scalar [of s t l] in \<open>simp_all add: replaceable_def texts_of_def del: type_of.simps\<close>)

text \<open>The form that is written from a struct, and the structs that it can be read into.\<close>

definition form_of :: "string \<Rightarrow> ('f, 'j, 't, 'x) bfield list \<Rightarrow> form" where
  "form_of tagName gs = map_of (map (\<lambda>g. (form_key tagName g, texts_of (BSlot g))) gs)"

definition same_field :: "string \<Rightarrow> string \<Rightarrow> ('f, 'j, 't, 'x) bfield \<Rightarrow> ('f, 'j, 't, 'x) bfield \<Rightarrow> bool" where
  "same_field tagName bindTag f g \<longleftrightarrow> BName f = BName g \<and> BTags f = BTags g \<and> replaceable (BSlot f) (BSlot g) \<and>
     form_key tagName g \<noteq> ''-'' \<and> BTags g bindTag = None"

lemma form_key_cong: "BName f = BName g \<Longrightarrow> BTags f = BTags g \<Longrightarrow> form_key tagName f = form_key tagName g"
  by (simp add: form_key_def tags_of_def split: option.split)

lemma form_step_present:
  assumes "same_field (TagName u) (BindTagName u) f g" "form (form_key (TagName u) g) = Some (texts_of (BSlot g))"
  shows "form_step l u form f = (BSlot g, Next)"
  using assms form_key_cong [of f g "TagName u"]
  by (auto simp: form_step_def same_field_def Let_def bind_values_def values_at_def bind_texts)

lemma each_field_all:
  "\<lbrakk>list_all2 same fs gs; \<And>f g. same f g \<Longrightarrow> g \<in> set gs \<Longrightarrow> step f = (BSlot g, Next) \<and> f\<lparr>BSlot := BSlot g\<rparr> = g\<rbrakk> \<Longrightarrow>
   each_field step fs = (gs, Inr None)"
  by (induction rule: list_all2_induct) auto

lemma BindForm_fields:
  assumes "list_all2 (same_field (TagName u) (BindTagName u)) fs gs"
    and "\<And>g. g \<in> set gs \<Longrightarrow> form (form_key (TagName u) g) = Some (texts_of (BSlot g))"
  shows "BindForm l u form (Ptr fs) = (Ptr gs, Inr None)"
proof -
  have "each_field (form_step l u form) fs = (gs, Inr None)"
    using assms
    by (intro each_field_all [of "same_field (TagName u) (BindTagName u)"])
      (auto intro: form_step_present simp: same_field_def intro!: bfield.equality)
  then show ?thesis by (simp add: BindForm_def into_struct_def)
qed

lemma form_of_lookup:
  "\<lbrakk>distinct (map (form_key tagName) gs); g \<in> set gs\<rbrakk> \<Longrightarrow> form_of tagName gs (form_key tagName g) = Some (texts_of (BSlot g))"
  by (auto simp: form_of_def o_def intro!: map_of_is_SomeI)

text \<open>C13: binding the form that was written from a struct of strings, booleans, integers of every kind, and
  arrays and slices of these, into any struct with the same fields and types gives back the struct,
  with nil, whatever the target held before: with distinct keys, none of them the hyphen, and no bind
  tags.\<close>

theorem BindForm_roundtrip:
  assumes "list_all2 (same_field (TagName u) (BindTagName u)) fs gs"
    and "distinct (map (form_key (TagName u)) gs)"
  shows "BindForm l u (form_of (TagName u) gs) (Ptr fs) = (Ptr gs, Inr None)"
  using assms by (intro BindForm_fields form_of_lookup)

definition old_person :: "(unit, unit, unit, unit) bfield list" where
  "old_person =
     [plain_field ''Name'' (Some ''name,x'') (SString []), plain_field ''Ages'' None (SSlice (SInt KInt8 0) [])]"

definition new_person :: "(unit, unit, unit, unit) bfield list" where
  "new_person =
     [plain_field ''Name'' (Some ''name,x'') (SString ''bob''), plain_field ''Ages'' None (SSlice (SInt KInt8 0) [SInt KInt8 (-7)])]"

theorem BindForm_roundtrip_witness:
  "BindForm plain_bind_lib (url_binder ''form'') (form_of ''form'' new_person) (Ptr old_person) = (Ptr new_person, Inr None)"
proof -
  have t: "TagName (url_binder ''form'') = ''form''" by (simp add: url_binder_def)
  show ?thesis
    by (rule BindForm_roundtrip [of "url_binder ''form''", unfolded t])
      (simp_all add: url_binder_def new_person_def old_person_def plain_field_def same_field_def replaceable_def
        form_key_def tags_of_def in_range_def bits_of_def)
qed

section \<open>Values that cannot be read\<close>

lemma each_field_stop:
  "\<lbrakk>\<forall>f \<in> set fs. snd (step f) = Next; step g = (s, Stop r)\<rbrakk> \<Longrightarrow>
   each_field step (fs @ g # gs) = (map (\<lambda>f. f\<lparr>BSlot := fst (step f)\<rparr>) fs @ g\<lparr>BSlot := s\<rparr> # gs, r)"
  by (induction fs) (auto split: prod.split)

text \<open>When the values of a field cannot be bound but its default can, \<open>BindForm\<close> binds the default and
  returns nil at once: the fields after it are left as they were, whatever the form holds for them.\<close>

theorem BindForm_ends_at_default:
  assumes "\<forall>f \<in> set fs. snd (form_step l u form f) = Next"
    and "form_key (TagName u) g \<noteq> ''-''" "BTags g (BindTagName u) = None"
    and "form (form_key (TagName u) g) = Some vs" "bind l (BSlot g) vs = (s, Inr (Some e))"
    and "default_values (TagName u) g = d # ds" "bind l s (d # ds) = (s1, Inr None)"
  shows "BindForm l u form (Ptr (fs @ g # gs)) =
    (Ptr (map (\<lambda>f. f\<lparr>BSlot := fst (form_step l u form f)\<rparr>) fs @ g\<lparr>BSlot := s1\<rparr> # gs), Inr None)"
proof -
  have "form_step l u form g = (s1, Stop (Inr None))"
    using assms(2-) by (simp add: form_step_def Let_def bind_values_def values_at_def)
  from each_field_stop [OF assms(1) this] show ?thesis
    by (simp add: BindForm_def into_struct_def)
qed

theorem BindForm_ends_at_default_witness:
  "BindForm plain_bind_lib (url_binder ''form'') [''Page'' \<mapsto> [''x''], ''Size'' \<mapsto> [''50'']]
     (Ptr [plain_field ''Page'' (Some ''Page,1'') (SInt KInt 0), plain_field ''Size'' None (SInt KInt 0)]) =
   (Ptr [plain_field ''Page'' (Some ''Page,1'') (SInt KInt 1), plain_field ''Size'' None (SInt KInt 0)], Inr None)"
proof -
  have x: "bind plain_bind_lib (SInt KInt 0) [''x''] = (SInt KInt 0, Inr (Some (BindNum ErrSyntax)))"
    "bind plain_bind_lib (SInt KInt 0) [''1''] = (SInt KInt 1, Inr None)"
    by (simp_all add: bind_def bindInt_def ParseInt_def ParseUint_def bits_of_def digit_def)
  show ?thesis
    using BindForm_ends_at_default [where l = plain_bind_lib and u = "url_binder ''form''" and fs = "[]"
        and form = "[''Page'' \<mapsto> [''x''], ''Size'' \<mapsto> [''50'']]" and g = "plain_field ''Page'' (Some ''Page,1'') (SInt KInt 0)"
        and gs = "[plain_field ''Size'' None (SInt KInt 0)]" and d = "''1''" and ds = "[]" and vs = "[''x'']" and s = "SInt KInt 0" and e = "BindNum ErrSyntax" and ?s1.0 = "SInt KInt 1"]
    by (simp add: x plain_field_def url_binder_def form_key_def default_values_def tags_of_def)
qed

text \<open>When the form has no value for a field with a default, the default is bound, and then the missing
  values are bound as well: a slice loses its default and ends up empty, every other field keeps it.\<close>

theorem BindForm_default:
  assumes "form_key (TagName u) f \<noteq> ''-''" "form (form_key (TagName u) f) = None"
    and "default_values (TagName u) f = d # ds" "bind l (BSlot f) (d # ds) = (s, Inr None)"
  shows "form_step l u form f = (case s of SSlice zero _ \<Rightarrow> SSlice zero [] | _ \<Rightarrow> s, Next)"
proof -
  have "bind l s [] = (case s of SSlice zero _ \<Rightarrow> SSlice zero [] | _ \<Rightarrow> s, Inr None)"
    by (cases s) (simp_all add: bind_def bindSlice_def)
  with assms show ?thesis
    by (simp add: form_step_def Let_def or_stop_def bind_values_def values_at_def)
qed

theorem BindForm_default_witness:
  "form_step plain_bind_lib (url_binder ''form'') Map.empty
     (plain_field ''Tags'' (Some ''tags,a,b'') (SSlice (SString []) [])) = (SSlice (SString []) [], Next)"
proof -
  have b: "bind plain_bind_lib (SSlice (SString []) []) [''a'', ''b''] = (SSlice (SString []) [SString ''a'', SString ''b''], Inr None)"
    by code_simp
  show ?thesis
    using BindForm_default [of "url_binder ''form''" "plain_field ''Tags'' (Some ''tags,a,b'') (SSlice (SString []) [])" Map.empty
        "''a''" "[''b'']" plain_bind_lib "SSlice (SString []) [SString ''a'', SString ''b'']"] b
    by (simp add: plain_field_def url_binder_def form_key_def default_values_def tags_of_def)
qed

text \<open>Files: a field without the file tag asks for the file named by the empty text, and one with the
  tag for its own name, not for the name in the tag.\<close>

lemma untagged_file_not_bound:
  assumes "form_key (TagName h) f \<noteq> ''-''" "FormValue form (form_key (TagName h) f) = None"
    and "default_values (TagName h) f = []" "BTags f (FieldTag h) = None" "FormFile form [] = None"
  shows "multipart_step l h form f = (BSlot f, Next)"
  using assms by (simp add: multipart_step_def Let_def file_step_def)

lemma tagged_file_by_field_name:
  assumes "form_key (TagName h) f \<noteq> ''-''" "FormValue form (form_key (TagName h) f) = None"
    and "default_values (TagName h) f = []" "BTags f (FieldTag h) = Some t" "FormFile form (BName f) = None"
  shows "multipart_step l h form f = (BSlot f, Next)"
  using assms by (simp add: multipart_step_def Let_def file_step_def)

end
