(* ===== verification/Utf8.thy ===== *)
theory Utf8
  imports Http
begin

text \<open>
  What the program uses of \<open>unicode/utf8\<close> and \<open>unicode\<close>: the encoding of code points in bytes, and the
  tables of upper and lower case, which are parameters of which the proofs use only the part that
  concerns ASCII.
\<close>

section \<open>Encoding\<close>

type_synonym rune = nat

abbreviation byte :: "char \<Rightarrow> nat" where
  "byte c \<equiv> of_char c"

definition RuneError :: rune where
  "RuneError = 65533"

text \<open>\<open>utf8.RuneStart\<close>: any byte but a continuation byte.\<close>

definition continuation :: "char \<Rightarrow> bool" where
  "continuation c \<longleftrightarrow> 128 \<le> byte c \<and> byte c < 192"

definition RuneStart :: "char \<Rightarrow> bool" where
  "RuneStart c \<longleftrightarrow> \<not> continuation c"

text \<open>The bounds of the second byte, which exclude overlong forms, surrogates and too large values.\<close>

definition second_ok :: "nat \<Rightarrow> nat \<Rightarrow> bool" where
  "second_ok a b \<longleftrightarrow>
     (if a = 224 then 160 else if a = 240 then 144 else 128) \<le> b \<and>
     b \<le> (if a = 237 then 159 else if a = 244 then 143 else 191)"

definition low6 :: "char \<Rightarrow> nat" where
  "low6 c = byte c mod 64"

text \<open>\<open>utf8.DecodeRuneInString\<close>: the code point and its width; an invalid start counts as one byte.\<close>

definition DecodeRune :: "string \<Rightarrow> rune \<times> nat" where
  "DecodeRune s =
     (case s of
        [] \<Rightarrow> (RuneError, 0)
      | c # s1 \<Rightarrow>
          if byte c < 128 then (byte c, 1)
          else if 194 \<le> byte c \<and> byte c < 224 \<and> s1 \<noteq> [] \<and> continuation (s1 ! 0)
            then ((byte c - 192) * 64 + low6 (s1 ! 0), 2)
          else if 224 \<le> byte c \<and> byte c < 240 \<and> 2 \<le> length s1 \<and> second_ok (byte c) (byte (s1 ! 0)) \<and>
              continuation (s1 ! 1)
            then ((byte c - 224) * 4096 + low6 (s1 ! 0) * 64 + low6 (s1 ! 1), 3)
          else if 240 \<le> byte c \<and> byte c < 245 \<and> 3 \<le> length s1 \<and> second_ok (byte c) (byte (s1 ! 0)) \<and>
              continuation (s1 ! 1) \<and> continuation (s1 ! 2)
            then ((byte c - 240) * 262144 + low6 (s1 ! 0) * 4096 + low6 (s1 ! 1) * 64 + low6 (s1 ! 2), 4)
          else (RuneError, 1))"

text \<open>\<open>utf8.EncodeRune\<close>; a value that is no code point is written as \<open>RuneError\<close>.\<close>

definition EncodeRune :: "rune \<Rightarrow> string" where
  "EncodeRune r0 =
     (let r = (if r0 > 1114111 \<or> 55296 \<le> r0 \<and> r0 \<le> 57343 then RuneError else r0) in
      if r < 128 then [char_of r]
      else if r < 2048 then [char_of (192 + r div 64), char_of (128 + r mod 64)]
      else if r < 65536
        then [char_of (224 + r div 4096), char_of (128 + r div 64 mod 64), char_of (128 + r mod 64)]
      else [char_of (240 + r div 262144), char_of (128 + r div 4096 mod 64),
        char_of (128 + r div 64 mod 64), char_of (128 + r mod 64)])"

text \<open>The whole text as code points, as \<open>range\<close> gives them.\<close>

function runes :: "string \<Rightarrow> rune list" where
  "runes [] = []"
| "runes (c # s) = fst (DecodeRune (c # s)) # runes (drop (snd (DecodeRune (c # s)) - 1) s)"
  by pat_completeness auto
termination
  by (relation "measure length") auto

section \<open>Case\<close>

record unicode =
  runeLower :: "rune \<Rightarrow> rune"
  runeUpper :: "rune \<Rightarrow> rune"
  equalFold :: "string \<Rightarrow> string \<Rightarrow> bool"

definition is_ascii :: "string \<Rightarrow> bool" where
  "is_ascii s \<longleftrightarrow> list_all (\<lambda>c. byte c < 128) s"

definition fold_text :: "string \<Rightarrow> string" where
  "fold_text s = map to_lower s"

text \<open>The documented behaviour on ASCII: letters are mapped to letters, and texts are compared so.\<close>

definition ascii_tables :: "unicode \<Rightarrow> bool" where
  "ascii_tables u \<longleftrightarrow>
     (\<forall>c. byte c < 128 \<longrightarrow> runeLower u (byte c) = byte (to_lower c) \<and> runeUpper u (byte c) = byte (to_upper c)) \<and>
     (\<forall>s t. is_ascii s \<longrightarrow> is_ascii t \<longrightarrow> equalFold u s t = (fold_text s = fold_text t))"

text \<open>The tables that fold ASCII only.\<close>

definition ascii_unicode :: unicode where
  "ascii_unicode = \<lparr>runeLower = (\<lambda>r. if 65 \<le> r \<and> r \<le> 90 then r + 32 else r),
     runeUpper = (\<lambda>r. if 97 \<le> r \<and> r \<le> 122 then r - 32 else r),
     equalFold = (\<lambda>s t. fold_text s = fold_text t)\<rparr>"

section \<open>Facts\<close>

lemma byte_less: "byte c < 256"
  by simp

lemma byte_char_of: "n < 256 \<Longrightarrow> byte (char_of n) = n"
  by simp

lemma char_of_byte [simp]: "char_of (byte c) = c"
  by simp

lemma byte_to_lower: "byte (to_lower c) = (if 65 \<le> byte c \<and> byte c \<le> 90 then byte c + 32 else byte c)"
  by (simp add: to_lower_def)

lemma byte_to_upper: "byte (to_upper c) = (if 97 \<le> byte c \<and> byte c \<le> 122 then byte c - 32 else byte c)"
  by (auto simp: to_upper_def)

lemma byte_inject: "c = d \<longleftrightarrow> byte c = byte d"
  by (metis char_of_byte)

lemma to_lower_eq: "to_lower a = to_lower b \<Longrightarrow> a = to_lower b \<or> a = to_upper b"
  unfolding byte_inject byte_to_lower byte_to_upper by (auto split: if_splits)

lemma to_lower_idem: "to_lower (to_lower c) = to_lower c" "to_lower (to_upper c) = to_lower c"
  unfolding byte_inject byte_to_lower byte_to_upper by auto

lemma ascii_case: "byte c < 128 \<Longrightarrow> byte (to_lower c) < 128 \<and> byte (to_upper c) < 128"
  by (auto simp: byte_to_lower byte_to_upper)

lemma ascii_unicode_tables: "ascii_tables ascii_unicode"
  by (auto simp: ascii_tables_def ascii_unicode_def byte_to_lower byte_to_upper)

lemma DecodeRune_ascii: "byte c < 128 \<Longrightarrow> DecodeRune (c # s) = (byte c, 1)"
  by (simp add: DecodeRune_def)

lemma EncodeRune_ascii: "byte c < 128 \<Longrightarrow> EncodeRune (byte c) = [c]"
  by (simp add: EncodeRune_def)

lemma RuneStart_ascii: "byte c < 128 \<Longrightarrow> RuneStart c"
  by (simp add: RuneStart_def continuation_def)

lemma is_ascii_simps [simp]:
  "is_ascii []" "is_ascii (c # s) \<longleftrightarrow> byte c < 128 \<and> is_ascii s" "is_ascii (s @ t) \<longleftrightarrow> is_ascii s \<and> is_ascii t"
  by (simp_all add: is_ascii_def)

lemma is_ascii_parts: "is_ascii s \<Longrightarrow> is_ascii (take n s)" "is_ascii s \<Longrightarrow> is_ascii (drop n s)"
  by (auto simp: is_ascii_def list_all_iff dest: in_set_takeD in_set_dropD)

lemma runes_ascii: "is_ascii s \<Longrightarrow> runes s = map byte s"
  by (induction s) (simp_all add: DecodeRune_ascii)

text \<open>Decoding what was encoded.\<close>

lemma mod_64: "128 \<le> b \<Longrightarrow> b < 192 \<Longrightarrow> b mod 64 = b - (128::nat)"
  using mod_mult_self4 [of 64 2 "b - 128"] by simp

lemma continuation_byte:
  assumes "n < 64"
  shows "byte (char_of (128 + n)) = 128 + n" and "continuation (char_of (128 + n))" and "low6 (char_of (128 + n)) = n"
proof -
  show b: "byte (char_of (128 + n)) = 128 + n" using assms by (simp only: byte_char_of)
  have "(128 + n) mod 64 = n" using assms mod_64 [of "128 + n"] by simp
  then show "low6 (char_of (128 + n)) = n" by (simp only: low6_def b)
  show "continuation (char_of (128 + n))" unfolding continuation_def b using assms by simp
qed

lemma base64_digits:
  "r div 64 * 64 + r mod 64 = (r::nat)"
  "r div 4096 * 4096 + r div 64 mod 64 * 64 + r mod 64 = r"
  "r div 262144 * 262144 + r div 4096 mod 64 * 4096 + r div 64 mod 64 * 64 + r mod 64 = r"
proof -
  have e: "r div 4096 = r div 64 div 64" "r div 262144 = r div 64 div 64 div 64"
    by (simp_all add: div_mult2_eq [symmetric])
  define a b c where d: "a = r div 64" "b = a div 64" "c = b div 64"
  have 1: "a * 64 + r mod 64 = r" and 2: "b * 64 + a mod 64 = a" and 3: "c * 64 + b mod 64 = b"
    unfolding d by simp_all
  from 1 show "r div 64 * 64 + r mod 64 = r" by (simp add: d)
  from 1 2 have "b * 4096 + a mod 64 * 64 + r mod 64 = r" by linarith
  then show "r div 4096 * 4096 + r div 64 mod 64 * 64 + r mod 64 = r" by (simp only: e d)
  from 1 2 3 have "c * 262144 + b mod 64 * 4096 + a mod 64 * 64 + r mod 64 = r" by linarith
  then show "r div 262144 * 262144 + r div 4096 mod 64 * 4096 + r div 64 mod 64 * 64 + r mod 64 = r"
    by (simp only: e d)
qed

lemma DecodeRune_two: "2 \<le> a \<Longrightarrow> a < 32 \<Longrightarrow> b < 64 \<Longrightarrow>
  DecodeRune (char_of (192 + a) # char_of (128 + b) # s) = (a * 64 + b, 2)"
  using byte_char_of [of "192 + a"] by (simp add: DecodeRune_def continuation_byte)

lemma DecodeRune_three: "a < 16 \<Longrightarrow> b < 64 \<Longrightarrow> d < 64 \<Longrightarrow> second_ok (224 + a) (128 + b) \<Longrightarrow>
  DecodeRune (char_of (224 + a) # char_of (128 + b) # char_of (128 + d) # s) = (a * 4096 + b * 64 + d, 3)"
  using byte_char_of [of "224 + a"] by (simp add: DecodeRune_def continuation_byte)

lemma DecodeRune_four: "a < 5 \<Longrightarrow> b < 64 \<Longrightarrow> d < 64 \<Longrightarrow> e < 64 \<Longrightarrow> second_ok (240 + a) (128 + b) \<Longrightarrow>
  DecodeRune (char_of (240 + a) # char_of (128 + b) # char_of (128 + d) # char_of (128 + e) # s) =
    (a * 262144 + b * 4096 + d * 64 + e, 4)"
  using byte_char_of [of "240 + a"] by (simp add: DecodeRune_def continuation_byte)

lemma DecodeRune_EncodeRune:
  assumes "r \<le> 1114111" and "\<not> (55296 \<le> r \<and> r \<le> 57343)"
  shows "DecodeRune (EncodeRune r @ s) = (r, length (EncodeRune r))"
proof -
  have low: "r mod 64 < 64" "r div 64 mod 64 < 64" "r div 4096 mod 64 < 64" by simp_all
  have keep: "\<not> (r > 1114111 \<or> 55296 \<le> r \<and> r \<le> 57343)" using assms by simp
  note E = EncodeRune_def [of r, unfolded Let_def if_not_P [OF keep]]
  consider "r < 128" | "128 \<le> r" "r < 2048" | "2048 \<le> r" "r < 65536" | "65536 \<le> r" "r < 1114112"
    using assms(1) by linarith
  then show ?thesis
  proof cases
    case 1
    then show ?thesis by (simp add: EncodeRune_def DecodeRune_def)
  next
    case 2
    have "2 \<le> r div 64" "r div 64 < 32" using 2 by auto
    from DecodeRune_two [OF this low(1)] show ?thesis
      using 2 base64_digits(1) [of r] by (simp add: E)
  next
    case 3
    have q: "r div 4096 < 16" using 3 by auto
    have "second_ok (224 + r div 4096) (128 + r div 64 mod 64)"
      using 3 assms(2) low base64_digits(2) [of r] unfolding second_ok_def by (auto split: if_splits)
    from DecodeRune_three [OF q low(2,1) this] show ?thesis
      using 3 base64_digits(2) [of r] by (simp add: E)
  next
    case 4
    have q: "r div 262144 < 5" using 4 by auto
    have "second_ok (240 + r div 262144) (128 + r div 4096 mod 64)"
      using 4 low base64_digits(3) [of r] unfolding second_ok_def by (auto split: if_splits simp: less_Suc_eq_le [symmetric])
    from DecodeRune_four [OF q low(3,2,1) this] show ?thesis
      using 4 base64_digits(3) [of r] by (simp add: E)
  qed
qed

end
