(* ===== verification/Regex.thy ===== *)
theory Regex
  imports Utf8
begin

text \<open>
  The regular expressions of package \<open>regexp\<close> as far as the patterns of \<open>core/validators/common.go\<close> use
  them: classes of code points, repetition and alternatives, anchored at both ends.  Texts are
  matched by derivatives, which is proved equal to membership in the language.
\<close>

section \<open>Expressions and their languages\<close>

type_synonym rune_ranges = "(rune \<times> rune) list"

datatype regex =
    Never
  | Nothing
  | Class rune_ranges
  | NotClass rune_ranges
  | Seq regex regex
  | Alt regex regex
  | Star regex

definition in_ranges :: "rune_ranges \<Rightarrow> rune \<Rightarrow> bool" where
  "in_ranges rs c \<longleftrightarrow> list_ex (\<lambda>(a, b). a \<le> c \<and> c \<le> b) rs"

primrec lang :: "regex \<Rightarrow> rune list set" where
  "lang Never = {}"
| "lang Nothing = {[]}"
| "lang (Class rs) = {[c] |c. in_ranges rs c}"
| "lang (NotClass rs) = {[c] |c. \<not> in_ranges rs c}"
| "lang (Seq r s) = {v @ w |v w. v \<in> lang r \<and> w \<in> lang s}"
| "lang (Alt r s) = lang r \<union> lang s"
| "lang (Star r) = {concat ws |ws. set ws \<subseteq> lang r}"

section \<open>Matching\<close>

primrec nullable :: "regex \<Rightarrow> bool" where
  "nullable Never = False"
| "nullable Nothing = True"
| "nullable (Class rs) = False"
| "nullable (NotClass rs) = False"
| "nullable (Seq r s) = (nullable r \<and> nullable s)"
| "nullable (Alt r s) = (nullable r \<or> nullable s)"
| "nullable (Star r) = True"

text \<open>\<open>seq\<close> and \<open>alt\<close> keep derivatives small.\<close>

definition seq :: "regex \<Rightarrow> regex \<Rightarrow> regex" where
  "seq r s = (if r = Never \<or> s = Never then Never else if r = Nothing then s else Seq r s)"

definition alt :: "regex \<Rightarrow> regex \<Rightarrow> regex" where
  "alt r s = (if r = Never \<or> r = s then s else if s = Never then r else Alt r s)"

primrec deriv :: "rune \<Rightarrow> regex \<Rightarrow> regex" where
  "deriv c Never = Never"
| "deriv c Nothing = Never"
| "deriv c (Class rs) = (if in_ranges rs c then Nothing else Never)"
| "deriv c (NotClass rs) = (if in_ranges rs c then Never else Nothing)"
| "deriv c (Seq r s) =
     (if nullable r then alt (seq (deriv c r) s) (deriv c s) else seq (deriv c r) s)"
| "deriv c (Alt r s) = alt (deriv c r) (deriv c s)"
| "deriv c (Star r) = seq (deriv c r) (Star r)"

fun regex_match :: "regex \<Rightarrow> rune list \<Rightarrow> bool" where
  "regex_match r [] = nullable r"
| "regex_match r (c # w) = regex_match (deriv c r) w"

lemma lang_seq [simp]: "lang (seq r s) = lang (Seq r s)"
  by (auto simp: seq_def)

lemma lang_alt [simp]: "lang (alt r s) = lang (Alt r s)"
  by (auto simp: alt_def)

lemma nullable_lang: "nullable r \<longleftrightarrow> [] \<in> lang r"
proof (induction r)
  case (Star r)
  show ?case by (auto intro: exI [of _ "[]"])
qed auto

lemma concat_Cons:
  "c # w = concat ws \<longleftrightarrow> (\<exists>ps v vs. ws = ps @ (c # v) # vs \<and> (\<forall>p\<in>set ps. p = []) \<and> w = v @ concat vs)"
proof (induction ws)
  case (Cons u ws)
  show ?case
  proof (cases u)
    case Nil
    have "(\<exists>ps v vs. u # ws = ps @ (c # v) # vs \<and> (\<forall>p\<in>set ps. p = []) \<and> w = v @ concat vs) \<longleftrightarrow>
        (\<exists>ps v vs. ws = ps @ (c # v) # vs \<and> (\<forall>p\<in>set ps. p = []) \<and> w = v @ concat vs)"
      by (rule iffI; clarsimp simp: Nil Cons_eq_append_conv) (metis append_Cons set_ConsD)+
    with Cons.IH show ?thesis by (simp add: Nil)
  next
    case (Cons d v)
    then show ?thesis by (fastforce simp: Cons_eq_append_conv)
  qed
qed simp

lemma deriv_lang: "lang (deriv c r) = {w. c # w \<in> lang r}"
proof (induction r)
  case (Seq r s)
  have split: "c # w \<in> lang (Seq r s) \<longleftrightarrow>
      (\<exists>v u. w = v @ u \<and> c # v \<in> lang r \<and> u \<in> lang s) \<or> [] \<in> lang r \<and> c # w \<in> lang s" for w
    by (auto simp: Cons_eq_append_conv)
  show ?case
  proof (intro set_eqI)
    fix w
    have "w \<in> lang (deriv c (Seq r s)) \<longleftrightarrow>
        (\<exists>v u. w = v @ u \<and> v \<in> lang (deriv c r) \<and> u \<in> lang s) \<or> [] \<in> lang r \<and> w \<in> lang (deriv c s)"
      by (cases "nullable r") (simp_all add: nullable_lang)
    then show "w \<in> lang (deriv c (Seq r s)) \<longleftrightarrow> w \<in> {w. c # w \<in> lang (Seq r s)}"
      unfolding mem_Collect_eq split by (simp add: Seq)
  qed
next
  case (Star r)
  have "c # w \<in> lang (Star r) \<longleftrightarrow> (\<exists>v u. w = v @ u \<and> c # v \<in> lang r \<and> u \<in> lang (Star r))" for w
  proof
    assume "c # w \<in> lang (Star r)"
    then obtain ws where ws: "c # w = concat ws" "set ws \<subseteq> lang r" by auto
    from ws(1) obtain ps v vs where v: "ws = ps @ (c # v) # vs" "w = v @ concat vs"
      unfolding concat_Cons by blast
    with ws(2) have "c # v \<in> lang r" "set vs \<subseteq> lang r" by simp_all
    with v(2) show "\<exists>v u. w = v @ u \<and> c # v \<in> lang r \<and> u \<in> lang (Star r)" unfolding lang.simps by blast
  next
    assume "\<exists>v u. w = v @ u \<and> c # v \<in> lang r \<and> u \<in> lang (Star r)"
    then obtain v ws where "w = v @ concat ws" "c # v \<in> lang r" "set ws \<subseteq> lang r" by auto
    then have "c # w = concat ((c # v) # ws)" "set ((c # v) # ws) \<subseteq> lang r" by simp_all
    then show "c # w \<in> lang (Star r)" unfolding lang.simps by blast
  qed
  note step = this
  show ?case
  proof (intro set_eqI)
    fix w
    have "w \<in> lang (deriv c (Star r)) \<longleftrightarrow> (\<exists>v u. w = v @ u \<and> c # v \<in> lang r \<and> u \<in> lang (Star r))"
      by (simp add: Star del: lang.simps(7))
    then show "w \<in> lang (deriv c (Star r)) \<longleftrightarrow> w \<in> {w. c # w \<in> lang (Star r)}"
      unfolding mem_Collect_eq step .
  qed
qed auto

lemma regex_match_lang: "regex_match r w \<longleftrightarrow> w \<in> lang r"
  by (induction w arbitrary: r) (simp_all add: nullable_lang deriv_lang)

section \<open>Notation of the patterns\<close>

definition Opt :: "regex \<Rightarrow> regex" where
  "Opt r = Alt r Nothing"

definition Plus :: "regex \<Rightarrow> regex" where
  "Plus r = Seq r (Star r)"

primrec Times :: "nat \<Rightarrow> regex \<Rightarrow> regex" where
  "Times 0 r = Nothing"
| "Times (Suc n) r = Seq r (Times n r)"

definition Repeat :: "nat \<Rightarrow> nat \<Rightarrow> regex \<Rightarrow> regex" where
  "Repeat m n r = Seq (Times m r) (Times (n - m) (Opt r))"

definition seqs :: "regex list \<Rightarrow> regex" where
  "seqs rs = foldr Seq rs Nothing"

definition alts :: "regex list \<Rightarrow> regex" where
  "alts rs = foldr Alt rs Never"

definition Rune :: "char \<Rightarrow> regex" where
  "Rune c = Class [(byte c, byte c)]"

definition Lit :: "string \<Rightarrow> regex" where
  "Lit s = seqs (map Rune s)"

definition one_of :: "string \<Rightarrow> rune_ranges" where
  "one_of s = map (\<lambda>c. (byte c, byte c)) s"

definition digit_class :: rune_ranges where
  "digit_class = [(48, 57)]"

definition letters :: rune_ranges where
  "letters = [(97, 122), (65, 90)]"

definition spaces :: rune_ranges where
  "spaces = [(9, 10), (12, 13), (32, 32)]"

lemma lang_Nothing_right: "lang (Seq r Nothing) = lang r"
  by simp

lemma seqs_simps [simp]: "lang (seqs []) = {[]}" "lang (seqs (r # rs)) = lang (Seq r (seqs rs))"
  by (simp_all add: seqs_def)

lemma alts_lang: "lang (alts rs) = (\<Union>r\<in>set rs. lang r)"
  by (induction rs) (auto simp: alts_def)

lemma Lit_lang: "lang (Lit s) = {map byte s}"
  unfolding Lit_def by (induction s) (auto simp: seqs_def Rune_def in_ranges_def)

lemma Class_Cons: "c # w \<in> lang (Seq (Class rs) s) \<longleftrightarrow> in_ranges rs c \<and> w \<in> lang s"
  by (auto intro: exI [of _ "[c]"])

lemma Times_Class: "lang (Times n (Class rs)) = {w. length w = n \<and> list_all (in_ranges rs) w}"
proof (induction n)
  case (Suc n)
  show ?case
  proof (intro set_eqI)
    fix w
    show "w \<in> lang (Times (Suc n) (Class rs)) \<longleftrightarrow> w \<in> {w. length w = Suc n \<and> list_all (in_ranges rs) w}"
    proof (cases w)
      case (Cons c v)
      then show ?thesis by (auto simp: Class_Cons Suc simp del: lang.simps)
    qed simp
  qed
qed auto

lemma Star_Class: "lang (Star (Class rs)) = {w. list_all (in_ranges rs) w}"
proof (intro set_eqI iffI)
  fix w assume "w \<in> {w. list_all (in_ranges rs) w}"
  then have "w = concat (map (\<lambda>c. [c]) w)" "set (map (\<lambda>c. [c]) w) \<subseteq> lang (Class rs)"
    by (auto simp: list_all_iff)
  then show "w \<in> lang (Star (Class rs))" unfolding lang.simps by blast
next
  fix w assume "w \<in> lang (Star (Class rs))"
  then obtain ws where "w = concat ws" "\<And>v. v \<in> set ws \<Longrightarrow> \<exists>c. v = [c] \<and> in_ranges rs c" by auto
  then show "w \<in> {w. list_all (in_ranges rs) w}" by (fastforce simp: list_all_iff)
qed

text \<open>A byte text matches when its code points do; \<open>runes\<close> is what \<open>regexp\<close> reads.\<close>

definition MatchString :: "regex \<Rightarrow> string \<Rightarrow> bool" where
  "MatchString r s = regex_match r (runes s)"

end
