(* ===== verification/Patterns.thy ===== *)
theory Patterns
  imports Regex
begin

text \<open>
  The four patterns of \<open>core/validators/common.go\<close>, written out as expressions.  The ones for UUIDs
  and for mobile numbers are proved equal to plain predicates on the text.
\<close>

section \<open>The patterns\<close>

definition lower_hex :: rune_ranges where
  "lower_hex = [(48, 57), (97, 102)]"

definition uuidRegx :: regex where
  "uuidRegx =
     seqs [Times 8 (Class lower_hex), Rune (CHR ''-''), Times 4 (Class lower_hex), Rune (CHR ''-''),
       Times 4 (Class lower_hex), Rune (CHR ''-''), Times 4 (Class lower_hex), Rune (CHR ''-''),
       Times 12 (Class lower_hex)]"

text \<open>\<open>[^4\D]\<close> is neither a 4 nor anything but a digit: a digit other than 4.\<close>

definition mobile_body :: regex where
  "mobile_body =
     (let d = Class digit_class in
      seqs [Rune (CHR ''1''),
        alts [seqs [Rune (CHR ''3''), Times 3 d],
          seqs [Rune (CHR ''5''), Class [(48, 51), (53, 57)], Times 2 d],
          seqs [Rune (CHR ''8''), Times 3 d],
          seqs [Rune (CHR ''7''),
            alts [Seq (Class (one_of ''35678'')) (Times 2 d),
              seqs [Rune (CHR ''4''),
                alts [Seq (Rune (CHR ''0'')) d, Seq (Rune (CHR ''1'')) (Class [(48, 50)]), Seq (Rune (CHR ''9'')) d]]]],
          seqs [Rune (CHR ''9''), Class (one_of ''189''), Times 2 d],
          seqs [Lit ''66'', Times 2 d]],
        Times 6 d])"

definition phoneRegx :: regex where
  "phoneRegx = Seq (Opt (Seq (Opt (Rune (CHR ''+''))) (Lit ''86''))) mobile_body"

definition url_label :: rune_ranges where
  "url_label = [(97, 122), (48, 57), (161, 65535)]"

definition urlRegx :: regex where
  "urlRegx =
     (let visible = NotClass spaces; d = Class digit_class;
          label = Seq (Star (Seq (Plus (Class url_label)) (Opt (Rune (CHR ''-''))))) (Plus (Class url_label)) in
      seqs [Alt (Seq (Lit ''http'') (Opt (Lit ''s''))) (Lit ''ftp''), Lit ''://'',
        alts [seqs [Plus visible, Opt (Seq (Rune (CHR '':'')) (Star visible)), Rune (CHR ''@'')],
          Seq (Repeat 1 3 d) (Times 3 (Seq (Rune (CHR ''.'')) (Repeat 1 3 d))),
          seqs [label, Star (Seq (Rune (CHR ''.'')) label),
            Rune (CHR ''.''), Repeat 2 6 (Class [(97, 122), (161, 65535)])]],
        Opt (Seq (Rune (CHR '':'')) (Plus d)), Opt (Star visible)])"

definition wide :: rune_ranges where
  "wide = [(160, 55295), (63744, 64975), (65008, 65519)]"

text \<open>Repeat the quotes any code point of the last classes may stand: the backslash that the
  escaping alternative should begin with is missing.\<close>

definition emailRegx :: regex where
  "emailRegx =
     (let atom = alts [Class letters, Class digit_class,
            Class (one_of ''!#$%&*+-/=?^_{|}~'' @ [(39, 39), (96, 96)]), Class wide];
          blank = Alt (Rune (CHR '' '')) (Rune (CHR 0x09));
          fold_space = Opt (Seq (Opt (Seq (Star blank) (Seq (Rune (CHR 0x0D)) (Rune (CHR 0x0A))))) (Plus blank));
          quote = Rune (CHR 0x22);
          text_rune = alts [Class [(1, 8), (11, 11), (12, 12), (14, 31), (127, 127)], Rune (CHR ''!''),
            Class [(35, 91)], Class [(93, 126)], Class wide];
          escaped_rune = Alt (Class [(1, 9), (11, 11), (12, 12), (13, 127)]) (Class wide);
          first = alts [Class letters, Class digit_class, Class wide];
          mid = alts [Class letters, Class digit_class, Rune (CHR ''-''), Rune (CHR ''.''), Rune (CHR ''~''), Class wide];
          top = Alt (Class letters) (Class wide) in
      seqs [Alt (Seq (Plus atom) (Star (Seq (Rune (CHR ''.'')) (Plus atom))))
          (seqs [quote, Star (Seq fold_space (Alt text_rune escaped_rune)), fold_space, quote]),
        Rune (CHR ''@''),
        Plus (Seq (Alt first (seqs [first, Star mid, first])) (Rune (CHR ''.''))),
        Alt top (seqs [top, Star mid, top]), Opt (Rune (CHR ''.''))])"

definition uuidMatch :: "string \<Rightarrow> bool" where
  "uuidMatch = MatchString uuidRegx"

definition phoneMatch :: "string \<Rightarrow> bool" where
  "phoneMatch = MatchString phoneRegx"

definition urlMatch :: "string \<Rightarrow> bool" where
  "urlMatch = MatchString urlRegx"

definition emailMatch :: "string \<Rightarrow> bool" where
  "emailMatch = MatchString emailRegx"

section \<open>Patterns over ASCII\<close>

lemma DecodeRune_high: "128 \<le> byte c \<Longrightarrow> 128 \<le> fst (DecodeRune (c # s))"
proof -
  assume c: "128 \<le> byte c"
  have two: "128 \<le> (byte c - 192) * 64 + x" if "194 \<le> byte c" for x
    using that by (simp add: le_diff_conv)
  have three: "128 \<le> (byte c - 224) * 4096 + low6 a * 64 + x" if "224 \<le> byte c" "second_ok (byte c) (byte a)" for a x
  proof (cases "byte c = 224")
    case True
    with that(2) have "160 \<le> byte a \<and> byte a \<le> 191" by (simp add: second_ok_def)
    then have "32 \<le> low6 a" using mod_64 [of "byte a"] unfolding low6_def by linarith
    then show ?thesis by simp
  next
    case False
    with that(1) have "1 \<le> byte c - 224" by simp
    then show ?thesis by simp
  qed
  have four: "128 \<le> (byte c - 240) * 262144 + low6 a * 4096 + x" if "240 \<le> byte c" "second_ok (byte c) (byte a)" for a x
  proof (cases "byte c = 240")
    case True
    with that(2) have "144 \<le> byte a \<and> byte a \<le> 191" by (simp add: second_ok_def)
    then have "16 \<le> low6 a" using mod_64 [of "byte a"] unfolding low6_def by linarith
    then show ?thesis by simp
  next
    case False
    with that(1) have "1 \<le> byte c - 240" by simp
    then show ?thesis by simp
  qed
  show ?thesis
    using c two three four [of "s ! 0"] by (auto simp: DecodeRune_def RuneError_def add.assoc)
qed

lemma runes_low: "list_all (\<lambda>r. r < 128) (runes s) \<longleftrightarrow> is_ascii s"
proof (induction s rule: runes.induct)
  case (2 c s)
  show ?case
  proof (cases "byte c < 128")
    case True
    with 2 show ?thesis by (simp add: DecodeRune_ascii)
  next
    case False
    with DecodeRune_high [of c s] show ?thesis by simp
  qed
qed simp

definition ascii_only :: "regex \<Rightarrow> bool" where
  "ascii_only r \<longleftrightarrow> (\<forall>w\<in>lang r. list_all (\<lambda>c. c < 128) w)"

lemma MatchString_ascii:
  assumes "ascii_only r"
  shows "MatchString r s \<longleftrightarrow> map byte s \<in> lang r"
proof -
  have "is_ascii s" if "map byte s \<in> lang r"
    using assms that by (auto simp: ascii_only_def is_ascii_def list_all_iff)
  then show ?thesis
    using assms runes_low [of s] runes_ascii [of s]
    unfolding MatchString_def regex_match_lang ascii_only_def by auto
qed

section \<open>Patterns without repetition\<close>

text \<open>Such a pattern stands for finitely many sequences of classes.\<close>

primrec shapes :: "regex \<Rightarrow> rune_ranges list list" where
  "shapes Never = []"
| "shapes Nothing = [[]]"
| "shapes (Class rs) = [[rs]]"
| "shapes (NotClass rs) = []"
| "shapes (Seq r s) = [a @ b. a \<leftarrow> shapes r, b \<leftarrow> shapes s]"
| "shapes (Alt r s) = shapes r @ shapes s"
| "shapes (Star r) = []"

primrec bounded :: "regex \<Rightarrow> bool" where
  "bounded Never = True"
| "bounded Nothing = True"
| "bounded (Class rs) = True"
| "bounded (NotClass rs) = False"
| "bounded (Seq r s) = (bounded r \<and> bounded s)"
| "bounded (Alt r s) = (bounded r \<and> bounded s)"
| "bounded (Star r) = False"

definition fits :: "rune_ranges list \<Rightarrow> rune list \<Rightarrow> bool" where
  "fits = list_all2 in_ranges"

lemma fits_append: "fits (a @ b) w \<longleftrightarrow> (\<exists>v u. w = v @ u \<and> fits a v \<and> fits b u)"
  unfolding fits_def list_all2_append1 by (metis list_all2_lengthD)

lemma fits_bytes:
  "fits (map f [0..<n]) (map byte s) \<longleftrightarrow> length s = n \<and> (\<forall>i<n. in_ranges (f i) (byte (s ! i)))"
  by (auto simp: fits_def list_all2_conv_all_nth)

lemma shapes_lang: "bounded r \<Longrightarrow> w \<in> lang r \<longleftrightarrow> (\<exists>cs\<in>set (shapes r). fits cs w)"
proof (induction r arbitrary: w)
  case (Class rs)
  show ?case by (auto simp: fits_def list_all2_Cons1)
next
  case (Seq r s)
  then show ?case by (simp add: fits_append) blast
next
  case (Alt r s)
  then show ?case by auto
qed (auto simp: fits_def)

definition ascii_class :: "rune_ranges \<Rightarrow> bool" where
  "ascii_class rs \<longleftrightarrow> list_all (\<lambda>(a, b). b < 128) rs"

lemma in_ascii_class: "ascii_class rs \<Longrightarrow> in_ranges rs c \<Longrightarrow> c < 128"
  by (fastforce simp: ascii_class_def in_ranges_def list_all_iff list_ex_iff)

lemma shapes_ascii:
  assumes "bounded r" and "list_all (list_all ascii_class) (shapes r)"
  shows "ascii_only r"
proof -
  have "list_all (\<lambda>c. c < 128) w" if "fits cs w" "list_all ascii_class cs" for cs w
    using that unfolding fits_def by (induction rule: list_all2_induct) (auto dest: in_ascii_class)
  then show ?thesis using assms by (auto simp: ascii_only_def shapes_lang list_all_iff)
qed

section \<open>UUIDs\<close>

definition hex_digit :: "char \<Rightarrow> bool" where
  "hex_digit c \<longleftrightarrow> c \<in> set ''0123456789abcdef''"

definition uuid_text :: "string \<Rightarrow> bool" where
  "uuid_text s \<longleftrightarrow>
     length s = 36 \<and> (\<forall>i<36. if i \<in> {8, 13, 18, 23} then s ! i = CHR ''-'' else hex_digit (s ! i))"

lemma member_bytes: "c \<in> set s \<longleftrightarrow> byte c \<in> set (map byte s)"
  by auto

lemma in_lower_hex: "in_ranges lower_hex (byte c) \<longleftrightarrow> hex_digit c"
  unfolding hex_digit_def member_bytes by (simp add: in_ranges_def lower_hex_def) presburger

lemma in_hyphen: "in_ranges [(45, 45)] (byte c) \<longleftrightarrow> c = CHR ''-''"
  unfolding byte_inject by (simp add: in_ranges_def) linarith

lemma uuid_shapes:
  "shapes uuidRegx = [map (\<lambda>i. if i \<in> {8, 13, 18, 23} then [(45, 45)] else lower_hex) [0..<36]]"
  by code_simp

lemma uuidMatch_iff: "uuidMatch s \<longleftrightarrow> uuid_text s"
proof -
  have b: "bounded uuidRegx" by code_simp
  have "ascii_only uuidRegx" by (rule shapes_ascii [OF b]) code_simp
  then have "uuidMatch s \<longleftrightarrow> map byte s \<in> lang uuidRegx"
    by (simp add: uuidMatch_def MatchString_ascii)
  also have "\<dots> \<longleftrightarrow> length s = 36 \<and>
      (\<forall>i<36. in_ranges (if i \<in> {8, 13, 18, 23} then [(45, 45)] else lower_hex) (byte (s ! i)))"
    unfolding shapes_lang [OF b] uuid_shapes by (simp only: set_simps bex_simps fits_bytes simp_thms)
  also have "\<dots> \<longleftrightarrow> uuid_text s"
    unfolding uuid_text_def by (simp only: in_lower_hex in_hyphen if_distrib [of in_ranges] if_distribR)
  finally show ?thesis .
qed

section \<open>Mobile numbers\<close>

definition is_decimal :: "char \<Rightarrow> bool" where
  "is_decimal c \<longleftrightarrow> c \<in> set ''0123456789''"

text \<open>Eleven digit_class, of which the second to the fifth tell the network.\<close>

definition network :: "char \<Rightarrow> char \<Rightarrow> char \<Rightarrow> char \<Rightarrow> bool" where
  "network a b c d \<longleftrightarrow>
     a \<in> set ''38'' \<or> a = CHR ''5'' \<and> b \<noteq> CHR ''4'' \<or> a = CHR ''6'' \<and> b = CHR ''6'' \<or>
     a = CHR ''7'' \<and> (b \<in> set ''35678'' \<or> b = CHR ''4'' \<and> (c \<in> set ''09'' \<or> c = CHR ''1'' \<and> d \<in> set ''012'')) \<or>
     a = CHR ''9'' \<and> b \<in> set ''189''"

definition mobile :: "string \<Rightarrow> bool" where
  "mobile n \<longleftrightarrow>
     length n = 11 \<and> list_all is_decimal n \<and> n ! 0 = CHR ''1'' \<and>
     network (n ! 1) (n ! 2) (n ! 3) (n ! 4)"

definition phone_number :: "string \<Rightarrow> bool" where
  "phone_number s \<longleftrightarrow>
     mobile s \<or> prefix ''86'' s \<and> mobile (drop 2 s) \<or> prefix ''+86'' s \<and> mobile (drop 3 s)"

definition network_shapes :: "rune_ranges list list" where
  "network_shapes =
     [[[(51, 51)], digit_class, digit_class, digit_class], [[(53, 53)], [(48, 51), (53, 57)], digit_class, digit_class],
      [[(56, 56)], digit_class, digit_class, digit_class], [[(55, 55)], one_of ''35678'', digit_class, digit_class],
      [[(55, 55)], [(52, 52)], [(48, 48)], digit_class], [[(55, 55)], [(52, 52)], [(49, 49)], [(48, 50)]],
      [[(55, 55)], [(52, 52)], [(57, 57)], digit_class], [[(57, 57)], one_of ''189'', digit_class, digit_class],
      [[(54, 54)], [(54, 54)], digit_class, digit_class]]"

lemma mobile_shapes:
  "shapes mobile_body = map (\<lambda>mid. [(49, 49)] # mid @ replicate 6 digit_class) network_shapes"
  by code_simp

lemma in_digits: "in_ranges digit_class (byte c) \<longleftrightarrow> is_decimal c"
  unfolding is_decimal_def member_bytes by (simp add: in_ranges_def digit_class_def) presburger

lemma in_one_of: "in_ranges (one_of t) (byte c) \<longleftrightarrow> c \<in> set t"
  unfolding member_bytes by (auto simp: in_ranges_def one_of_def list_ex_iff)

lemma in_single: "in_ranges [(byte d, byte d)] (byte c) \<longleftrightarrow> c = d"
  unfolding byte_inject by (auto simp: in_ranges_def)

lemma in_classes:
  "in_ranges [(48, 48)] (byte c) \<longleftrightarrow> c = CHR ''0''" "in_ranges [(49, 49)] (byte c) \<longleftrightarrow> c = CHR ''1''"
  "in_ranges [(51, 51)] (byte c) \<longleftrightarrow> c = CHR ''3''" "in_ranges [(52, 52)] (byte c) \<longleftrightarrow> c = CHR ''4''"
  "in_ranges [(53, 53)] (byte c) \<longleftrightarrow> c = CHR ''5''" "in_ranges [(54, 54)] (byte c) \<longleftrightarrow> c = CHR ''6''"
  "in_ranges [(55, 55)] (byte c) \<longleftrightarrow> c = CHR ''7''" "in_ranges [(56, 56)] (byte c) \<longleftrightarrow> c = CHR ''8''"
  "in_ranges [(57, 57)] (byte c) \<longleftrightarrow> c = CHR ''9''"
  using in_single [where c = c and d = "CHR ''0''"] in_single [where c = c and d = "CHR ''1''"]
    in_single [where c = c and d = "CHR ''3''"] in_single [where c = c and d = "CHR ''4''"]
    in_single [where c = c and d = "CHR ''5''"] in_single [where c = c and d = "CHR ''6''"]
    in_single [where c = c and d = "CHR ''7''"] in_single [where c = c and d = "CHR ''8''"]
    in_single [where c = c and d = "CHR ''9''"]
  by simp_all

lemma in_some_digits:
  "in_ranges [(48, 50)] (byte c) \<longleftrightarrow> c \<in> set ''012''"
  "in_ranges [(48, 51), (53, 57)] (byte c) \<longleftrightarrow> is_decimal c \<and> c \<noteq> CHR ''4''"
  unfolding is_decimal_def member_bytes byte_inject by (simp_all add: in_ranges_def; presburger)+

lemma is_decimal_chars: "c \<in> set ''0123456789'' \<Longrightarrow> is_decimal c"
  by (simp only: is_decimal_def)

lemma fits_Cons: "fits (r # cs) (c # w) \<longleftrightarrow> in_ranges r c \<and> fits cs w" "fits [] w \<longleftrightarrow> w = []"
  by (simp_all add: fits_def)

lemma network_fits:
  "(\<exists>mid\<in>set network_shapes. fits mid (map byte [a, b, c, d])) \<longleftrightarrow>
    list_all is_decimal [a, b, c, d] \<and> network a b c d"
proof -
  have "(\<exists>mid\<in>set network_shapes. fits mid (map byte [a, b, c, d])) \<longleftrightarrow>
      a = CHR ''3'' \<and> is_decimal b \<and> is_decimal c \<and> is_decimal d \<or>
      a = CHR ''5'' \<and> (is_decimal b \<and> b \<noteq> CHR ''4'') \<and> is_decimal c \<and> is_decimal d \<or>
      a = CHR ''8'' \<and> is_decimal b \<and> is_decimal c \<and> is_decimal d \<or>
      a = CHR ''7'' \<and> b \<in> set ''35678'' \<and> is_decimal c \<and> is_decimal d \<or>
      a = CHR ''7'' \<and> b = CHR ''4'' \<and> c = CHR ''0'' \<and> is_decimal d \<or>
      a = CHR ''7'' \<and> b = CHR ''4'' \<and> c = CHR ''1'' \<and> d \<in> set ''012'' \<or>
      a = CHR ''7'' \<and> b = CHR ''4'' \<and> c = CHR ''9'' \<and> is_decimal d \<or>
      a = CHR ''9'' \<and> b \<in> set ''189'' \<and> is_decimal c \<and> is_decimal d \<or>
      a = CHR ''6'' \<and> b = CHR ''6'' \<and> is_decimal c \<and> is_decimal d"
    by (simp only: network_shapes_def fits_Cons in_classes in_some_digits in_digits in_one_of
        list.set insert_iff bex_simps list.map simp_thms)
  moreover have "a \<in> set ''356789'' \<Longrightarrow> is_decimal a" "b \<in> set ''35678'' \<Longrightarrow> is_decimal b"
      "b \<in> set ''189'' \<Longrightarrow> is_decimal b" "d \<in> set ''012'' \<Longrightarrow> is_decimal d"
      "b = CHR ''4'' \<Longrightarrow> is_decimal b" "b = CHR ''6'' \<Longrightarrow> is_decimal b"
      "c = CHR ''0'' \<Longrightarrow> is_decimal c" "c = CHR ''1'' \<Longrightarrow> is_decimal c" "c = CHR ''9'' \<Longrightarrow> is_decimal c"
    by (auto simp: is_decimal_def)
  moreover have "a \<in> set ''38'' \<longleftrightarrow> a = CHR ''3'' \<or> a = CHR ''8''" "c \<in> set ''09'' \<longleftrightarrow> c = CHR ''0'' \<or> c = CHR ''9''"
      "a \<in> set ''356789'' \<longleftrightarrow> a = CHR ''3'' \<or> a = CHR ''5'' \<or> a = CHR ''6'' \<or> a = CHR ''7'' \<or> a = CHR ''8'' \<or> a = CHR ''9''"
    by auto
  moreover have "list_all is_decimal [a, b, c, d] \<longleftrightarrow> is_decimal a \<and> is_decimal b \<and> is_decimal c \<and> is_decimal d"
    by simp
  ultimately show ?thesis unfolding network_def by satx
qed

lemma mobile_body_iff: "map byte n \<in> lang mobile_body \<longleftrightarrow> mobile n"
proof -
  have len: "length mid = 4" if "mid \<in> set network_shapes" for mid
    using that by (auto simp: network_shapes_def)
  have lang: "map byte n \<in> lang mobile_body \<longleftrightarrow>
      (\<exists>mid\<in>set network_shapes. fits ([(49, 49)] # mid @ replicate 6 digit_class) (map byte n))"
    by (subst shapes_lang, code_simp) (simp add: mobile_shapes)
  show ?thesis
  proof (cases "length n = 11")
    case False
    then show ?thesis
      using len unfolding lang by (auto simp: fits_def mobile_def dest!: list_all2_lengthD)
  next
    case True
    then obtain z a b c d rest where n: "n = z # [a, b, c, d] @ rest" and rest: "length rest = 6"
      by (auto simp: numeral_eq_Suc length_Suc_conv)
    have tail: "fits (replicate 6 digit_class) (map byte rest) \<longleftrightarrow> list_all is_decimal rest"
      using rest unfolding fits_def by (simp only: list_all2_conv_all_nth list_all_length) (simp add: in_digits)
    have "fits ([(49, 49)] # mid @ replicate 6 digit_class) (map byte n) \<longleftrightarrow>
        z = CHR ''1'' \<and> fits mid (map byte [a, b, c, d]) \<and> list_all is_decimal rest" if "mid \<in> set network_shapes" for mid
      using len [OF that] tail list_all2_append [of mid "map byte [a, b, c, d]" in_ranges "replicate 6 digit_class" "map byte rest"]
      by (simp add: n fits_Cons in_classes fits_def)
    then have "map byte n \<in> lang mobile_body \<longleftrightarrow>
        z = CHR ''1'' \<and> (\<exists>mid\<in>set network_shapes. fits mid (map byte [a, b, c, d])) \<and> list_all is_decimal rest"
      unfolding lang by blast
    also have "\<dots> \<longleftrightarrow> mobile n"
      unfolding network_fits mobile_def using rest by (auto simp: n is_decimal_chars)
    finally show ?thesis .
  qed
qed

lemma inj_byte: "inj (of_char :: char \<Rightarrow> nat)"
  by (simp add: inj_on_def)

lemma map_byte_append: "map byte s = map byte v @ u \<longleftrightarrow> (\<exists>n. s = v @ n \<and> u = map byte n)"
  by (auto simp: map_eq_append_conv inj_map_eq_map [OF inj_byte])

lemma country_lang:
  "lang (Opt (Seq (Opt (Rune (CHR ''+''))) (Lit ''86''))) = map byte ` {[], ''86'', ''+86''}"
  by (auto simp: Opt_def Lit_lang Rune_def in_ranges_def)

lemma phoneMatch_iff: "phoneMatch s \<longleftrightarrow> phone_number s"
proof -
  have b: "bounded phoneRegx" by code_simp
  have "ascii_only phoneRegx" by (rule shapes_ascii [OF b]) code_simp
  then have "phoneMatch s \<longleftrightarrow> map byte s \<in> lang phoneRegx"
    by (simp add: phoneMatch_def MatchString_ascii)
  also have "\<dots> \<longleftrightarrow> (\<exists>v\<in>{[], ''86'', ''+86''}. \<exists>u. map byte s = map byte v @ u \<and> u \<in> lang mobile_body)"
    unfolding phoneRegx_def lang.simps(5) country_lang by blast
  also have "\<dots> \<longleftrightarrow> (\<exists>v\<in>{[], ''86'', ''+86''}. \<exists>n. s = v @ n \<and> map byte n \<in> lang mobile_body)"
    unfolding map_byte_append by blast
  also have "\<dots> \<longleftrightarrow> phone_number s"
    unfolding phone_number_def mobile_body_iff by (auto simp: prefix_def)
  finally show ?thesis .
qed

section \<open>URLs and addresses\<close>

lemma MatchString_bytes: "is_ascii s \<Longrightarrow> MatchString r s \<longleftrightarrow> map byte s \<in> lang r"
  by (simp add: MatchString_def regex_match_lang runes_ascii)

lemma lang_SeqI: "v \<in> lang r \<Longrightarrow> w \<in> lang s \<Longrightarrow> v @ w \<in> lang (Seq r s)"
  by auto

lemma lang_seqsI: "v \<in> lang r \<Longrightarrow> w \<in> lang (seqs rs) \<Longrightarrow> v @ w \<in> lang (seqs (r # rs))"
  unfolding seqs_simps(2) by (rule lang_SeqI)

lemma lang_altsI: "r \<in> set rs \<Longrightarrow> w \<in> lang r \<Longrightarrow> w \<in> lang (alts rs)"
  by (auto simp: alts_lang)

lemma lang_OptI: "[] \<in> lang (Opt r)"
  by (simp add: Opt_def)

text \<open>The part before an @ is an alternative to the host, which may so be missing altogether.\<close>

lemma urlMatch_without_host:
  assumes "is_ascii u" and "u \<noteq> []" and "list_all (\<lambda>c. \<not> in_ranges spaces (byte c)) u"
  shows "urlMatch (''http://'' @ u @ ''@'')"
proof -
  have star: "map byte v \<in> lang (Star (NotClass spaces))" if "list_all (\<lambda>c. \<not> in_ranges spaces (byte c)) v" for v
  proof -
    have "map byte v = concat (map (\<lambda>c. [byte c]) v)" "set (map (\<lambda>c. [byte c]) v) \<subseteq> lang (NotClass spaces)"
      using that by (induction v) auto
    then show ?thesis unfolding lang.simps by blast
  qed
  obtain c v where u: "u = c # v" using assms(2) by (cases u) auto
  have "[byte c] @ map byte v \<in> lang (Plus (NotClass spaces))"
    unfolding Plus_def using assms(3) star [of v] by (intro lang_SeqI) (simp_all add: u del: lang.simps(7))
  then have plus: "map byte u \<in> lang (Plus (NotClass spaces))" by (simp add: u)
  have "map byte ''http'' @ [] \<in> lang (Seq (Lit ''http'') (Opt (Lit ''s'')))"
    by (intro lang_SeqI lang_OptI) (simp add: Lit_lang)
  then have scheme: "map byte ''http'' \<in> lang (Alt (Seq (Lit ''http'') (Opt (Lit ''s''))) (Lit ''ftp''))"
    by simp
  have "map byte ''http'' @ map byte ''://'' @ (map byte u @ [] @ map byte ''@'' @ []) @ [] @ [] @ [] \<in> lang urlRegx"
    unfolding urlRegx_def Let_def
    by (intro lang_seqsI lang_altsI [OF list.set_intros(1)] lang_OptI plus scheme)
      (simp_all add: Lit_lang Rune_def in_ranges_def seqs_def)
  then have "map byte (''http://'' @ u @ ''@'') \<in> lang urlRegx" by simp
  then show ?thesis
    using assms(1) by (simp add: urlMatch_def MatchString_bytes del: lang.simps)
qed

text \<open>Between the quotes of an address every visible character is accepted, the quote included.\<close>

lemma emailMatch_quoted:
  assumes "list_all (\<lambda>c. 32 \<le> byte c \<and> byte c \<le> 126) u"
  shows "emailMatch (CHR 0x22 # u @ CHR 0x22 # ''@x.y'')"
proof -
  have star: "map byte u \<in> lang (Star (Seq (Opt r) (Alt s (Alt (Class [(1, 9), (11, 11), (12, 12), (13, 127)]) t))))"
    for r s t
  proof -
    have "[] @ [byte c] \<in> lang (Seq (Opt r) (Alt s (Alt (Class [(1, 9), (11, 11), (12, 12), (13, 127)]) t)))"
      if "32 \<le> byte c \<and> byte c \<le> 126" for c
      by (intro lang_SeqI lang_OptI) (use that in \<open>simp add: in_ranges_def\<close>)
    then have "set (map (\<lambda>c. [byte c]) u) \<subseteq>
        lang (Seq (Opt r) (Alt s (Alt (Class [(1, 9), (11, 11), (12, 12), (13, 127)]) t)))"
      using assms by (auto simp: list_all_iff simp del: lang.simps)
    moreover have "map byte u = concat (map (\<lambda>c. [byte c]) u)" by (induction u) simp_all
    ultimately show ?thesis unfolding lang.simps(7) by blast
  qed
  have one: "w \<in> lang r \<Longrightarrow> w @ [] \<in> lang (Plus r)" for w r
    unfolding Plus_def by (rule lang_SeqI) (auto intro: exI [of _ "[]"])
  have label: "map byte ''x'' \<in> lang (Alt (alts [Class letters, Class digit_class, Class wide]) r)"
    "map byte ''y'' \<in> lang (Alt (Alt (Class letters) (Class wide)) r)" for r
    by (simp_all add: alts_lang letters_def in_ranges_def)
  have runes: "map byte [CHR 0x22] \<in> lang (Rune (CHR 0x22))" "map byte ''@'' \<in> lang (Rune (CHR ''@''))"
    "map byte ''.'' \<in> lang (Rune (CHR ''.''))"
    by (simp_all add: Rune_def in_ranges_def)
  have nil: "[] \<in> lang (seqs [])" by simp
  have quoted: "map byte [CHR 0x22] @ map byte u @ [] @ map byte [CHR 0x22] @ [] \<in> lang (Alt r (seqs [Rune (CHR 0x22),
      Star (Seq (Opt a) (Alt s (Alt (Class [(1, 9), (11, 11), (12, 12), (13, 127)]) t))), Opt b, Rune (CHR 0x22)]))"
    for r a s t b
    unfolding lang.simps(6) by (intro UnI2 lang_seqsI star runes lang_OptI nil)
  have "(map byte [CHR 0x22] @ map byte u @ [] @ map byte [CHR 0x22] @ []) @ map byte ''@'' @
      ((map byte ''x'' @ map byte ''.'') @ []) @ map byte ''y'' @ [] @ [] \<in> lang emailRegx"
    unfolding emailRegx_def Let_def
    by (intro lang_seqsI quoted one lang_SeqI label runes lang_OptI nil)
  moreover have "is_ascii u" using assms by (auto simp: is_ascii_def list_all_iff)
  ultimately show ?thesis by (simp add: emailMatch_def MatchString_bytes del: lang.simps)
qed

end
