(* ===== verification/ValidatorRules.thy ===== *)
theory ValidatorRules
  imports Validators Patterns
begin

text \<open>
  The validators of \<open>core/validators\<close> that do not have the common shape, the library that maps the
  rule names to them, and \<open>Validate\<close>, which reads the rules from the tags.
\<close>

section \<open>Lengths\<close>

text \<open>\<open>utf8.RuneCountInString\<close>.\<close>

definition RuneCount :: "string \<Rightarrow> nat" where
  "RuneCount s = length (runes s)"

text \<open>\<open>isValid\<close>, which nothing calls: whether a value is not empty.\<close>

definition isValid :: "('f, 'o) lib \<Rightarrow> ('f, 'o) rvalue \<Rightarrow> bool" where
  "isValid l v =
     (case v of
        RString s \<Rightarrow> s \<noteq> []
      | RInt _ x \<Rightarrow> x \<noteq> 0
      | RUint _ x \<Rightarrow> x \<noteq> 0
      | RFloat _ x \<Rightarrow> \<not> float_zero l x
      | RBool _ \<Rightarrow> True
      | ROther x \<Rightarrow>
          (case kind_of l x of
             Collection n \<Rightarrow> n > 0
           | StructValue zero \<Rightarrow> \<not> zero
           | Nilable nil \<Rightarrow> \<not> nil
           | Plain \<Rightarrow> True))"

text \<open>\<open>Required\<close> and \<open>MaxLength\<close> have the same body; only strings are looked at.\<close>

definition check_length :: "(int \<Rightarrow> int \<Rightarrow> bool) \<Rightarrow> ('f, 'o) validator" where
  "check_length bad l s i p =
     (if Message p = [] then Inr (Some MessageRequired)
      else case field_at s i of
        RString v \<Rightarrow>
          (case Atoi (Value p) of
             (_, Some e) \<Rightarrow> Inr (Some (NumError e))
           | (n, None) \<Rightarrow> Inr (if bad (int (RuneCount v)) n then Some (ErrText (Message p)) else None))
      | _ \<Rightarrow> Inr None)"

definition Required :: "('f, 'o) validator" where
  "Required = check_length (\<lambda>len n. len \<ge> n)"

definition MaxLength :: "('f, 'o) validator" where
  "MaxLength = check_length (\<lambda>len n. len \<ge> n)"

definition MinLength :: "('f, 'o) validator" where
  "MinLength = check_length (\<lambda>len n. len \<le> n)"

section \<open>Patterns\<close>

definition match_string :: "string \<Rightarrow> (string \<Rightarrow> bool) \<Rightarrow> ('f, 'o) rvalue \<Rightarrow> string \<Rightarrow> error option res" where
  "match_string what ok v msg =
     (case v of
        RString t \<Rightarrow> Inr (if \<not> ok t then Some (ErrText msg) else None)
      | _ \<Rightarrow> Inr (Some (ErrText (what @ '' only support string type''))))"

definition need_message :: "Param \<Rightarrow> error option res \<Rightarrow> error option res" where
  "need_message p r = (if Message p = [] then Inr (Some MessageRequired) else r)"

definition Email :: "('f, 'o) validator" where
  "Email l s i p = need_message p (match_string ''Email'' emailMatch (field_at s i) (Message p))"

definition UUID :: "('f, 'o) validator" where
  "UUID l s i p = need_message p (match_string ''UUID'' uuidMatch (field_at s i) (Message p))"

definition Phone :: "('f, 'o) validator" where
  "Phone l s i p = need_message p (match_string ''Phone'' phoneMatch (field_at s i) (Message p))"

definition Url :: "('f, 'o) validator" where
  "Url l s i p = need_message p (match_string ''Url'' urlMatch (field_at s i) (Message p))"

text \<open>\<open>regexp.MustCompile\<close> comes before the test of the kind and panics on a bad expression.\<close>

definition Regexp :: "('f, 'o) validator" where
  "Regexp l s i p = with_params p
     (case regexp_match l (Value p) [] of
        None \<Rightarrow> Inl (PanicMsg ''regexp: Compile'')
      | Some _ \<Rightarrow> match_string ''Regexp'' (\<lambda>t. regexp_match l (Value p) t = Some True) (field_at s i) (Message p))"

definition DateFormat :: "('f, 'o) validator" where
  "DateFormat l s i p =
     with_params p (match_string ''DateFormat'' (dateParses l (Value p)) (field_at s i) (Message p))"

section \<open>Comparisons with another field\<close>

text \<open>\<open>FieldByName\<close>.\<close>

definition field_named :: "('f, 'o) struct \<Rightarrow> string \<Rightarrow> ('f, 'o) rvalue option" where
  "field_named s name = map_option FieldVal (find (\<lambda>f. FieldName f = name) s)"

text \<open>\<open>reflect.DeepEqual\<close> on values of these kinds: the types must be the same.\<close>

fun deep_equal :: "('f, 'o) lib \<Rightarrow> ('f, 'o) rvalue \<Rightarrow> ('f, 'o) rvalue \<Rightarrow> bool" where
  "deep_equal l (RString a) (RString b) = (a = b)"
| "deep_equal l (RBool a) (RBool b) = (a = b)"
| "deep_equal l (RInt j a) (RInt k b) = (j = k \<and> a = b)"
| "deep_equal l (RUint j a) (RUint k b) = (j = k \<and> a = b)"
| "deep_equal l (RFloat j a) (RFloat k b) = (j = k \<and> float_eq l a b)"
| "deep_equal l (ROther a) (ROther b) = other_eq l a b"
| "deep_equal l _ _ = False"

definition compare_equal :: "bool \<Rightarrow> ('f, 'o) validator" where
  "compare_equal want l s i p = with_params p
     (case field_named s (Value p) of
        None \<Rightarrow> Inr (Some (ErrText (''no field named '' @ Value p)))
      | Some f \<Rightarrow> Inr (if deep_equal l (field_at s i) f \<noteq> want then Some (ErrText (Message p)) else None))"

definition EqualField :: "('f, 'o) validator" where
  "EqualField = compare_equal True"

definition NotEqualField :: "('f, 'o) validator" where
  "NotEqualField = compare_equal False"

fun same_kind :: "('f, 'o) rvalue \<Rightarrow> ('f, 'o) rvalue \<Rightarrow> bool" where
  "same_kind (RString _) (RString _) = True"
| "same_kind (RBool _) (RBool _) = True"
| "same_kind (RInt j _) (RInt k _) = (j = k)"
| "same_kind (RUint j _) (RUint k _) = (j = k)"
| "same_kind (RFloat j _) (RFloat k _) = (j = k)"
| "same_kind (ROther _) (ROther _) = True"
| "same_kind _ _ = False"

text \<open>
  The four orders, given by what they say of signed integers, unsigned integers and floats; any
  other kind, and \<open>int16\<close>, is unsupported.
\<close>

fun ordered_as ::
  "(int \<Rightarrow> int \<Rightarrow> bool) \<Rightarrow> (nat \<Rightarrow> nat \<Rightarrow> bool) \<Rightarrow> ('f \<Rightarrow> 'f \<Rightarrow> bool) \<Rightarrow> ('f, 'o) rvalue \<Rightarrow> ('f, 'o) rvalue \<Rightarrow>
   bool option" where
  "ordered_as ri rn rf (RInt k a) (RInt _ b) = (if k = KInt16 then None else Some (ri (sint a) (sint b)))"
| "ordered_as ri rn rf (RUint _ a) (RUint _ b) = Some (rn (unat a) (unat b))"
| "ordered_as ri rn rf (RFloat _ a) (RFloat _ b) = Some (rf a b)"
| "ordered_as ri rn rf _ _ = None"

definition compare_field ::
  "(('f, 'o) rvalue \<Rightarrow> ('f, 'o) rvalue \<Rightarrow> bool option) \<Rightarrow> ('f, 'o) struct \<Rightarrow> nat \<Rightarrow> Param \<Rightarrow> error option res" where
  "compare_field ord s i p =
     (case field_named s (Value p) of
        None \<Rightarrow> Inr (Some (ErrText (''no field name '' @ Value p)))
      | Some f \<Rightarrow>
          if \<not> same_kind (field_at s i) f
          then Inr (Some (ErrText (FieldName (s ! i) @ '' and '' @ Value p @ '' are different kind'')))
          else (case ord (field_at s i) f of
                  None \<Rightarrow> Inr (Some (ErrText ''unsupported type''))
                | Some ok \<Rightarrow> Inr (if ok then None else Some (ErrText (Message p)))))"

text \<open>\<open>GreatThanField\<close> asks for the message when it is the value that is missing.\<close>

definition GreatThanField :: "('f, 'o) validator" where
  "GreatThanField l s i p =
     (if Message p = [] then Inr (Some MessageRequired)
      else if Value p = [] then Inr (Some MessageRequired)
      else compare_field (ordered_as (>) (>) (\<lambda>a b. float_less l b a)) s i p)"

definition GreatEqualField :: "('f, 'o) validator" where
  "GreatEqualField l s i p =
     with_params p (compare_field (ordered_as (\<ge>) (\<ge>) (\<lambda>a b. float_le l b a)) s i p)"

definition LowerThanField :: "('f, 'o) validator" where
  "LowerThanField l s i p = with_params p (compare_field (ordered_as (<) (<) (float_less l)) s i p)"

definition LowerEqualField :: "('f, 'o) validator" where
  "LowerEqualField l s i p = with_params p (compare_field (ordered_as (\<le>) (\<le>) (float_le l)) s i p)"

section \<open>Method and Round\<close>

text \<open>The test is inverted: a method that exists is an error, and the zero value of one that does not is
  asked for its interface, which panics.\<close>

definition Method :: "('f, 'o) validator" where
  "Method l s i p =
     (if Value p = [] then Inr (Some ValueRequired)
      else if hasMethod l (Value p) then Inr (Some (ErrText (''no methods name '' @ Value p)))
      else Inl (PanicMsg ''reflect: call of reflect.Value.Interface on zero Value''))"

definition Round :: "('f, 'o) validator" where
  "Round l s i p = with_params p
     (case Atoi (Value p) of
        (_, Some e) \<Rightarrow> Inr (Some (NumError e))
      | (v, None) \<Rightarrow>
          (case field_at s i of
             RFloat k x \<Rightarrow>
               (case split_at (CHR ''.'') (FormatFloat l x (if k = KFloat32 then 32 else 64)) of
                  [_, frac] \<Rightarrow> Inr (if int (length frac) > v then Some (ErrText (Message p)) else None)
                | _ \<Rightarrow> Inr None)
           | _ \<Rightarrow> Inr (Some (ErrText ''round support float type only''))))"

section \<open>The library of validators\<close>

definition RegisterValidator ::
  "string \<Rightarrow> 'x \<Rightarrow> (string \<rightharpoonup> 'x) \<Rightarrow> error option \<times> (string \<rightharpoonup> 'x)" where
  "RegisterValidator key val lib =
     (if lib key \<noteq> None then (Some (ErrText (''key '' @ key @ '' has already exits'')), lib)
      else (None, lib(key \<mapsto> val)))"

definition builtin :: "(string \<times> ('f, 'o) validator) list" where
  "builtin =
     [(''required'', Required), (''max_length'', MaxLength), (''min_length'', MinLength),
      (''gt'', GreaterThan), (''lt'', LowerThan), (''ge'', GreaterEqual), (''le'', LowerEqual),
      (''equal'', Equal), (''eq'', Equal), (''equal_field'', EqualField), (''ef'', EqualField),
      (''method'', Method), (''regexp'', Regexp), (''email'', Email), (''uuid'', UUID),
      (''phone'', Phone), (''between'', Between), (''not_between'', NotBetween),
      (''not_equal'', NotEqual), (''ne'', NotEqual), (''not_equal_field'', NotEqualField),
      (''nef'', NotEqualField), (''url'', Url), (''contains'', Contains),
      (''not_contains'', NotContains), (''date_format'', DateFormat),
      (''great_than_field'', GreatThanField), (''gtf'', GreatThanField),
      (''lower_than_field'', LowerThanField), (''ltf'', LowerThanField),
      (''great_equal_field'', GreatEqualField), (''gef'', GreatEqualField),
      (''lower_equal_field'', LowerEqualField), (''lef'', LowerEqualField), (''round'', Round)]"

definition validatorLibrary :: "string \<rightharpoonup> ('f, 'o) validator" where
  "validatorLibrary = fold (\<lambda>(k, v) lib. snd (RegisterValidator k v lib)) builtin Map.empty"

section \<open>Rules in a tag\<close>

text \<open>
  The first match of the expression \<open>(\w+)\((.*)\)\<close> in the text of a rule: a run of word characters
  that ends at an opening parenthesis which a closing one follows on the same line; the parameters
  reach to the last of those.
\<close>

definition word_char :: "char \<Rightarrow> bool" where
  "word_char c \<longleftrightarrow> (let n = (of_char c :: nat) in
     48 \<le> n \<and> n \<le> 57 \<or> 65 \<le> n \<and> n \<le> 90 \<or> 97 \<le> n \<and> n \<le> 122 \<or> n = 95)"

definition to_last_paren :: "string \<Rightarrow> string option" where
  "to_last_paren s =
     (let line = takeWhile (\<lambda>c. c \<noteq> CHR 0x0A) s
      in if CHR '')'' \<in> set line then Some (rev (tl (dropWhile (\<lambda>c. c \<noteq> CHR '')'') (rev line)))) else None)"

fun find_rule :: "string \<Rightarrow> (string \<times> string) option" where
  "find_rule [] = None"
| "find_rule (c # s) =
     (if word_char c then
        (case dropWhile word_char (c # s) of
           CHR ''('' # rest \<Rightarrow>
             (case to_last_paren rest of
                Some params \<Rightarrow> Some (takeWhile word_char (c # s), params)
              | None \<Rightarrow> find_rule s)
         | _ \<Rightarrow> find_rule s)
      else find_rule s)"

text \<open>Two parameters at most: everything after the first comma belongs to the second.\<close>

definition param_list :: "string \<Rightarrow> string list" where
  "param_list text =
     (let list = split_at (CHR '','') text
      in if length list > 2 then [list ! 0, TrimPrefix text (list ! 0 @ '','')] else list)"

definition read_param :: "string \<Rightarrow> Param \<Rightarrow> error + Param" where
  "read_param val param =
     (let v = TrimPrefix val '' '' in
      case split_at (CHR ''='') v of
        [k, x] \<Rightarrow>
          if k = ''m'' \<or> k = ''message'' then Inr (param\<lparr>Message := x\<rparr>)
          else if k = ''v'' \<or> k = ''value'' then Inr (param\<lparr>Value := x\<rparr>)
          else Inl (ErrText (''unexpect param got '' @ k))
      | _ \<Rightarrow> Inl (ErrText (v @ '' syntax error'')))"

fun read_params :: "string list \<Rightarrow> Param \<Rightarrow> error + Param" where
  "read_params [] param = Inr param"
| "read_params (v # vs) param = rbind (read_param v param) (read_params vs)"

definition no_param :: Param where
  "no_param = \<lparr>Message = [], Value = []\<rparr>"

text \<open>One rule of a field, and the loops over rules and fields; the first error ends them.\<close>

definition check_rule ::
  "(string \<rightharpoonup> ('f, 'o) validator) \<Rightarrow> ('f, 'o) lib \<Rightarrow> ('f, 'o) struct \<Rightarrow> nat \<Rightarrow> string \<Rightarrow> error option res" where
  "check_rule lib l s i rule =
     (case find_rule rule of
        None \<Rightarrow> Inr None
      | Some (key, text) \<Rightarrow>
          (case lib key of
             None \<Rightarrow> Inr (Some (ErrText (key @ '' validator does not exits'')))
           | Some validator \<Rightarrow>
               (case read_params (param_list text) no_param of
                  Inl e \<Rightarrow> Inr (Some e)
                | Inr param \<Rightarrow>
                    rbind (validator l s i param) (\<lambda>r.
                      Inr (map_option (\<lambda>e. NewValidationError e (FieldName (s ! i)) key) r)))))"

fun check_rules ::
  "(string \<rightharpoonup> ('f, 'o) validator) \<Rightarrow> ('f, 'o) lib \<Rightarrow> ('f, 'o) struct \<Rightarrow> (nat \<times> string) list \<Rightarrow> error option res" where
  "check_rules lib l s [] = Inr None"
| "check_rules lib l s ((i, rule) # rules) =
     rbind (check_rule lib l s i rule) (\<lambda>r.
       case r of Some e \<Rightarrow> Inr (Some e) | None \<Rightarrow> check_rules lib l s rules)"

definition rules_of :: "('f, 'o) struct \<Rightarrow> nat \<Rightarrow> (nat \<times> string) list" where
  "rules_of s i = (case Tag (s ! i) of None \<Rightarrow> [] | Some tags \<Rightarrow> map (Pair i) (split_at (CHR '';'') tags))"

definition Validate ::
  "(string \<rightharpoonup> ('f, 'o) validator) \<Rightarrow> ('f, 'o) lib \<Rightarrow> ('f, 'o) struct \<Rightarrow> error option res" where
  "Validate lib l s = check_rules lib l s (concat (map (rules_of s) [0..<length s]))"

end
