(* ===== verification/Request.thy ===== *)
theory Request
  imports FormFacts ValidatorRules Router Context
begin

text \<open>
  What a handler reads of a request: the accessors of \<open>core/context.go\<close> with their caches, the binders
  of \<open>core/bind/binder.go\<close>, the choice of a parser in \<open>core/parser.go\<close>, and \<open>Data\<close>, which parses and
  then validates.  The results of \<open>net/http\<close>'s own parsing of a request are fields of the request; the
  serializers and validators of a blueprint are functions.
\<close>

section \<open>Texts\<close>

text \<open>\<open>strings.ToLower\<close>, \<open>strings.EqualFold\<close> and \<open>strings.TrimSpace\<close> on ASCII texts.\<close>

definition ToLower :: "string \<Rightarrow> string" where
  "ToLower = map to_lower"

definition EqualFold :: "string \<Rightarrow> string \<Rightarrow> bool" where
  "EqualFold s t \<longleftrightarrow> ToLower s = ToLower t"

definition is_space :: "char \<Rightarrow> bool" where
  "is_space c \<longleftrightarrow> c \<in> {CHR '' '', CHR 0x09, CHR 0x0A, CHR 0x0B, CHR 0x0C, CHR 0x0D}"

definition TrimSpace :: "string \<Rightarrow> string" where
  "TrimSpace s = rev (dropWhile is_space (rev (dropWhile is_space s)))"

section \<open>Requests\<close>

text \<open>
  Besides what the control of a request reads, the results of \<open>URL.Query()\<close>, \<open>ParseForm\<close> (its error, \<open>Form\<close> and \<open>PostForm\<close>) and
  \<open>ParseMultipartForm\<close> (its error, or the form).
\<close>

record 'x request = wire +
  r_query :: form
  r_form_error :: "string option"
  r_form :: form
  r_post_form :: form
  r_multipart :: "string + 'x multipart_form"
  r_body :: string
  r_remote :: string

text \<open>The part of the context that serves the accessors.\<close>

record 'x rctx =
  Request :: "'x request"
  queryCache :: "form option"
  formCache :: "form option"

definition reset_caches :: "'x rctx \<Rightarrow> 'x rctx" where
  "reset_caches c = c\<lparr>queryCache := None, formCache := None\<rparr>"

definition Query :: "'x rctx \<Rightarrow> form \<times> 'x rctx" where
  "Query c =
     (case queryCache c of
        None \<Rightarrow> (r_query (Request c), c\<lparr>queryCache := Some (r_query (Request c))\<rparr>)
      | Some q \<Rightarrow> (q, c))"

definition QueryValue :: "string \<Rightarrow> 'x rctx \<Rightarrow> string \<times> 'x rctx" where
  "QueryValue key c = map_prod (\<lambda>q. get_first q key) id (Query c)"

definition QueryValues :: "string \<Rightarrow> 'x rctx \<Rightarrow> string list \<times> 'x rctx" where
  "QueryValues key c = map_prod (\<lambda>q. NewValues (values_at q key)) id (Query c)"

definition From :: "'x rctx \<Rightarrow> form \<times> 'x rctx" where
  "From c =
     (case formCache c of
        None \<Rightarrow> (r_post_form (Request c), c\<lparr>formCache := Some (r_post_form (Request c))\<rparr>)
      | Some q \<Rightarrow> (q, c))"

definition FormValue_of :: "string \<Rightarrow> 'x rctx \<Rightarrow> string \<times> 'x rctx" where
  "FormValue_of key c = map_prod (\<lambda>q. get_first q key) id (From c)"

definition FormValues_of :: "string \<Rightarrow> 'x rctx \<Rightarrow> string list \<times> 'x rctx" where
  "FormValues_of key c = map_prod (\<lambda>q. NewValues (values_at q key)) id (From c)"

definition ContentType :: "'x rctx \<Rightarrow> string" where
  "ContentType c = header_get (Request c) ''Content-Type''"

definition IsWebsocket :: "'x rctx \<Rightarrow> bool" where
  "IsWebsocket c \<longleftrightarrow> str_contains (ToLower (header_get (Request c) ''Connection'')) ''upgrade'' \<and>
     EqualFold (header_get (Request c) ''Upgrade'') ''websocket''"

definition IsAjax :: "'x rctx \<Rightarrow> bool" where
  "IsAjax c \<longleftrightarrow> EqualFold (header_get (Request c) ''X-Requested-With'') ''XMLHttpRequest''"

text \<open>\<open>net.SplitHostPort\<close>: the host and the port of \<open>host:port\<close> or \<open>[host]:port\<close>.\<close>

fun last_index :: "char \<Rightarrow> string \<Rightarrow> nat option" where
  "last_index c [] = None"
| "last_index c (x # s) =
     (case last_index c s of Some i \<Rightarrow> Some (Suc i) | None \<Rightarrow> if x = c then Some 0 else None)"

definition SplitHostPort :: "string \<Rightarrow> (string \<times> string) option" where
  "SplitHostPort s =
     (case last_index (CHR '':'') s of
        None \<Rightarrow> None
      | Some i \<Rightarrow>
          if s ! 0 = CHR ''['' then
            (case indexByte (CHR '']'') s of
               None \<Rightarrow> None
             | Some e \<Rightarrow>
                 if e + 1 \<noteq> i then None
                 else if CHR ''['' \<in> set (drop 1 s) \<or> CHR '']'' \<in> set (drop (e + 1) s) then None
                 else Some (take (e - 1) (drop 1 s), drop (i + 1) s))
          else if CHR '':'' \<in> set (take i s) \<or> CHR ''['' \<in> set s \<or> CHR '']'' \<in> set s then None
          else Some (take i s, drop (i + 1) s))"

definition RemoteIP :: "'x rctx \<Rightarrow> string" where
  "RemoteIP c = (case SplitHostPort (TrimSpace (r_remote (Request c))) of Some (ip, _) \<Rightarrow> ip | None \<Rightarrow> [])"

section \<open>Binders\<close>

definition HeaderBinder ::
  "('f, 'j, 't, 'x) bind_lib \<Rightarrow> 'x request \<Rightarrow> ('f, 'j, 't, 'x) target \<Rightarrow> ('f, 'j, 't, 'x) target bound" where
  "HeaderBinder l r = BindForm l (url_binder ''header'') (rq_header r)"

definition QueryBinder ::
  "('f, 'j, 't, 'x) bind_lib \<Rightarrow> 'x request \<Rightarrow> ('f, 'j, 't, 'x) target \<Rightarrow> ('f, 'j, 't, 'x) target bound" where
  "QueryBinder l r = BindForm l (url_binder ''form'') (r_query r)"

definition FormBinder ::
  "('f, 'j, 't, 'x) bind_lib \<Rightarrow> 'x request \<Rightarrow> ('f, 'j, 't, 'x) target \<Rightarrow> ('f, 'j, 't, 'x) target bound" where
  "FormBinder l r = BindForm l (url_binder ''form'') (r_form r)"

definition MultipartFormBodyBinder ::
  "('f, 'j, 't, 'x) bind_lib \<Rightarrow> 'x multipart_form option \<Rightarrow> ('f, 'j, 't, 'x) target \<Rightarrow>
   ('f, 'j, 't, 'x) target bound" where
  "MultipartFormBodyBinder l form = BindMultipartForm l file_binder form"

definition URIBinder ::
  "('f, 'j, 't, 'x) bind_lib \<Rightarrow> form \<Rightarrow> ('f, 'j, 't, 'x) target \<Rightarrow> ('f, 'j, 't, 'x) target bound" where
  "URIBinder l values = BindForm l (url_binder ''url'') values"

text \<open>A serializer's \<open>Decode\<close>, from the text of the body; calling it on the nil interface panics.\<close>

type_synonym ('f, 'j, 't, 'x) decoder =
  "string \<Rightarrow> ('f, 'j, 't, 'x) target \<Rightarrow> ('f, 'j, 't, 'x) target bound"

definition BodyBinder ::
  "('f, 'j, 't, 'x) decoder option \<Rightarrow> 'x request \<Rightarrow> ('f, 'j, 't, 'x) target \<Rightarrow> ('f, 'j, 't, 'x) target bound" where
  "BodyBinder ser r v = (case ser of None \<Rightarrow> (v, Inl NilDeref) | Some decode \<Rightarrow> decode (r_body r) v)"

section \<open>Parsers and Data\<close>

text \<open>The parsers of \<open>parser.go\<close>, and one that a user supplies.\<close>

datatype ('f, 'j, 't, 'x) parser =
    QueryParser
  | FormParser
  | MultipartFormParser
  | JsonParser
  | XMLParser
  | OtherParser "'x request \<Rightarrow> bool" "'x request \<Rightarrow> ('f, 'j, 't, 'x) target \<Rightarrow> ('f, 'j, 't, 'x) target bound"

text \<open>What the blueprint of the current handler resolves to.\<close>

record ('f, 'j, 't, 'x) services =
  JSONDecoder :: "('f, 'j, 't, 'x) decoder option"
  XMLDecoder :: "('f, 'j, 't, 'x) decoder option"
  ParserList :: "('f, 'j, 't, 'x) parser list"
  ValidatorOf :: "(('f, 'j, 't, 'x) target \<Rightarrow> error option res) option"

text \<open>\<open>bp\<close> is the outcome of \<open>c.BluePrint()\<close>, which may panic.\<close>

definition BindQuery where
  "BindQuery l c v = QueryBinder l (Request c) v"

definition BindForm_request ::
  "('f, 'j, 't, 'x) bind_lib \<Rightarrow> 'x rctx \<Rightarrow> ('f, 'j, 't, 'x) target \<Rightarrow> ('f, 'j, 't, 'x) target bound" where
  "BindForm_request l c v =
     (case r_form_error (Request c) of
        Some e \<Rightarrow> (v, Inr (Some (BindLib e)))
      | None \<Rightarrow> FormBinder l (Request c) v)"

definition BindMultipart_request ::
  "('f, 'j, 't, 'x) bind_lib \<Rightarrow> 'x rctx \<Rightarrow> ('f, 'j, 't, 'x) target \<Rightarrow> ('f, 'j, 't, 'x) target bound" where
  "BindMultipart_request l c v =
     (case r_multipart (Request c) of
        Inl e \<Rightarrow> (v, Inr (Some (BindLib e)))
      | Inr fm \<Rightarrow> MultipartFormBodyBinder l (Some fm) v)"

definition BindJSON ::
  "('f, 'j, 't, 'x) services res \<Rightarrow> 'x rctx \<Rightarrow> ('f, 'j, 't, 'x) target \<Rightarrow> ('f, 'j, 't, 'x) target bound" where
  "BindJSON bp c v = (case bp of Inl p \<Rightarrow> (v, Inl p) | Inr b \<Rightarrow> BodyBinder (JSONDecoder b) (Request c) v)"

definition BindXML ::
  "('f, 'j, 't, 'x) services res \<Rightarrow> 'x rctx \<Rightarrow> ('f, 'j, 't, 'x) target \<Rightarrow> ('f, 'j, 't, 'x) target bound" where
  "BindXML bp c v = (case bp of Inl p \<Rightarrow> (v, Inl p) | Inr b \<Rightarrow> BodyBinder (XMLDecoder b) (Request c) v)"

definition BindHeader where
  "BindHeader l c v = HeaderBinder l (Request c) v"

definition BindURI ::
  "('f, 'j, 't, 'x) bind_lib \<Rightarrow> param list \<Rightarrow> ('f, 'j, 't, 'x) target \<Rightarrow> ('f, 'j, 't, 'x) target bound" where
  "BindURI l params v = URIBinder l (ToURLValues params) v"

fun parser_matches :: "('f, 'j, 't, 'x) parser \<Rightarrow> 'x rctx \<Rightarrow> bool" where
  "parser_matches QueryParser c = True"
| "parser_matches FormParser c = str_contains (ToLower (ContentType c)) ''application/x-www-form-urlencoded''"
| "parser_matches MultipartFormParser c = str_contains (ToLower (ContentType c)) ''multipart/form-data''"
| "parser_matches JsonParser c = str_contains (ToLower (ContentType c)) ''application/json''"
| "parser_matches XMLParser c =
     (str_contains (ToLower (ContentType c)) ''application/xml'' \<or> str_contains (ToLower (ContentType c)) ''text/xml'')"
| "parser_matches (OtherParser matches _) c = matches (Request c)"

fun parser_parse ::
  "('f, 'j, 't, 'x) bind_lib \<Rightarrow> ('f, 'j, 't, 'x) services res \<Rightarrow> ('f, 'j, 't, 'x) parser \<Rightarrow> 'x rctx \<Rightarrow>
   ('f, 'j, 't, 'x) target \<Rightarrow> ('f, 'j, 't, 'x) target bound" where
  "parser_parse l bp QueryParser c v = BindQuery l c v"
| "parser_parse l bp FormParser c v = BindForm_request l c v"
| "parser_parse l bp MultipartFormParser c v = BindMultipart_request l c v"
| "parser_parse l bp JsonParser c v = BindJSON bp c v"
| "parser_parse l bp XMLParser c v = BindXML bp c v"
| "parser_parse l bp (OtherParser _ parses) c v = parses (Request c) v"

fun Parsers_Parse ::
  "('f, 'j, 't, 'x) bind_lib \<Rightarrow> ('f, 'j, 't, 'x) services res \<Rightarrow> ('f, 'j, 't, 'x) parser list \<Rightarrow> 'x rctx \<Rightarrow>
   ('f, 'j, 't, 'x) target \<Rightarrow> ('f, 'j, 't, 'x) target bound" where
  "Parsers_Parse l bp [] c v = parser_parse l bp QueryParser c v"
| "Parsers_Parse l bp (p # ps) c v =
     (if parser_matches p c then parser_parse l bp p c v else Parsers_Parse l bp ps c v)"

datatype data_error = Unparsed bind_error | Invalid error

definition Data ::
  "('f, 'j, 't, 'x) bind_lib \<Rightarrow> ('f, 'j, 't, 'x) services res \<Rightarrow> 'x rctx \<Rightarrow> ('f, 'j, 't, 'x) target \<Rightarrow>
   ('f, 'j, 't, 'x) target \<times> data_error option res" where
  "Data l bp c v =
     (case bp of
        Inl p \<Rightarrow> (v, Inl p)
      | Inr b \<Rightarrow>
          (case Parsers_Parse l bp (ParserList b) c v of
             (v1, Inl p) \<Rightarrow> (v1, Inl p)
           | (v1, Inr (Some e)) \<Rightarrow> (v1, Inr (Some (Unparsed e)))
           | (v1, Inr None) \<Rightarrow>
               (case ValidatorOf b of
                  None \<Rightarrow> (v1, Inl NilDeref)
                | Some validate \<Rightarrow> (v1, rbind (validate v1) (\<lambda>e. Inr (map_option Invalid e))))))"

section \<open>The default services\<close>

text \<open>The struct as the validators see it.\<close>

fun to_rvalue :: "('f, 'j, 't, 'x) slot \<Rightarrow> ('f, ('f, 'j, 't, 'x) slot) rvalue" where
  "to_rvalue (SString s) = RString s"
| "to_rvalue (SBool b) = RBool b"
| "to_rvalue (SInt k x) = RInt k x"
| "to_rvalue (SUint k x) = RUint k x"
| "to_rvalue (SFloat k x) = RFloat k x"
| "to_rvalue s = ROther s"

definition view_field :: "('f, 'j, 't, 'x) bfield \<Rightarrow> ('f, ('f, 'j, 't, 'x) slot) field" where
  "view_field f = \<lparr>FieldName = BName f, Tag = BTags f ''validate'', FieldVal = to_rvalue (BSlot f)\<rparr>"

fun target_fields :: "('f, 'j, 't, 'x) target \<Rightarrow> ('f, 'j, 't, 'x) bfield list" where
  "target_fields (Ptr fs) = fs"
| "target_fields (NotPtr fs) = fs"

text \<open>\<open>validators.Default\<close>, and what \<open>BluePrint.Default\<close> installs.\<close>

definition default_validator ::
  "('f, ('f, 'j, 't, 'x) slot) lib \<Rightarrow> ('f, 'j, 't, 'x) target \<Rightarrow> error option res" where
  "default_validator vl v = Validate validatorLibrary vl (map view_field (target_fields v))"

definition default_services ::
  "('f, 'j, 't, 'x) decoder \<Rightarrow> ('f, 'j, 't, 'x) decoder \<Rightarrow> ('f, ('f, 'j, 't, 'x) slot) lib \<Rightarrow>
   ('f, 'j, 't, 'x) services" where
  "default_services jsonDecode xmlDecode vl =
     \<lparr>JSONDecoder = Some jsonDecode, XMLDecoder = Some xmlDecode,
      ParserList = [JsonParser, FormParser, MultipartFormParser, XMLParser],
      ValidatorOf = Some (default_validator vl)\<rparr>"

end
