(* ===== verification/ValidatorFacts.thy ===== *)
theory ValidatorFacts
  imports ValidatorRules
begin

text \<open>
  What the rules of \<open>core/validators\<close> mean: the comparisons on numbers, through a contract that the
  five predicates share; rules and their negations; the notation of rules in a tag, with the
  evaluation of \<open>Validate\<close> on it; and the errors that come out.
\<close>

section \<open>Comparisons on numbers\<close>

lemma parse_int_decimal: "in_range 64 z \<Longrightarrow> parse_int (decimal z) = Inr z"
  by (simp add: parse_int_def ParseInt_decimal bits_of_def)

lemma parse_int_decimal_if: "parse_int (decimal z) = (if in_range 64 z then Inr z else Inl (NumError ErrRange))"
  by (simp add: parse_int_def ParseInt_decimal bits_of_def)

lemma parse_uint_decimal: "n < 2 ^ 64 \<Longrightarrow> parse_uint (nat_digits n) = Inr n"
  by (simp add: parse_uint_def ParseUint_decimal bits_of_def)

text \<open>A minus sign is no digit of an unsigned number.\<close>

lemma parse_uint_decimal_if:
  "parse_uint (decimal z) = (if z < 0 then Inl (NumError ErrSyntax)
     else if z < 2 ^ 64 then Inr (nat z) else Inl (NumError ErrRange))"
proof (cases "z < 0")
  case True
  have "digit (CHR ''-'') = None" by code_simp
  with True show ?thesis by (simp add: decimal_def parse_uint_def ParseUint_def)
next
  case False
  then have "nat z < 2 ^ 64 \<longleftrightarrow> z < 2 ^ 64" by (simp add: nat_less_iff)
  with False show ?thesis by (simp add: decimal_def parse_uint_def ParseUint_decimal bits_of_def)
qed

text \<open>The number in an integer field of any kind, and whether a number can be given to a rule on it: the
  value of a rule is parsed at 64 bits, signed or unsigned as the field is.\<close>

fun number :: "('f, 'o) rvalue \<Rightarrow> int option" where
  "number (RInt k x) = Some (sint x)"
| "number (RUint k x) = Some (int (unat x))"
| "number _ = None"

fun readable :: "('f, 'o) rvalue \<Rightarrow> int \<Rightarrow> bool" where
  "readable (RUint k x) z \<longleftrightarrow> 0 \<le> z \<and> z < 2 ^ 64"
| "readable _ z \<longleftrightarrow> in_range 64 z"

definition int16 :: "('f, 'o) rvalue \<Rightarrow> bool" where
  "int16 v \<longleftrightarrow> (case v of RInt k x \<Rightarrow> k = KInt16 | _ \<Rightarrow> False)"

definition uint16 :: "('f, 'o) rvalue \<Rightarrow> bool" where
  "uint16 v \<longleftrightarrow> (case v of RUint k x \<Rightarrow> k = KUint16 | _ \<Rightarrow> False)"

lemma in_range_sint: "in_range 64 (sint (x :: 64 word))"
  using sint_range [of x] by (simp add: in_range_def bits_of_def)

text \<open>
  The contract of a predicate: on the supported kinds it parses the value at 64 bits and compares
  as the relation on integers and the one on natural numbers say.
\<close>

locale comparison =
  fixes test :: "('f, 'o) lib \<Rightarrow> ('f, 'o) rvalue \<Rightarrow> string \<Rightarrow> error + bool"
    and ri :: "int \<Rightarrow> int \<Rightarrow> bool" and rn :: "nat \<Rightarrow> nat \<Rightarrow> bool"
  assumes signed: "k \<noteq> KInt16 \<Longrightarrow> test l (RInt k x) v = rbind (parse_int v) (\<lambda>n. Inr (ri (sint x) n))"
    and unsigned: "j \<noteq> KUint16 \<Longrightarrow> test l (RUint j x) v = rbind (parse_uint v) (\<lambda>n. Inr (rn (unat x) n))"
    and no_int16: "test l (RInt KInt16 x) v = Inl Unsupported"
    and natural: "rn m n = ri (int m) (int n)"
begin

lemma test_number:
  assumes "number v = Some x" and "readable v z" and "\<not> int16 v" and "\<not> uint16 v"
  shows "test l v (decimal z) = Inr (ri x z)"
  using assms
  by (cases v) (auto simp: signed unsigned natural int16_def uint16_def parse_int_decimal_if parse_uint_decimal_if)

text \<open>The validator over such a predicate, with the text that it returns on failure, and over its negation.\<close>

lemma number_rule:
  "\<lbrakk>number (field_at s i) = Some x; readable (field_at s i) z; \<not> int16 (field_at s i); \<not> uint16 (field_at s i);
    Message p \<noteq> []; Value p = decimal z\<rbrakk> \<Longrightarrow>
   with_params p (verdict t (test l (field_at s i) (Value p))) = Inr (if ri x z then None else Some (ErrText t))"
  by (simp add: with_params_def verdict_def test_number decimal_not_Nil)

lemma number_rule_negated:
  "\<lbrakk>number (field_at s i) = Some x; readable (field_at s i) z; \<not> int16 (field_at s i); \<not> uint16 (field_at s i);
    Message p \<noteq> []; Value p = decimal z\<rbrakk> \<Longrightarrow>
   with_params p (verdict t (negate (test l (field_at s i) (Value p)))) = Inr (if ri x z then Some (ErrText t) else None)"
  by (simp add: with_params_def verdict_def negate_def test_number decimal_not_Nil)

lemma int16_rule:
  "\<lbrakk>Message p \<noteq> []; Value p \<noteq> []; int16 (field_at s i)\<rbrakk> \<Longrightarrow>
   with_params p (verdict t (test l (field_at s i) (Value p))) = Inr (Some Unsupported) \<and>
   with_params p (verdict t (negate (test l (field_at s i) (Value p)))) = Inr (Some Unsupported)"
  by (auto simp: with_params_def verdict_def negate_def int16_def no_int16 split: rvalue.splits)

end

text \<open>All the predicates but the one of lt also know the kind \<open>uint16\<close>.\<close>

locale full_comparison = comparison +
  assumes with_uint16: "test l (RUint j x) v = rbind (parse_uint v) (\<lambda>n. Inr (rn (unat x) n))"
begin

lemma test_any_number:
  assumes "number v = Some x" and "readable v z" and "\<not> int16 v"
  shows "test l v (decimal z) = Inr (ri x z)"
proof (cases "uint16 v")
  case True
  with assms show ?thesis
    by (cases v) (auto simp: uint16_def with_uint16 natural parse_uint_decimal_if)
qed (use assms in \<open>simp add: test_number\<close>)

lemma any_number_rule:
  "\<lbrakk>number (field_at s i) = Some x; readable (field_at s i) z; \<not> int16 (field_at s i);
    Message p \<noteq> []; Value p = decimal z\<rbrakk> \<Longrightarrow>
   with_params p (verdict t (test l (field_at s i) (Value p))) = Inr (if ri x z then None else Some (ErrText t)) \<and>
   with_params p (verdict t (negate (test l (field_at s i) (Value p)))) = Inr (if ri x z then Some (ErrText t) else None)"
  by (simp add: with_params_def verdict_def negate_def test_any_number decimal_not_Nil)

end

interpretation gt: full_comparison isGt "(>)" "(>)" by unfold_locales simp_all
interpretation lt: comparison isLt "(<)" "(<)" by unfold_locales simp_all
interpretation ge: full_comparison isGe "(\<ge>)" "(\<ge>)" by unfold_locales simp_all
interpretation le: full_comparison isLe "(\<le>)" "(\<le>)" by unfold_locales simp_all
interpretation eq: full_comparison isEqual "(=)" "(=)" by unfold_locales simp_all

lemmas rule_defs = GreaterThan_def LowerThan_def GreaterEqual_def LowerEqual_def Equal_def NotEqual_def

lemma lt_uint16:
  "\<lbrakk>uint16 (field_at s i); Message p \<noteq> []; Value p \<noteq> []\<rbrakk> \<Longrightarrow>
   with_params p (verdict t (isLt l (field_at s i) (Value p))) = Inr (Some Unsupported)"
  by (auto simp: with_params_def verdict_def uint16_def split: rvalue.splits)

definition passes :: "string \<Rightarrow> bool \<Rightarrow> error option res" where
  "passes t ok = Inr (if ok then None else Some (ErrText t))"

text \<open>C33: on an integer field of any kind, signed or unsigned, with a message and the decimal notation of an
  integer of 64 bits, signed or unsigned as the field is, as value: the rules gt, lt, ge, le, equal and
  not\_equal pass exactly when the field is related to that integer as their name says, and return the
  message when they fail, except ge, which returns the value.  The kind \<open>int16\<close> is unsupported by all six
  and the kind \<open>uint16\<close> by lt.\<close>

theorem int_rules_compare:
  assumes "number (field_at s i) = Some x" "readable (field_at s i) z" "m \<noteq> []"
  defines "f \<equiv> field_at s i" and "p \<equiv> \<lparr>Message = m, Value = decimal z\<rparr>"
  shows "if int16 f
    then \<forall>r\<in>set [GreaterThan, LowerThan, GreaterEqual, LowerEqual, Equal, NotEqual]. r l s i p = Inr (Some Unsupported)
    else GreaterThan l s i p = passes m (x > z) \<and>
      LowerThan l s i p = (if uint16 f then Inr (Some Unsupported) else passes m (x < z)) \<and>
      GreaterEqual l s i p = passes (decimal z) (x \<ge> z) \<and> LowerEqual l s i p = passes m (x \<le> z) \<and>
      Equal l s i p = passes m (x = z) \<and> NotEqual l s i p = passes m (x \<noteq> z)"
proof -
  have p: "Message p \<noteq> []" "Value p = decimal z" "Value p \<noteq> []" "Message p = m"
    using assms(3) by (simp_all add: p_def decimal_not_Nil)
  show ?thesis
  proof (cases "int16 f")
    case True
    note t = p(1,3) True [unfolded f_def]
    show ?thesis
      using True gt.int16_rule [OF t] lt.int16_rule [OF t] ge.int16_rule [OF t] le.int16_rule [OF t] eq.int16_rule [OF t]
      by (simp add: rule_defs)
  next
    case False
    note t = assms(1,2) False [unfolded f_def] p(1,2)
    have "LowerThan l s i p = (if uint16 f then Inr (Some Unsupported) else passes m (x < z))"
      using lt.number_rule [OF assms(1,2) False [unfolded f_def] _ p(1,2)] lt_uint16 [OF _ p(1,3)] p(4)
      by (auto simp: LowerThan_def f_def passes_def)
    with False show ?thesis
      using gt.any_number_rule [OF t] ge.any_number_rule [OF t] le.any_number_rule [OF t] eq.any_number_rule [OF t] p(2,4)
      by (simp add: rule_defs passes_def)
  qed
qed

definition plain_lib :: "(unit, unit) lib" where
  "plain_lib = \<lparr>ParseFloat = (\<lambda>_ _. ((), Some ErrSyntax)), FormatFloat = (\<lambda>_ _. []), float_less = (\<lambda>_ _. False),
     float_eq = (\<lambda>_ _. True), other_eq = (\<lambda>_ _. True), regexp_match = (\<lambda>_ _. None), float_zero = (\<lambda>_. False),
     kind_of = (\<lambda>_. Plain), dateParses = (\<lambda>_ _. False), hasMethod = (\<lambda>_. False)\<rparr>"

definition age_field :: "int_kind \<Rightarrow> 64 word \<Rightarrow> string option \<Rightarrow> (unit, unit) field" where
  "age_field k x t = \<lparr>FieldName = ''Age'', Tag = t, FieldVal = RInt k x\<rparr>"

lemma field_at_age: "field_at [age_field k x t] 0 = RInt k x"
  by (simp add: field_at_def age_field_def)

theorem int_rules_compare_witness:
  "GreaterEqual plain_lib [age_field KInt 5 None] 0 \<lparr>Message = ''no'', Value = decimal 7\<rparr> = Inr (Some (ErrText (decimal 7))) \<and>
   LowerThan plain_lib [age_field KInt 5 None] 0 \<lparr>Message = ''no'', Value = decimal 7\<rparr> = Inr None"
proof -
  have "number (field_at [age_field KInt 5 None] 0) = Some 5" "readable (field_at [age_field KInt 5 None] 0) 7"
    by (simp_all add: field_at_age in_range_def bits_of_def)
  from int_rules_compare [OF this, of "''no''" plain_lib] show ?thesis
    by (simp add: field_at_age int16_def uint16_def passes_def)
qed

section \<open>Ranges\<close>

text \<open>Two bounds, separated by a comma and any number of spaces.\<close>

lemma remove_spaces_spaces: "remove_spaces (replicate n CHR '' '' @ t) = remove_spaces t"
  by (induction n) (simp_all add: remove_spaces_def)

lemma bounds_of_decimal:
  "bounds_of (decimal a @ '','' @ replicate n CHR '' '' @ decimal b) = Some (decimal a, decimal b)"
proof -
  have "CHR '','' \<notin> set (decimal a)" "CHR '','' \<notin> set (replicate n CHR '' '' @ decimal b)"
    using decimal_plain by (auto split: if_splits)
  then show ?thesis
    by (simp add: bounds_of_def split_at_append split_at_none remove_spaces_spaces remove_spaces_decimal)
qed

lemma isBetween_number:
  assumes "number v = Some x"
  shows "isBetween l v (decimal a) (decimal b) = Inr (\<not> int16 v \<and> a \<le> x \<and> x \<le> b) \<or>
    (\<exists>e. isBetween l v (decimal a) (decimal b) = Inl e \<and> \<not> (readable v a \<and> readable v b))"
  using assms
  by (cases v) (auto simp: int16_def parse_int_decimal_if parse_uint_decimal_if nat_le_iff le_nat_iff)

lemma between_written:
  fixes n :: nat and a b :: int
  assumes "m \<noteq> []"
  defines "p \<equiv> \<lparr>Message = m, Value = decimal a @ '','' @ replicate n CHR '' '' @ decimal b\<rparr>"
  shows "Between l s i p = verdict m (isBetween l (field_at s i) (decimal a) (decimal b))"
    and "NotBetween l s i p = verdict m (negate (isBetween l (field_at s i) (decimal a) (decimal b)))"
proof -
  have "Message p = m" "Value p \<noteq> []" "bounds_of (Value p) = Some (decimal a, decimal b)"
    using bounds_of_decimal [of a n b] by (simp_all add: p_def decimal_not_Nil)
  then show "Between l s i p = verdict m (isBetween l (field_at s i) (decimal a) (decimal b))"
    "NotBetween l s i p = verdict m (negate (isBetween l (field_at s i) (decimal a) (decimal b)))"
    using assms(1) by (simp_all add: Between_def NotBetween_def with_params_def)
qed

lemma between_number:
  fixes n :: nat
  assumes "number (field_at s i) = Some x" "readable (field_at s i) a" "readable (field_at s i) b" "m \<noteq> []"
  defines "p \<equiv> \<lparr>Message = m, Value = decimal a @ '','' @ replicate n CHR '' '' @ decimal b\<rparr>"
  shows "Between l s i p = passes m (\<not> int16 (field_at s i) \<and> a \<le> x \<and> x \<le> b)"
    and "NotBetween l s i p = passes m (\<not> (\<not> int16 (field_at s i) \<and> a \<le> x \<and> x \<le> b))"
proof -
  have "isBetween l (field_at s i) (decimal a) (decimal b) = Inr (\<not> int16 (field_at s i) \<and> a \<le> x \<and> x \<le> b)"
    using isBetween_number [OF assms(1), of l a b] assms(2,3) by blast
  with between_written [OF assms(4), of l s i a n b]
  show "Between l s i p = passes m (\<not> int16 (field_at s i) \<and> a \<le> x \<and> x \<le> b)"
    "NotBetween l s i p = passes m (\<not> (\<not> int16 (field_at s i) \<and> a \<le> x \<and> x \<le> b))"
    by (simp_all add: p_def verdict_def negate_def passes_def)
qed

text \<open>A rule between that passes on an integer field, whatever the bounds and the message.\<close>

lemma between_passed:
  assumes "Between l s i \<lparr>Message = m, Value = decimal a @ '','' @ decimal b\<rparr> = Inr None" "number (field_at s i) = Some x"
  shows "a \<le> x \<and> x \<le> b"
proof -
  have m: "m \<noteq> []" using assms(1) by (auto simp: Between_def with_params_def)
  show ?thesis
    using isBetween_number [OF assms(2), of l a b] between_written(1) [OF m, of l s i a 0 b] assms(1)
    by (auto simp: verdict_def split: if_splits)
qed

text \<open>C34: on an integer field of any kind but \<open>int16\<close>, signed or unsigned, the rule between with the decimal
  notation of two integers of 64 bits, signed or unsigned as the field is, and a comma and any number of
  spaces between them, passes exactly when the field lies in the closed interval, and not\_between exactly
  when it does not; each returns its message when it fails.  On an \<open>int16\<close> field between always fails and
  not\_between always passes.\<close>

theorem between_rules:
  fixes n :: nat
  assumes "number (field_at s i) = Some x" "readable (field_at s i) a" "readable (field_at s i) b" "m \<noteq> []"
  defines "p \<equiv> \<lparr>Message = m, Value = decimal a @ '','' @ replicate n CHR '' '' @ decimal b\<rparr>"
  shows "if int16 (field_at s i)
    then Between l s i p = Inr (Some (ErrText m)) \<and> NotBetween l s i p = Inr None
    else Between l s i p = Inr (if a \<le> x \<and> x \<le> b then None else Some (ErrText m)) \<and>
      NotBetween l s i p = Inr (if a \<le> x \<and> x \<le> b then Some (ErrText m) else None)"
  using between_number [OF assms(1-4), of l n] unfolding p_def by (auto simp: passes_def)

theorem between_rules_witness:
  "Between plain_lib [age_field KInt8 30 None] 0 \<lparr>Message = ''no'', Value = decimal 18 @ '','' @ replicate 1 CHR '' '' @ decimal 99\<rparr> = Inr None"
proof -
  have "number (field_at [age_field KInt8 30 None] 0) = Some 30" "readable (field_at [age_field KInt8 30 None] 0) 18"
    "readable (field_at [age_field KInt8 30 None] 0) 99" by (simp_all add: field_at_age in_range_def bits_of_def)
  from between_rules [OF this, of "''no''" plain_lib 1] show ?thesis by (simp add: field_at_age int16_def)
qed


text \<open>The rule and its negation: the same error, or exactly one of them passes.\<close>

definition opposite :: "string \<Rightarrow> error option res \<Rightarrow> error option res \<Rightarrow> bool" where
  "opposite msg a b \<longleftrightarrow>
     (case a of Inl _ \<Rightarrow> False
      | Inr None \<Rightarrow> b = Inr (Some (ErrText msg))
      | Inr (Some e) \<Rightarrow> b = a \<or> e = ErrText msg \<and> b = Inr None)"

lemma opposite_verdict: "opposite msg (verdict msg r) (verdict msg (negate r))"
  by (auto simp: opposite_def verdict_def negate_def split: sum.split)

lemma opposite_with_params: "opposite msg a b \<Longrightarrow> opposite msg (with_params p a) (with_params p b)"
  by (simp add: with_params_def opposite_def)

lemma opposite_error: "opposite msg (Inr (Some e)) (Inr (Some e))"
  by (simp add: opposite_def)

text \<open>Equal and not\_equal, contains and not\_contains, between and not\_between never both pass
  and never both fail with their message: on any field and parameters they return the same error, or
  one of them passes and the other returns the message.\<close>

theorem negated_rules:
  "opposite (Message p) (Equal l s i p) (NotEqual l s i p) \<and>
   opposite (Message p) (Contains l s i p) (NotContains l s i p) \<and>
   opposite (Message p) (Between l s i p) (NotBetween l s i p)"
  unfolding Equal_def NotEqual_def Contains_def NotContains_def Between_def NotBetween_def
  by (auto intro!: opposite_with_params opposite_verdict opposite_error split: option.split)

section \<open>Rules that do not do what they are named for\<close>

lemma int16_between:
  "field_at s i = RInt KInt16 x \<Longrightarrow> Between l s i p = with_params p
     (case bounds_of (Value p) of None \<Rightarrow> Inr (Some (ErrText (Value p @ '' syntax error'')))
      | Some _ \<Rightarrow> Inr (Some (ErrText (Message p))))"
  by (auto simp: Between_def with_params_def verdict_def split: option.split)

text \<open>A field of kind \<open>int16\<close> passes none of the comparing rules: with a message and a value, gt, lt,
  ge, le, equal, not\_equal, contains and not\_contains are unsupported and between fails for
  whatever bounds.\<close>

theorem int16_never_passes:
  assumes "Message p \<noteq> []" "Value p \<noteq> []" "field_at s i = RInt KInt16 x"
  shows "GreaterThan l s i p = Inr (Some Unsupported) \<and> LowerThan l s i p = Inr (Some Unsupported) \<and>
    GreaterEqual l s i p = Inr (Some Unsupported) \<and> LowerEqual l s i p = Inr (Some Unsupported) \<and>
    Equal l s i p = Inr (Some Unsupported) \<and> NotEqual l s i p = Inr (Some Unsupported) \<and>
    Contains l s i p = Inr (Some Unsupported) \<and> NotContains l s i p = Inr (Some Unsupported) \<and>
    (\<exists>t. Between l s i p = Inr (Some (ErrText t)))"
  using assms
  by (auto simp: rule_defs Contains_def NotContains_def int16_between with_params_def verdict_def negate_def
      split: option.split)

theorem int16_never_passes_witness:
  "Equal plain_lib [age_field KInt16 5 None] 0 \<lparr>Message = ''no'', Value = ''5''\<rparr> = Inr (Some Unsupported)"
  using int16_never_passes [of "\<lparr>Message = ''no'', Value = ''5''\<rparr>" "[age_field KInt16 5 None]" 0 5 plain_lib]
  by (simp add: field_at_age)

lemma Atoi_decimal: "in_range 64 n \<Longrightarrow> Atoi (decimal n) = (n, None)"
  using ParseInt_decimal [of 0 n] by (simp add: Atoi_def in_range_def bits_of_def)

text \<open>The rule required is the rule max\_length: it does not look at whether the field is empty.  A
  string passes when it has fewer characters than the value says, the empty one included, and without
  a value every string is an error.\<close>

theorem required_is_max_length:
  assumes "field_at s i = RString v" "m \<noteq> []" "in_range 64 n"
  shows "Required l s i p = MaxLength l s i p \<and>
    Required l s i \<lparr>Message = m, Value = decimal n\<rparr> =
      Inr (if int (RuneCount v) < n then None else Some (ErrText m)) \<and>
    Required l s i \<lparr>Message = m, Value = []\<rparr> = Inr (Some (NumError ErrSyntax))"
proof -
  have "Atoi [] = (0, Some ErrSyntax)" by (simp add: Atoi_def ParseInt_def)
  with assms Atoi_decimal [OF assms(3)] show ?thesis
    by (simp add: Required_def MaxLength_def check_length_def)
qed

theorem required_is_max_length_witness:
  "Required plain_lib [\<lparr>FieldName = ''Name'', Tag = None, FieldVal = RString []\<rparr>] 0
     \<lparr>Message = ''empty'', Value = decimal 1\<rparr> = Inr None"
  using required_is_max_length [where p = no_param and l = plain_lib and m = "''empty''" and n = 1 and v = "[]"
      and s = "[\<lparr>FieldName = ''Name'', Tag = None, FieldVal = RString []\<rparr>]" and i = 0]
  by (simp add: field_at_def in_range_def bits_of_def RuneCount_def)

text \<open>C35: with a message and a string field, the rule phone passes exactly the Chinese mobile numbers, with or
  without the country's code, and the rule uuid the hexadecimal texts of the shape 8-4-4-4-12 in small
  letters; otherwise they give the message.\<close>

theorem pattern_rules:
  assumes "field_at s i = RString t" "Message p \<noteq> []"
  shows "Phone l s i p = Inr (if phone_number t then None else Some (ErrText (Message p))) \<and>
    UUID l s i p = Inr (if uuid_text t then None else Some (ErrText (Message p)))"
  using assms by (simp add: Phone_def UUID_def need_message_def match_string_def phoneMatch_iff uuidMatch_iff)

theorem pattern_rules_witness:
  "Phone plain_lib [\<lparr>FieldName = ''Phone'', Tag = None, FieldVal = RString ''+8613912345678''\<rparr>] 0
     \<lparr>Message = ''bad'', Value = []\<rparr> = Inr None"
proof -
  have "phone_number ''+8613912345678''" by code_simp
  then show ?thesis
    using pattern_rules [where p = "\<lparr>Message = ''bad'', Value = []\<rparr>" and l = plain_lib and t = "''+8613912345678''"
        and s = "[\<lparr>FieldName = ''Phone'', Tag = None, FieldVal = RString ''+8613912345678''\<rparr>]" and i = 0]
    by (simp add: field_at_def)
qed

text \<open>The rule url lets a text without host pass, the rule email one with a bare quote.\<close>

lemma url_and_email_pass:
  assumes "field_at s i = RString t" "Message p \<noteq> []"
  shows "t = ''http://x@'' \<Longrightarrow> Url l s i p = Inr None"
    and "t = CHR 0x22 # ''a'' @ CHR 0x22 # ''b'' @ CHR 0x22 # ''@x.y'' \<Longrightarrow> Email l s i p = Inr None"
  using assms urlMatch_without_host [of "''x''"] emailMatch_quoted [of "''a'' @ CHR 0x22 # ''b''"]
  by (simp_all add: Url_def Email_def need_message_def match_string_def spaces_def in_ranges_def)

text \<open>The rule required, in contrast to \<open>isValid\<close>, passes the empty text when its value is positive.\<close>

lemma required_passes_empty:
  assumes "field_at s i = RString []" "m \<noteq> []" "in_range 64 n" "n > 0"
  shows "Required l s i \<lparr>Message = m, Value = decimal n\<rparr> = Inr None \<and> \<not> isValid l (field_at s i)"
  using assms Atoi_decimal [OF assms(3)] by (simp add: Required_def check_length_def RuneCount_def isValid_def)

text \<open>The rule method never passes: it needs a value, and it is an error if the method exists and a
  panic if it does not.\<close>

theorem Method_never_passes:
  "(\<exists>e. Method l s i p = Inr (Some e)) \<or> (\<exists>msg. Method l s i p = Inl (PanicMsg msg))"
  by (simp add: Method_def)


section \<open>Rules in a tag\<close>

text \<open>A rule with its message and value as a tag has them, and a tag of several rules.\<close>

type_synonym rule = "string \<times> string \<times> string"

definition written :: "rule \<Rightarrow> string" where
  "written r = (case r of (key, msg, val) \<Rightarrow> key @ ''(m='' @ msg @ '',v='' @ val @ '')'')"

fun tag_of :: "rule list \<Rightarrow> string" where
  "tag_of [] = []"
| "tag_of [r] = written r"
| "tag_of (r # rs) = written r @ '';'' @ tag_of rs"

text \<open>The texts that can be written: the value may hold commas, spaces and parentheses.\<close>

definition rule_ok :: "rule \<Rightarrow> bool" where
  "rule_ok r = (case r of (key, msg, val) \<Rightarrow>
     key \<noteq> [] \<and> list_all word_char key \<and>
     CHR '','' \<notin> set msg \<and> CHR ''='' \<notin> set msg \<and> CHR '';'' \<notin> set msg \<and> CHR 0x0A \<notin> set msg \<and>
     CHR ''='' \<notin> set val \<and> CHR '';'' \<notin> set val \<and> CHR 0x0A \<notin> set val)"

text \<open>What \<open>Validate\<close> should do: the rules in order, up to the first that fails.\<close>

fun first_failure ::
  "(string \<rightharpoonup> ('f, 'o) validator) \<Rightarrow> ('f, 'o) lib \<Rightarrow> ('f, 'o) struct \<Rightarrow> (nat \<times> rule) list \<Rightarrow> error option res" where
  "first_failure lib l s [] = Inr None"
| "first_failure lib l s ((i, key, msg, val) # rules) =
     (case lib key of
        None \<Rightarrow> Inr (Some (ErrText (key @ '' validator does not exits'')))
      | Some validator \<Rightarrow>
          rbind (validator l s i \<lparr>Message = msg, Value = val\<rparr>) (\<lambda>r.
            case r of
              Some e \<Rightarrow> Inr (Some (ValidationErrorPtr e (FieldName (s ! i)) key))
            | None \<Rightarrow> first_failure lib l s rules))"

lemma word_char_not: "word_char c \<Longrightarrow> c \<noteq> CHR ''('' \<and> c \<noteq> CHR '';''"
  by (auto simp: word_char_def)

lemma word_key: "list_all word_char key \<Longrightarrow> takeWhile word_char (key @ CHR ''('' # t) = key"
  "list_all word_char key \<Longrightarrow> dropWhile word_char (key @ CHR ''('' # t) = CHR ''('' # t"
  by (auto simp: list_all_iff takeWhile_append dropWhile_append word_char_def)

lemma to_last_paren_append:
  assumes "CHR 0x0A \<notin> set t"
  shows "to_last_paren (t @ '')'') = Some t"
proof -
  have "takeWhile (\<lambda>c. c \<noteq> CHR 0x0A) (t @ '')'') = t @ '')''"
    using assms by (subst takeWhile_eq_all_conv) auto
  then show ?thesis by (simp add: to_last_paren_def)
qed

lemma find_rule_printed:
  assumes "key \<noteq> []" "list_all word_char key" "CHR 0x0A \<notin> set t"
  shows "find_rule (key @ CHR ''('' # t @ '')'') = Some (key, t)"
proof -
  obtain c s where cs: "key @ CHR ''('' # t @ '')'' = c # s" and c: "word_char c"
    using assms(1,2) by (cases key) auto
  have h: "takeWhile word_char (c # s) = key" "dropWhile word_char (c # s) = CHR ''('' # t @ '')''"
    using word_key [OF assms(2), of "t @ '')''"] by (simp_all add: cs)
  have "find_rule (c # s) = Some (key, t)"
    by (simp only: find_rule.simps c h if_True) (simp add: to_last_paren_append [OF assms(3)])
  then show ?thesis by (simp add: cs)
qed

text \<open>The parameters of a rule: the message up to the first comma, the value with all the others.\<close>

lemma length_split_at: "length (split_at c s) = Suc (length (filter (\<lambda>x. x = c) s))"
  by (induction s) (auto split: list.split)

lemma param_list_two:
  assumes "CHR '','' \<notin> set m"
  shows "param_list (m @ '','' @ v) = [m, v]"
proof (cases "CHR '','' \<in> set v")
  case True
  then have "length (split_at (CHR '','') (m @ '','' @ v)) > 2"
    using assms by (auto simp: length_split_at filter_empty_conv)
  moreover have "split_at (CHR '','') (m @ '','' @ v) ! 0 = m"
    using assms by (simp add: split_at_append)
  ultimately show ?thesis by (simp add: param_list_def TrimPrefix_def Let_def)
next
  case False
  with assms show ?thesis by (simp add: param_list_def split_at_append split_at_none)
qed

lemma read_param_m: "CHR ''='' \<notin> set x \<Longrightarrow> read_param (''m='' @ x) p = Inr (p\<lparr>Message := x\<rparr>)"
  by (simp add: read_param_def TrimPrefix_def split_at_none)

lemma read_param_v: "CHR ''='' \<notin> set x \<Longrightarrow> read_param (''v='' @ x) p = Inr (p\<lparr>Value := x\<rparr>)"
  by (simp add: read_param_def TrimPrefix_def split_at_none)

definition params_text :: "string \<Rightarrow> string \<Rightarrow> string" where
  "params_text msg val = (''m='' @ msg) @ '','' @ (''v='' @ val)"

lemma read_params_written:
  assumes "rule_ok (key, msg, val)"
  shows "read_params (param_list (params_text msg val)) no_param = Inr \<lparr>Message = msg, Value = val\<rparr>"
proof -
  have m: "CHR ''='' \<notin> set msg" "CHR ''='' \<notin> set val" and c: "CHR '','' \<notin> set (''m='' @ msg)"
    using assms by (simp_all add: rule_ok_def)
  show ?thesis
    unfolding params_text_def param_list_two [OF c] read_params.simps read_param_m [OF m(1)] read_param_v [OF m(2)]
      rbind_simps by (simp add: no_param_def)
qed

lemma written_text: "written (key, msg, val) = key @ CHR ''('' # params_text msg val @ '')''"
  by (simp add: written_def params_text_def)

lemma find_written:
  assumes "rule_ok (key, msg, val)"
  shows "find_rule (written (key, msg, val)) = Some (key, params_text msg val)"
  unfolding written_text
  by (rule find_rule_printed) (use assms in \<open>simp_all add: rule_ok_def params_text_def\<close>)

lemma check_rule_written:
  assumes "rule_ok (key, msg, val)"
  shows "check_rule lib l s i (written (key, msg, val)) = first_failure lib l s [(i, key, msg, val)]"
  by (auto simp: check_rule_def find_written [OF assms] read_params_written [OF assms]
      rbind_def NewValidationError_def split: option.split sum.split)

lemma check_rules_append:
  "check_rules lib l s (xs @ ys) =
     rbind (check_rules lib l s xs) (\<lambda>r. case r of Some e \<Rightarrow> Inr (Some e) | None \<Rightarrow> check_rules lib l s ys)"
  by (induction xs) (auto simp: rbind_def split: sum.split option.split)

lemma first_failure_Cons:
  "first_failure lib l s (x # ys) =
     rbind (first_failure lib l s [x]) (\<lambda>r. case r of Some e \<Rightarrow> Inr (Some e) | None \<Rightarrow> first_failure lib l s ys)"
  by (cases x) (auto simp: rbind_def split: sum.split option.split)

lemma check_rules_written:
  "\<forall>x \<in> set xs. rule_ok (snd x) \<Longrightarrow>
   check_rules lib l s (map (\<lambda>(i, r). (i, written r)) xs) = first_failure lib l s xs"
proof (induction xs)
  case (Cons x xs)
  obtain i key msg val where x: "x = (i, key, msg, val)" by (cases x)
  have "check_rule lib l s i (written (key, msg, val)) = first_failure lib l s [x]"
    using Cons.prems x by (simp only: x) (intro check_rule_written, auto)
  then show ?case
    using Cons x by (subst first_failure_Cons) (simp del: first_failure.simps)
qed simp

text \<open>A tag is split into the rules that it was written from.\<close>

lemma written_no_semicolon: "rule_ok r \<Longrightarrow> CHR '';'' \<notin> set (written r)"
  by (cases r) (auto simp: rule_ok_def written_def list_all_iff dest!: word_char_not)

lemma split_tag_of:
  "\<lbrakk>rs \<noteq> []; \<forall>r \<in> set rs. rule_ok r\<rbrakk> \<Longrightarrow> split_at (CHR '';'') (tag_of rs) = map written rs"
  by (induction rs rule: tag_of.induct) (simp_all add: written_no_semicolon split_at_none split_at_append)

lemma rules_of_written:
  assumes "\<forall>r \<in> set rs. rule_ok r" "Tag (s ! i) = (if rs = [] then None else Some (tag_of rs))"
  shows "rules_of s i = map (\<lambda>(i, r). (i, written r)) (map (Pair i) rs)"
  using assms by (auto simp: rules_of_def split_tag_of)

lemma Validate_written:
  assumes "\<forall>i<length s. (\<forall>r \<in> set (rules i). rule_ok r) \<and>
      Tag (s ! i) = (if rules i = [] then None else Some (tag_of (rules i)))"
  shows "Validate lib l s = first_failure lib l s (concat (map (\<lambda>i. map (Pair i) (rules i)) [0..<length s]))"
proof -
  let ?all = "concat (map (\<lambda>i. map (Pair i) (rules i)) [0..<length s])"
  have eq: "map (rules_of s) [0..<length s] =
      map (\<lambda>i. map (\<lambda>(i, r). (i, written r)) (map (Pair i) (rules i))) [0..<length s]"
    by (intro map_cong refl rules_of_written) (use assms in auto)
  have all: "concat (map (rules_of s) [0..<length s]) = map (\<lambda>(i, r). (i, written r)) ?all"
    unfolding eq by (simp add: map_concat comp_def)
  have "\<forall>x \<in> set ?all. rule_ok (snd x)" using assms by auto
  then show ?thesis
    unfolding Validate_def all by (rule check_rules_written)
qed

text \<open>C12: on a struct whose tags are written from lists of rules (names of word characters; messages
  without commas; no equals sign, semicolon or line break in message or value), \<open>Validate\<close> returns what
  the first failing rule says, in the order of the fields and of the rules in each tag: nil when there
  is none, the error for an unknown name, or the failure wrapped with the field's name and the rule's;
  a rule that panics ends it.  A value may contain commas and parentheses.\<close>

theorem Validate_first_failure:
  assumes "\<forall>i<length s. (\<forall>r \<in> set (rules i). rule_ok r) \<and>
      Tag (s ! i) = (if rules i = [] then None else Some (tag_of (rules i)))"
  shows "Validate lib l s = first_failure lib l s (concat (map (\<lambda>i. map (Pair i) (rules i)) [0..<length s]))"
  using assms by (rule Validate_written)

theorem Validate_first_failure_witness:
  "Validate [''gt'' \<mapsto> GreaterThan, ''lt'' \<mapsto> LowerThan] plain_lib
     [age_field KInt 5 (Some (tag_of [(''lt'', ''old'', ''99''), (''gt'', ''young'', ''17'')]))] =
   Inr (Some (ValidationErrorPtr (ErrText ''young'') ''Age'' ''gt''))"
proof -
  let ?rs = "[(''lt'', ''old'', ''99''), (''gt'', ''young'', ''17'')]"
  let ?s = "[age_field KInt 5 (Some (tag_of ?rs))]"
  have w: "rule_ok (''lt'', ''old'', ''99'')" "rule_ok (''gt'', ''young'', ''17'')"
    by (simp_all add: rule_ok_def word_char_def)
  have p: "parse_int ''99'' = Inr 99" "parse_int ''17'' = Inr 17"
    by (simp_all add: parse_int_def ParseInt_def ParseUint_def bits_of_def digit_def)
  have "Validate [''gt'' \<mapsto> GreaterThan, ''lt'' \<mapsto> LowerThan] plain_lib ?s =
      first_failure [''gt'' \<mapsto> GreaterThan, ''lt'' \<mapsto> LowerThan] plain_lib ?s
        (concat (map (\<lambda>i. map (Pair i) ?rs) [0..<length ?s]))"
    by (rule Validate_first_failure) (use w in \<open>auto simp: age_field_def simp del: tag_of.simps\<close>)
  then show ?thesis
    by (simp add: field_at_age GreaterThan_def LowerThan_def with_params_def verdict_def p del: tag_of.simps)
      (simp add: age_field_def)
qed

section \<open>The errors of Validate and the built-in rules\<close>

lemma read_params_error: "read_params vs p = Inl e \<Longrightarrow> \<exists>t. e = ErrText t"
  by (induction vs arbitrary: p)
    (auto simp: rbind_def read_param_def Let_def split: sum.splits list.splits if_splits)

lemma check_rule_error:
  "check_rule lib l s i rule = Inr (Some e) \<Longrightarrow> \<not> IsValidationError e"
  by (auto simp: check_rule_def IsValidationError_def NewValidationError_def rbind_def
      dest!: read_params_error split: option.splits sum.splits prod.splits)

lemma check_rules_error:
  "check_rules lib l s rules = Inr (Some e) \<Longrightarrow> \<not> IsValidationError e"
  by (induction rules) (auto simp: rbind_def check_rule_error split: sum.splits option.splits prod.splits)

text \<open>No error that \<open>Validate\<close> returns is recognised by \<open>IsValidationError\<close>, whatever the rules are:
  the wrapped ones are pointers and the test is for the struct.\<close>

theorem Validate_error_unrecognised:
  assumes "Validate lib l s = Inr (Some e)"
  shows "\<not> IsValidationError e"
  using assms unfolding Validate_def by (rule check_rules_error)

theorem Validate_error_unrecognised_witness:
  "\<not> IsValidationError (ErrText ''x validator does not exits'')"
proof (rule Validate_error_unrecognised)
  show "Validate Map.empty plain_lib [age_field KInt 5 (Some ''x(m=a)'')] =
      Inr (Some (ErrText ''x validator does not exits''))"
    by code_simp
qed

text \<open>Registration never replaces a rule: the first one under a name stays.\<close>

definition register_all :: "(string \<times> 'x) list \<Rightarrow> (string \<rightharpoonup> 'x) \<Rightarrow> (string \<rightharpoonup> 'x)" where
  "register_all kvs lib = fold (\<lambda>(k, v) lib. snd (RegisterValidator k v lib)) kvs lib"

lemma register_lookup:
  "snd (RegisterValidator key v lib) k = (if k = key \<and> lib key = None then Some v else lib k)"
  by (auto simp: RegisterValidator_def)

lemma register_all_lookup:
  "register_all kvs lib k = (case lib k of Some v \<Rightarrow> Some v | None \<Rightarrow> map_of kvs k)"
proof (induction kvs arbitrary: lib)
  case Nil
  then show ?case by (simp add: register_all_def split: option.split)
next
  case (Cons kv kvs)
  obtain a b where kv: "kv = (a, b)" by (cases kv)
  have "register_all (kv # kvs) lib = register_all kvs (snd (RegisterValidator a b lib))"
    by (simp add: register_all_def kv)
  then show ?case by (auto simp: Cons.IH register_lookup kv split: option.split)
qed

lemma validatorLibrary_map_of: "validatorLibrary = map_of builtin"
  using register_all_lookup [of builtin Map.empty]
  by (intro ext) (simp add: validatorLibrary_def register_all_def)

section \<open>What success means\<close>

lemma check_rules_None:
  "check_rules lib l s rules = Inr None \<longleftrightarrow> (\<forall>(i, rule) \<in> set rules. check_rule lib l s i rule = Inr None)"
  by (induction rules) (auto simp: rbind_def split: sum.splits option.splits prod.splits)

lemma Validate_None:
  "Validate lib l s = Inr None \<longleftrightarrow>
     (\<forall>i<length s. \<forall>(j, rule) \<in> set (rules_of s i). check_rule lib l s j rule = Inr None)"
  unfolding Validate_def check_rules_None by auto

lemma Validate_rule_passes:
  assumes "Validate lib l s = Inr None" "i < length s" "Tag (s ! i) = Some (tag_of rules)"
    and "\<forall>r \<in> set rules. rule_ok r" "(key, msg, val) \<in> set rules" "lib key = Some f"
  shows "f l s i \<lparr>Message = msg, Value = val\<rparr> = Inr None"
proof -
  have "rules_of s i = map (\<lambda>(i, r). (i, written r)) (map (Pair i) rules)"
    using assms(3,5) by (intro rules_of_written assms(4)) auto
  then have "check_rule lib l s i (written (key, msg, val)) = Inr None"
    using assms(1,2,5) unfolding Validate_None by force
  then have "first_failure lib l s [(i, key, msg, val)] = Inr None"
    using assms(4,5) by (subst check_rule_written [symmetric]) auto
  then show ?thesis
    using assms(6) by (auto simp: rbind_def split: sum.splits option.splits)
qed

lemma library_between: "validatorLibrary ''between'' = Some Between"
  by (simp add: validatorLibrary_map_of builtin_def)

end
