(* ===== verification/RequestFacts.thy ===== *)
theory RequestFacts
  imports Request ValidatorFacts
begin

text \<open>
  The caches of a context never show another request, the parameters of a route and the address of
  the client are read back as they were written, and what \<open>Data\<close> lets through satisfies the rules.
\<close>

section \<open>Caches\<close>

text \<open>A context as the accessors of a request leave it: any sequence of reads of the query and the form.\<close>

inductive reads :: "'x rctx \<Rightarrow> 'x rctx \<Rightarrow> bool" where
  reads_refl: "reads c c"
| reads_query: "reads c c1 \<Longrightarrow> reads c (snd (Query c1))"
| reads_form: "reads c c1 \<Longrightarrow> reads c (snd (From c1))"

inductive_cases reads_elim: "reads c c1"

definition coherent :: "'x rctx \<Rightarrow> bool" where
  "coherent c \<longleftrightarrow> queryCache c \<in> {None, Some (r_query (Request c))} \<and>
     formCache c \<in> {None, Some (r_post_form (Request c))}"

lemma coherent_Query: "coherent c \<Longrightarrow> coherent (snd (Query c)) \<and> fst (Query c) = r_query (Request c)"
  by (auto simp: coherent_def Query_def)

lemma coherent_From: "coherent c \<Longrightarrow> coherent (snd (From c)) \<and> fst (From c) = r_post_form (Request c)"
  by (auto simp: coherent_def From_def)

lemma Request_Query: "Request (snd (Query c)) = Request c"
  by (auto simp: Query_def split: option.split)

lemma Request_From: "Request (snd (From c)) = Request c"
  by (auto simp: From_def split: option.split)

lemma reads_coherent: "reads c c1 \<Longrightarrow> coherent c \<Longrightarrow> coherent c1 \<and> Request c1 = Request c"
  by (induction rule: reads.induct) (auto simp: coherent_Query coherent_From Request_Query Request_From)

text \<open>C31: a context that was reset and given a new request shows that request's query and form, whatever it
  held before and however often they are read: the single values are the first ones, or empty.  The
  lists are the request's with as many empty values in front.\<close>

theorem accessors_follow_request:
  assumes "reads ((reset_caches old)\<lparr>Request := r\<rparr>) c"
  shows "fst (QueryValue key c) = get_first (r_query r) key \<and> fst (FormValue_of key c) = get_first (r_post_form r) key \<and>
    fst (QueryValues key c) = replicate (length (values_at (r_query r) key)) [] @ values_at (r_query r) key \<and>
    fst (FormValues_of key c) = replicate (length (values_at (r_post_form r) key)) [] @ values_at (r_post_form r) key"
proof -
  have "coherent ((reset_caches old)\<lparr>Request := r\<rparr>)" by (simp add: coherent_def reset_caches_def)
  from reads_coherent [OF assms this] have c: "coherent c" "Request c = r" by simp_all
  show ?thesis
    using coherent_Query [OF c(1)] coherent_From [OF c(1)] c(2)
    by (simp add: QueryValue_def QueryValues_def FormValue_of_def FormValues_of_def NewValues_def)
qed

definition request_with :: "form \<Rightarrow> unit request" where
  "request_with q = \<lparr>rq_method = ''GET'', rq_path = ''/'', rq_header = Map.empty, rq_values = [], r_query = q, r_form_error = None, r_form = q, r_post_form = q,
     r_multipart = Inl [], r_body = [], r_remote = []\<rparr>"

theorem accessors_follow_request_witness:
  "fst (QueryValue ''q'' (snd (Query \<lparr>Request = request_with [''q'' \<mapsto> [''new'']], queryCache = None, formCache = None\<rparr>))) = ''new''"
proof -
  let ?old = "\<lparr>Request = request_with [''q'' \<mapsto> [''old'']], queryCache = Some [''q'' \<mapsto> [''old'']], formCache = None\<rparr>"
  let ?r = "request_with [''q'' \<mapsto> [''new'']]"
  have e: "(reset_caches ?old)\<lparr>Request := ?r\<rparr> = \<lparr>Request = ?r, queryCache = None, formCache = None\<rparr>"
    by (simp add: reset_caches_def)
  have "reads ((reset_caches ?old)\<lparr>Request := ?r\<rparr>) (snd (Query ((reset_caches ?old)\<lparr>Request := ?r\<rparr>)))"
    by (intro reads_query reads_refl)
  from accessors_follow_request [OF this, of "''q''"] show ?thesis
    unfolding e by (simp add: request_with_def get_first_def values_at_def)
qed

section \<open>Addresses\<close>

lemma last_index_None: "c \<notin> set s \<Longrightarrow> last_index c s = None"
  by (induction s) auto

lemma last_index_append: "c \<notin> set t \<Longrightarrow> last_index c (s @ c # t) = Some (length s)"
  by (induction s) (auto simp: last_index_None)

lemma TrimSpace_none: "\<forall>c \<in> set s. \<not> is_space c \<Longrightarrow> TrimSpace s = s"
proof -
  have d: "dropWhile is_space t = t" if "\<forall>c \<in> set t. \<not> is_space c" for t :: string
    using that by (cases t) auto
  assume "\<forall>c \<in> set s. \<not> is_space c"
  then show ?thesis by (simp add: TrimSpace_def d)
qed

definition plain_host :: "string \<Rightarrow> bool" where
  "plain_host h \<longleftrightarrow> (\<forall>c \<in> set h. \<not> is_space c \<and> c \<noteq> CHR ''['' \<and> c \<noteq> CHR '']'')"

text \<open>The client's address is the host of the connection's address, both as \<open>host:port\<close> when the host
  has no colon and as \<open>[host]:port\<close> for any host; an address without a port gives the empty text.\<close>

theorem RemoteIP_host:
  assumes "plain_host h" "plain_host p" "CHR '':'' \<notin> set p"
  shows "(CHR '':'' \<notin> set h \<longrightarrow> r_remote (Request c) = h @ '':'' @ p \<longrightarrow> RemoteIP c = h) \<and>
    (r_remote (Request c) = ''['' @ h @ '']:'' @ p \<longrightarrow> RemoteIP c = h) \<and>
    (r_remote (Request c) = p \<longrightarrow> RemoteIP c = [])"
proof (intro conjI impI)
  have s: "\<not> is_space (CHR '':'')" "\<not> is_space (CHR ''['')" "\<not> is_space (CHR '']'')" by (simp_all add: is_space_def)
  have np: "CHR ''['' \<notin> set p" "CHR '']'' \<notin> set p" "CHR ''['' \<notin> set h" "CHR '']'' \<notin> set h"
    using assms by (auto simp: plain_host_def)
  show "RemoteIP c = []" if "r_remote (Request c) = p"
    using that assms TrimSpace_none [of p]
    by (simp add: RemoteIP_def SplitHostPort_def last_index_None plain_host_def)
  show "RemoteIP c = h" if r: "CHR '':'' \<notin> set h" "r_remote (Request c) = h @ '':'' @ p"
  proof -
    have t: "TrimSpace (r_remote (Request c)) = h @ CHR '':'' # p"
      unfolding r(2) using assms s by (subst TrimSpace_none) (auto simp: plain_host_def)
    have i: "last_index (CHR '':'') (h @ CHR '':'' # p) = Some (length h)"
      using assms by (simp add: last_index_append)
    have "(h @ CHR '':'' # p) ! 0 \<noteq> CHR ''[''" using np by (cases h) auto
    then show ?thesis
      using np r(1) by (simp add: RemoteIP_def t SplitHostPort_def i)
  qed
  show "RemoteIP c = h" if r: "r_remote (Request c) = ''['' @ h @ '']:'' @ p"
  proof -
    let ?s = "CHR ''['' # h @ CHR '']'' # CHR '':'' # p"
    have t: "TrimSpace (r_remote (Request c)) = ?s"
      unfolding r using assms s by (subst TrimSpace_none) (auto simp: plain_host_def)
    have "(CHR ''['' # h @ '']'') @ CHR '':'' # p = ?s" by simp
    with last_index_append [of "CHR '':''" p "CHR ''['' # h @ '']''"] assms(3)
    have i: "last_index (CHR '':'') ?s = Some (length h + 2)" by (simp del: last_index.simps)
    show ?thesis
      using np by (simp add: RemoteIP_def t SplitHostPort_def i indexByte_append2 del: last_index.simps)
  qed
qed

theorem RemoteIP_host_witness:
  "RemoteIP \<lparr>Request = (request_with Map.empty)\<lparr>r_remote := ''[::1]:80''\<rparr>, queryCache = None, formCache = None\<rparr> = ''::1''"
  using RemoteIP_host [of "''::1''" "''80''" "\<lparr>Request = (request_with Map.empty)\<lparr>r_remote := ''[::1]:80''\<rparr>, queryCache = None, formCache = None\<rparr>"]
  by (simp add: plain_host_def is_space_def)

section \<open>Parameters of the route\<close>

text \<open>The parameters that a struct of scalars is written to, and the form they make.\<close>

lemma ToURLValues_distinct:
  "distinct (map Key ps) \<Longrightarrow> ToURLValues ps = map_of (map (\<lambda>p. (Key p, [Val p])) ps)"
proof (induction ps rule: rev_induct)
  case Nil
  then show ?case by (simp add: ToURLValues_def)
next
  case (snoc p ps)
  have "ToURLValues (ps @ [p]) = values_add (Key p) (Val p) (ToURLValues ps)" by (simp add: ToURLValues_def)
  moreover have n: "map_of (map (\<lambda>p. (Key p, [Val p])) ps) (Key p) = None"
    using snoc.prems by (auto simp: map_of_eq_None_iff)
  moreover have "ToURLValues ps = map_of (map (\<lambda>p. (Key p, [Val p])) ps)" using snoc by simp
  ultimately show ?case
    by (simp add: values_add_def fun_eq_iff map_add_def split: option.split)
qed

definition uri_params :: "('f, 'j, 't, 'x) bfield list \<Rightarrow> param list" where
  "uri_params gs = map (\<lambda>g. \<lparr>Key = form_key ''url'' g, Val = text_of (BSlot g)\<rparr>) gs"

text \<open>C32: \<open>BindURI\<close> reads a struct of strings, booleans and integers back from the path parameters that hold
  their texts, under the distinct names that its url tags or its field names give.\<close>

theorem BindURI_roundtrip:
  assumes "list_all2 (same_field ''url'' ''bind'') fs gs" "distinct (map (form_key ''url'') gs)"
    and "\<forall>g \<in> set gs. scalar (BSlot g)"
  shows "BindURI l (uri_params gs) (Ptr fs) = (Ptr gs, Inr None)"
proof -
  have t: "texts_of (BSlot g) = [text_of (BSlot g)]" if "g \<in> set gs" for g
    using assms(3) that by (cases "BSlot g") (auto simp: texts_of_def)
  have d: "distinct (map Key (uri_params gs))" using assms(2) by (simp add: uri_params_def o_def)
  have "ToURLValues (uri_params gs) (form_key ''url'' g) = Some (texts_of (BSlot g))" if "g \<in> set gs" for g
    unfolding ToURLValues_distinct [OF d] t [OF that]
    using assms(2) that by (auto simp: uri_params_def o_def intro!: map_of_is_SomeI)
  then show ?thesis
    using assms(1) unfolding BindURI_def URIBinder_def
    by (intro BindForm_fields) (simp_all add: url_binder_def)
qed

definition user_id :: "64 word \<Rightarrow> (unit, unit, unit, unit) bfield" where
  "user_id x = \<lparr>BName = ''Id'', BTags = (\<lambda>t. if t = ''url'' then Some ''id'' else None), BSlot = SInt KInt x\<rparr>"

theorem BindURI_roundtrip_witness:
  "BindURI plain_bind_lib [\<lparr>Key = ''id'', Val = decimal 42\<rparr>] (Ptr [user_id 0]) = (Ptr [user_id 42], Inr None)"
  using BindURI_roundtrip [of "[user_id 0]" "[user_id 42]" plain_bind_lib]
  by (simp add: uri_params_def user_id_def same_field_def replaceable_def form_key_def tags_of_def in_range_def bits_of_def)

section \<open>Data\<close>

lemma Data_valid:
  assumes "Data l (Inr b) c v = (v1, Inr None)" "ValidatorOf b = Some validate"
  shows "validate v1 = Inr None"
  using assms
  by (auto simp: Data_def rbind_def split: prod.splits sum.splits option.splits)

text \<open>The number in a field that is an integer of any kind.\<close>

definition slot_number :: "('f, 'j, 't, 'x) bfield \<Rightarrow> int option" where
  "slot_number f = (case BSlot f of SInt k x \<Rightarrow> Some (sint x) | SUint k x \<Rightarrow> Some (int (unat x)) | _ \<Rightarrow> None)"

lemma number_view: "slot_number f = Some x \<Longrightarrow> number (FieldVal (view_field f)) = Some x"
  by (auto simp: slot_number_def view_field_def split: slot.splits)

text \<open>C11: when \<open>Data\<close> of a blueprint with the default services returns nil, by whichever parser the request
  selected, every integer field, signed or unsigned and of any width, whose tag has the rule between with two
  decimal numbers lies within them, whatever rules the tag and the other fields have besides.  The tag is
  written rule by rule (\<open>tag_of\<close>), with messages and values free of its separators (\<open>rule_ok\<close>).\<close>

theorem Data_respects_between:
  assumes "Data l (Inr (default_services jd xd vl)) c v = (v1, Inr None)"
    and "f \<in> set (target_fields v1)" "slot_number f = Some x"
    and "BTags f ''validate'' = Some (tag_of rules)" "\<forall>r \<in> set rules. rule_ok r"
    and "(''between'', msg, decimal a @ '','' @ decimal z) \<in> set rules"
  shows "a \<le> x \<and> x \<le> z"
proof -
  let ?s = "map view_field (target_fields v1)"
  obtain i where i: "i < length ?s" "target_fields v1 ! i = f"
    using assms(2) by (auto simp: in_set_conv_nth)
  have f: "?s ! i = view_field f" using i by simp
  have val: "number (field_at ?s i) = Some x"
    unfolding field_at_def f by (rule number_view [OF assms(3)])
  have ok: "Validate validatorLibrary vl ?s = Inr None"
    using Data_valid [OF assms(1)] by (simp add: default_services_def default_validator_def)
  have "Tag (?s ! i) = Some (tag_of rules)"
    unfolding f by (simp add: view_field_def assms(4))
  from Validate_rule_passes [where lib = validatorLibrary and f = Between, OF ok i(1) this assms(5,6) library_between]
  have "Between vl ?s i \<lparr>Message = msg, Value = decimal a @ '','' @ decimal z\<rparr> = Inr None" .
  from between_passed [OF this val] show ?thesis .
qed

definition aged :: "64 word \<Rightarrow> (unit, unit, unit, unit) bfield" where
  "aged x = \<lparr>BName = ''Age'', BTags = (\<lambda>t. if t = ''validate''
     then Some (tag_of [(''between'', ''no'', decimal 18 @ '','' @ decimal 99)]) else None), BSlot = SInt KInt x\<rparr>"

definition view_lib :: "(unit, (unit, unit, unit, unit) slot) lib" where
  "view_lib = \<lparr>ParseFloat = (\<lambda>_ _. ((), Some ErrSyntax)), FormatFloat = (\<lambda>_ _. []), float_less = (\<lambda>_ _. False),
     float_eq = (\<lambda>_ _. True), other_eq = (=), regexp_match = (\<lambda>_ _. None), float_zero = (\<lambda>_. False),
     kind_of = (\<lambda>_. Plain), dateParses = (\<lambda>_ _. False), hasMethod = (\<lambda>_. False)\<rparr>"

lemma between_ok: "rule_ok (''between'', ''no'', decimal 18 @ '','' @ decimal 99)"
proof -
  have d: "c \<notin> set (decimal z)" if "c \<in> {CHR ''='', CHR '';'', CHR 0x0A}" for c z
    using that decimal_chars [of c z] by auto
  show ?thesis by (simp add: rule_ok_def word_char_def d)
qed

theorem Data_respects_between_witness:
  "18 \<le> sint (30 :: 64 word) \<and> sint (30 :: 64 word) \<le> 99"
proof -
  let ?c = "\<lparr>Request = request_with [''Age'' \<mapsto> [decimal 30]], queryCache = None, formCache = None\<rparr>"
  let ?d = "\<lambda>_ v. (v, Inr None)"
  have b: "BindForm plain_bind_lib (url_binder ''form'') [''Age'' \<mapsto> [decimal 30]] (Ptr [aged 5]) = (Ptr [aged 30], Inr None)"
    by (rule BindForm_fields) (simp_all add: url_binder_def aged_def same_field_def replaceable_def form_key_def tags_of_def
        in_range_def bits_of_def texts_of_def del: tag_of.simps)
  have v: "Validate validatorLibrary view_lib [view_field (aged 30)] = Inr None"
  proof -
    have "Validate validatorLibrary view_lib [view_field (aged 30)] =
        first_failure validatorLibrary view_lib [view_field (aged 30)]
          (concat (map (\<lambda>i. map (Pair i) [(''between'', ''no'', decimal 18 @ '','' @ decimal 99)]) [0..<length [view_field (aged 30)]]))"
      by (rule Validate_written) (use between_ok in \<open>simp add: view_field_def aged_def del: tag_of.simps\<close>)
    then show ?thesis
      using between_number(1) [of "[view_field (aged 30)]" 0 30 18 99 "''no''" view_lib 0]
      by (simp add: library_between field_at_def view_field_def aged_def in_range_def bits_of_def int16_def passes_def
          del: tag_of.simps)
  qed
  have "Data plain_bind_lib (Inr (default_services ?d ?d view_lib)) ?c (Ptr [aged 5]) = (Ptr [aged 30], Inr None)"
    using b v
    by (simp add: Data_def default_services_def default_validator_def ContentType_def header_get_def request_with_def
        get_first_def values_at_def ToLower_def str_contains_def BindQuery_def QueryBinder_def)
  from Data_respects_between [OF this, of "aged 30" 30 _ "''no''" 18 99] between_ok show ?thesis
    by (simp add: aged_def slot_number_def del: tag_of.simps)
qed

end
