(* ===== verification/Paths.thy ===== *)
theory Paths
  imports Strconv
begin

text \<open>
  What the program uses of \<open>path\<close> and \<open>path/filepath\<close> (with the slash as separator): cleaning, joining,
  splitting off the directory and the extension.
\<close>

section \<open>Cleaning and joining\<close>

text \<open>\<open>path.Clean\<close> and \<open>path.Join\<close> of two elements.\<close>

definition clean_part :: "bool \<Rightarrow> string \<Rightarrow> string list \<Rightarrow> string list" where
  "clean_part rooted e acc =
     (if e = [] \<or> e = ''.'' then acc
      else if e = ''..'' then
        (if acc \<noteq> [] \<and> last acc \<noteq> ''..'' then butlast acc else if rooted then acc else acc @ [e])
      else acc @ [e])"

fun join_parts :: "string list \<Rightarrow> string" where
  "join_parts [] = []"
| "join_parts [e] = e"
| "join_parts (e # es) = e @ ''/'' @ join_parts es"

definition path_Clean :: "string \<Rightarrow> string" where
  "path_Clean p =
     (let rooted = prefix ''/'' p;
          q = (if rooted then ''/'' else []) @ join_parts (fold (clean_part rooted) (split_at (CHR ''/'') p) [])
      in if q = [] then ''.'' else q)"

definition path_Join :: "string \<Rightarrow> string \<Rightarrow> string" where
  "path_Join a b =
     (if a = [] \<and> b = [] then [] else path_Clean (if a = [] then b else if b = [] then a else a @ ''/'' @ b))"

section \<open>Directory and extension\<close>

text \<open>\<open>path.Split\<close> splits after the last slash; \<open>Ext\<close> is what begins at the last dot of the last element.\<close>

definition path_dir :: "string \<Rightarrow> string" where
  "path_dir p = rev (dropWhile (\<lambda>c. c \<noteq> CHR ''/'') (rev p))"

definition path_base :: "string \<Rightarrow> string" where
  "path_base p = rev (takeWhile (\<lambda>c. c \<noteq> CHR ''/'') (rev p))"

definition path_Ext :: "string \<Rightarrow> string" where
  "path_Ext p = (let b = path_base p in
     if CHR ''.'' \<in> set b then CHR ''.'' # rev (takeWhile (\<lambda>c. c \<noteq> CHR ''.'') (rev b)) else [])"

lemma path_dir_base: "path_dir p @ path_base p = p"
  by (metis path_dir_def path_base_def rev_append rev_rev_ident takeWhile_dropWhile_id)

end
