(* ===== verification/FileStore.thy ===== *)
theory FileStore
  imports Paths
begin

text \<open>
  \<open>core/file.go\<close> with \<open>common/utils.go\<close>: the storage of uploaded files, down to the calls of \<open>os\<close>,
  whose results are parameters, and to the lock; and the coloured texts of \<open>core/color/color.go\<close>.
\<close>

section \<open>Random names\<close>

definition randomStringChars :: string where
  "randomStringChars = ''abcdefghijklmnopqrstuvwxyzABCDEFGHIJKLMNOPQRSTUVWXYZ0123456789''"

text \<open>\<open>intn\<close> gives the results of the calls of \<open>rand.Intn\<close> in order; a negative length panics in \<open>Grow\<close>.\<close>

definition GetRandomString :: "(nat \<Rightarrow> nat) \<Rightarrow> int \<Rightarrow> string res" where
  "GetRandomString intn n =
     (let n1 = (if n > int (length randomStringChars) then int (length randomStringChars) else n) in
      if n1 < 0 then Inl (PanicMsg ''strings.Builder.Grow: negative count'')
      else Inr (map (\<lambda>i. randomStringChars ! (intn i)) [0..<nat n1]))"

lemma GetRandomString_length:
  "0 \<le> n \<Longrightarrow> \<exists>s. GetRandomString intn n = Inr s \<and> length s = min (nat n) 62"
  by (auto simp: GetRandomString_def randomStringChars_def)

section \<open>The file system and the lock\<close>

datatype stat_result = Exists | NotExist | StatError string

record os =
  Stat :: "string \<Rightarrow> stat_result"
  IsExist :: "string \<Rightarrow> bool"
  MkdirAll :: "string \<Rightarrow> string option"
  Create :: "string \<Rightarrow> string option"
  Copy :: "string \<Rightarrow> string option"

record rwmutex =
  readers :: nat
  writing :: bool

text \<open>
  How a call ends: it returns, or the run-time stops the program.  \<open>None\<close> around it is a call that never
  ends, by looping or by waiting for a lock that nobody gives back.
\<close>

datatype 'a ending = Returned 'a | Fatal string

definition RLock :: "rwmutex \<Rightarrow> rwmutex option" where
  "RLock m = (if writing m then None else Some (m\<lparr>readers := readers m + 1\<rparr>))"

definition Lock :: "rwmutex \<Rightarrow> rwmutex option" where
  "Lock m = (if writing m \<or> readers m > 0 then None else Some (m\<lparr>writing := True\<rparr>))"

definition Unlock :: "rwmutex \<Rightarrow> rwmutex ending" where
  "Unlock m = (if \<not> writing m then Fatal ''sync: Unlock of unlocked RWMutex'' else Returned (m\<lparr>writing := False\<rparr>))"

record LocalFileStorage =
  MediaRoot :: string
  lock :: rwmutex

definition SetMediaRouter :: "string \<Rightarrow> LocalFileStorage \<Rightarrow> LocalFileStorage" where
  "SetMediaRouter mediaRoot l = l\<lparr>MediaRoot := mediaRoot\<rparr>"

text \<open>The error of \<open>Stat\<close> is answered by whether it says that the file does not exist.\<close>

definition fileExists :: "os \<Rightarrow> string \<Rightarrow> bool \<times> string option" where
  "fileExists os filePath =
     (case Stat os filePath of
        Exists \<Rightarrow> (True, None)
      | NotExist \<Rightarrow> (True, None)
      | StatError _ \<Rightarrow> (False, None))"

text \<open>\<open>rnd\<close> gives the random texts of the turns.\<close>

partial_function (option) name_loop ::
  "os \<Rightarrow> (nat \<Rightarrow> string) \<Rightarrow> string \<Rightarrow> nat \<Rightarrow> string \<Rightarrow> (string \<times> string option) option" where
  "name_loop os rnd root turn filename =
     (case fileExists os (path_Join root filename) of
        (_, Some e) \<Rightarrow> Some ([], Some e)
      | (exist, None) \<Rightarrow>
          if \<not> exist then Some (path_Join root filename, None)
          else name_loop os rnd root (Suc turn) (rnd turn @ filename))"

text \<open>The deferred \<open>Unlock\<close> runs when the loop has returned.\<close>

definition getAlternativeName ::
  "os \<Rightarrow> (nat \<Rightarrow> string) \<Rightarrow> string \<Rightarrow> LocalFileStorage \<Rightarrow>
   ((string \<times> string option) \<times> LocalFileStorage) ending option" where
  "getAlternativeName os rnd filename l =
     (case RLock (lock l) of
        None \<Rightarrow> None
      | Some m \<Rightarrow>
          (case name_loop os rnd (MediaRoot l) 0 filename of
             None \<Rightarrow> None
           | Some r \<Rightarrow>
               (case Unlock m of
                  Fatal msg \<Rightarrow> Some (Fatal msg)
                | Returned m1 \<Rightarrow> Some (Returned (r, l\<lparr>lock := m1\<rparr>)))))"

text \<open>\<open>opened\<close> is the error of opening the upload, if any.\<close>

definition save_to ::
  "os \<Rightarrow> string \<Rightarrow> LocalFileStorage \<Rightarrow> ((string \<times> string option) \<times> LocalFileStorage) ending option" where
  "save_to os dst l =
     (case Lock (lock l) of
        None \<Rightarrow> None
      | Some m \<Rightarrow>
          (let r = (case Create os dst of Some e \<Rightarrow> ([], Some e) | None \<Rightarrow> (dst, Copy os dst)) in
           case Unlock m of
             Fatal msg \<Rightarrow> Some (Fatal msg)
           | Returned m1 \<Rightarrow> Some (Returned (r, l\<lparr>lock := m1\<rparr>))))"

definition media_root_error :: "os \<Rightarrow> string \<Rightarrow> string option" where
  "media_root_error os root =
     (if length root > 0 then
        (case Stat os root of
           StatError e \<Rightarrow> (if IsExist os e then MkdirAll os root else None)
         | _ \<Rightarrow> None)
      else None)"

definition Save ::
  "os \<Rightarrow> (nat \<Rightarrow> string) \<Rightarrow> string option \<Rightarrow> string \<Rightarrow> LocalFileStorage \<Rightarrow>
   ((string \<times> string option) \<times> LocalFileStorage) ending option" where
  "Save os rnd opened filename l =
     (case opened of
        Some e \<Rightarrow> Some (Returned (([], Some e), l))
      | None \<Rightarrow>
          (case media_root_error os (MediaRoot l) of
             Some e \<Rightarrow> Some (Returned (([], Some e), l))
           | None \<Rightarrow>
               (case getAlternativeName os rnd filename l of
                  None \<Rightarrow> None
                | Some (Fatal msg) \<Rightarrow> Some (Fatal msg)
                | Some (Returned ((dst, Some e), l1)) \<Rightarrow> Some (Returned (([], Some e), l1))
                | Some (Returned ((dst, None), l1)) \<Rightarrow> save_to os dst l1)))"

section \<open>No upload is ever stored\<close>

lemma name_loop_stat_error:
  assumes "name_loop os rnd root turn filename = Some r"
  shows "\<exists>e. Stat os (fst r) = StatError e \<and> snd r = None"
  using assms
proof (induction rule: name_loop.raw_induct [rotated, consumes 1])
  case (1 name_loop os rnd root turn filename r)
  then show ?case
    by (auto simp: fileExists_def split: stat_result.splits)
qed

lemma name_loop_hangs:
  assumes "\<forall>p. \<nexists>e. Stat os p = StatError e"
  shows "name_loop os rnd root turn filename = None"
  using assms name_loop_stat_error [of os rnd root turn filename] by (cases "name_loop os rnd root turn filename") auto

lemma getAlternativeName_ends:
  assumes "\<not> writing (lock l)"
  shows "getAlternativeName os rnd filename l =
    (if name_loop os rnd (MediaRoot l) 0 filename = None then None
     else Some (Fatal ''sync: Unlock of unlocked RWMutex''))"
  using assms by (auto simp: getAlternativeName_def RLock_def Unlock_def split: option.split)

text \<open>C37: \<open>Save\<close> of the local storage never stores an upload, whatever the file system and the random names
  are: while nobody holds the lock for writing, which only \<open>Save\<close> itself would, it returns an error, or
  the program is stopped for releasing a read lock as a write lock, or it never returns.  The last is
  what happens to every readable upload whenever \<open>Stat\<close> can tell whether files exist: a name that is
  free counts as taken.\<close>

theorem Save_never_stores:
  assumes "\<not> writing (lock l)"
  shows "Save os rnd opened filename l \<noteq> Some (Returned ((dst, None), l1)) \<and>
    (opened = None \<longrightarrow> (\<forall>p. \<nexists>e. Stat os p = StatError e) \<longrightarrow> Save os rnd opened filename l = None)"
proof
  show "Save os rnd opened filename l \<noteq> Some (Returned ((dst, None), l1))"
    using getAlternativeName_ends [OF assms] by (auto simp: Save_def split: option.splits if_splits)
  show "opened = None \<longrightarrow> (\<forall>p. \<nexists>e. Stat os p = StatError e) \<longrightarrow> Save os rnd opened filename l = None"
  proof (intro impI)
    assume o: "opened = None" and ok: "\<forall>p. \<nexists>e. Stat os p = StatError e"
    have "media_root_error os (MediaRoot l) = None"
      using ok by (auto simp: media_root_error_def split: stat_result.split)
    then show "Save os rnd opened filename l = None"
      using o getAlternativeName_ends [OF assms] name_loop_hangs [OF ok] by (simp add: Save_def)
  qed
qed

definition empty_disk :: os where
  "empty_disk = \<lparr>Stat = (\<lambda>_. NotExist), IsExist = (\<lambda>_. False), MkdirAll = (\<lambda>_. None), Create = (\<lambda>_. None),
     Copy = (\<lambda>_. None)\<rparr>"

definition free_storage :: LocalFileStorage where
  "free_storage = \<lparr>MediaRoot = ''media'', lock = \<lparr>readers = 0, writing = False\<rparr>\<rparr>"

theorem Save_never_stores_witness:
  "Save empty_disk (\<lambda>_. ''abcdefg'') None ''a.png'' free_storage = None"
  using Save_never_stores [of free_storage empty_disk "\<lambda>_. ''abcdefg''" None "''a.png''"]
  by (simp add: free_storage_def empty_disk_def)

section \<open>Colours\<close>

text \<open>
  The constants come after \<open>colorFormat\<close> in their block, so \<open>iota\<close> is 1 at \<open>Red\<close>.  The inner
  \<open>fmt.Sprintf\<close> has a format without verbs: it is copied, and the argument is reported as extra;
  \<open>extra\<close> gives \<open>type=value\<close>.
\<close>

definition Red :: int where "Red = 1 + 91"
definition Green :: int where "Green = 2 + 91"
definition Yellow :: int where "Yellow = 3 + 91"
definition Blue :: int where "Blue = 4 + 91"
definition Magenta :: int where "Magenta = 5 + 91"

definition FormatColor :: "('v \<Rightarrow> string) \<Rightarrow> int \<Rightarrow> 'v \<Rightarrow> string" where
  "FormatColor extra color v =
     [CHR 0x1B] @ ''['' @ decimal color @ ''m'' @ (''&+v%!(EXTRA '' @ extra v @ '')'') @ [CHR 0x1B] @ ''[0m''"

definition RedString :: "('v \<Rightarrow> string) \<Rightarrow> 'v \<Rightarrow> string" where "RedString extra = FormatColor extra Red"
definition GreenString :: "('v \<Rightarrow> string) \<Rightarrow> 'v \<Rightarrow> string" where "GreenString extra = FormatColor extra Green"
definition YellowString :: "('v \<Rightarrow> string) \<Rightarrow> 'v \<Rightarrow> string" where "YellowString extra = FormatColor extra Yellow"
definition BlueString :: "('v \<Rightarrow> string) \<Rightarrow> 'v \<Rightarrow> string" where "BlueString extra = FormatColor extra Blue"
definition MagentaString :: "('v \<Rightarrow> string) \<Rightarrow> 'v \<Rightarrow> string" where "MagentaString extra = FormatColor extra Magenta"

text \<open>The code of bright red is 91; the red of this file has the code of bright green, and so on.\<close>

lemma colours_shifted: "Red = 92 \<and> Green = 93 \<and> Yellow = 94 \<and> Blue = 95 \<and> Magenta = 96"
  by (simp add: Red_def Green_def Yellow_def Blue_def Magenta_def)

end
