(* ===== verification/Renderers.thy ===== *)
theory Renderers
  imports ContextResponse Paths
begin

text \<open>
  The renderers of \<open>core/render.go\<close> that hand the response writer on to \<open>net/http\<close>, and the calls of
  \<open>core/context.go\<close> that use them or, like \<open>SetCookie\<close>, hand it on without a renderer.  \<open>http.Redirect\<close> is written out; what \<open>http.ServeFile\<close> and
  \<open>http.ServeContent\<close> do to the writer is a parameter, as are the parsing of a URL (\<open>relative\<close> says that
  it parses and has neither scheme nor host) and the texts of the status codes.
\<close>

section \<open>Redirect\<close>

text \<open>The target of a redirect: a relative one is put behind the directory of the request and cleaned.\<close>

definition redirect_target :: "(string \<Rightarrow> bool) \<Rightarrow> string \<Rightarrow> string \<Rightarrow> string" where
  "redirect_target relative oldpath url =
     (if \<not> relative url then url
      else
        let old = (if oldpath = [] then ''/'' else oldpath);
            url1 = (if url = [] \<or> hd url \<noteq> CHR ''/'' then path_dir old @ url else url);
            pth = takeWhile (\<lambda>c. c \<noteq> CHR ''?'') url1;
            query = dropWhile (\<lambda>c. c \<noteq> CHR ''?'') url1;
            cleaned = path_Clean pth
        in (if suffix ''/'' pth \<and> \<not> suffix ''/'' cleaned then cleaned @ ''/'' else cleaned) @ query)"

definition hex_digit :: "nat \<Rightarrow> char" where
  "hex_digit d = char_of (if d < 10 then d + 48 else d + 87)"

definition hexEscapeNonASCII :: "string \<Rightarrow> string" where
  "hexEscapeNonASCII s = concat (map (\<lambda>c. let n = of_char c in
     if n < 128 then [c] else [CHR ''%'', hex_digit (n div 16), hex_digit (n mod 16)]) s)"

definition html_char :: "char \<Rightarrow> string" where
  "html_char c =
     (if c = CHR ''&'' then ''&amp;'' else if c = CHR ''<'' then ''&lt;'' else if c = CHR ''>'' then ''&gt;''
      else if c = CHR 0x22 then ''&#34;'' else if c = CHR 0x27 then ''&#39;'' else [c])"

definition htmlEscape :: "string \<Rightarrow> string" where
  "htmlEscape s = concat (map html_char s)"

text \<open>\<open>http.Redirect\<close>: the content type and the body are left to the caller where it has set a type.\<close>

definition http_Redirect :: "(string \<Rightarrow> bool) \<Rightarrow> (int \<Rightarrow> string) \<Rightarrow> string \<Rightarrow> int \<Rightarrow> serving" where
  "http_Redirect relative statusText url code = (\<lambda>req h.
     let target = redirect_target relative (rq_path req) url;
         hadCT = (h ''Content-Type'' \<noteq> None)
     in [OpSet ''Location'' (hexEscapeNonASCII target)] @
        (if \<not> hadCT \<and> (rq_method req = ''GET'' \<or> rq_method req = ''HEAD'')
         then [OpSet ''Content-Type'' ''text/html; charset=utf-8''] else []) @
        [OpStatus code] @
        (if \<not> hadCT \<and> rq_method req = ''GET''
         then [OpWrite (''<a href='' @ [CHR 0x22] @ htmlEscape target @ [CHR 0x22] @ ''>'' @ statusText code @
           ''</a>.'' @ [CHR 0x0A, CHR 0x0A])]
         else []))"

definition RedirectRender :: "(string \<Rightarrow> bool) \<Rightarrow> (int \<Rightarrow> string) \<Rightarrow> string \<Rightarrow> int \<Rightarrow> serving" where
  "RedirectRender relative statusText redirectURL code =
     http_Redirect relative statusText redirectURL (if code = 0 then 302 else code)"

definition Redirect :: "(string \<Rightarrow> bool) \<Rightarrow> (int \<Rightarrow> string) \<Rightarrow> int \<Rightarrow> string \<Rightarrow> 'v call" where
  "Redirect relative statusText code url = RenderOps (RedirectRender relative statusText url code)"

section \<open>Files and contents\<close>

definition FileAttachmentRender :: "(string \<Rightarrow> serving) \<Rightarrow> string \<Rightarrow> string \<Rightarrow> serving" where
  "FileAttachmentRender serveFile fileName filePath = (\<lambda>req h.
     let value = ''attachment; filename='' @ [CHR 0x22] @ fileName @ [CHR 0x22]
     in OpSet ''Content-Disposition'' value #
        serveFile filePath req (header_set ''Content-Disposition'' value h))"

definition ServeFile :: "(string \<Rightarrow> serving) \<Rightarrow> string \<Rightarrow> string \<Rightarrow> 'v call" where
  "ServeFile serveFile filepath filename = RenderOps (FileAttachmentRender serveFile filename filepath)"

definition ContentRender :: "(string \<Rightarrow> 't \<Rightarrow> 'c \<Rightarrow> serving) \<Rightarrow> string \<Rightarrow> 't \<Rightarrow> 'c \<Rightarrow> serving" where
  "ContentRender serveContent name modTime content = serveContent name modTime content"

definition ServeContent :: "(string \<Rightarrow> 't \<Rightarrow> 'c \<Rightarrow> serving) \<Rightarrow> string \<Rightarrow> 't \<Rightarrow> 'c \<Rightarrow> 'v call" where
  "ServeContent serveContent name modTime content = RenderOps (ContentRender serveContent name modTime content)"

section \<open>Cookies\<close>

text \<open>\<open>http.SetCookie\<close> adds the cookie's text to the values of \<open>Set-Cookie\<close>; \<open>cookieString\<close> is \<open>Cookie.String\<close>,
  which gives the empty text for a cookie whose name is not valid.\<close>

definition SetCookie :: "('c \<Rightarrow> string) \<Rightarrow> 'c \<Rightarrow> 'v call" where
  "SetCookie cookieString cookie = RawOps (\<lambda>req h.
     let v = cookieString cookie in if v \<noteq> [] then [OpAdd ''Set-Cookie'' v] else [])"

section \<open>Properties\<close>

text \<open>Cookies add up, in the order of the calls, and nothing else of the response changes.\<close>

definition set_cookies :: "response \<Rightarrow> string list" where
  "set_cookies r = (case hdr r ''Set-Cookie'' of None \<Rightarrow> [] | Some vs \<Rightarrow> vs)"

lemma canonical_cookie: "canonical_key ''Set-Cookie'' = ''Set-Cookie''"
  by code_simp

lemma SetCookie_adds:
  "\<exists>h. run_call env bp (SetCookie text cookie) c = Done None (c\<lparr>writer := (writer c)\<lparr>hdr := h\<rparr>\<rparr>) \<and>
     set_cookies ((writer c)\<lparr>hdr := h\<rparr>) =
       set_cookies (writer c) @ (if text cookie = [] then [] else [text cookie]) \<and>
     (\<forall>k. k \<noteq> ''Set-Cookie'' \<longrightarrow> h k = hdr (writer c) k)"
proof (cases "text cookie = []")
  case True
  then show ?thesis
    by (intro exI [of _ "hdr (writer c)"]) (simp add: SetCookie_def serve_def set_cookies_def)
next
  case False
  then show ?thesis
    by (intro exI [of _ "header_add ''Set-Cookie'' (text cookie) (hdr (writer c))"])
      (simp add: SetCookie_def serve_def header_add_def canonical_cookie set_cookies_def)
qed

lemma path_Clean_rooted: "prefix ''/'' p \<Longrightarrow> prefix ''/'' (path_Clean p)"
  by (simp add: path_Clean_def Let_def)

lemma path_dir_rooted: "prefix ''/'' p \<Longrightarrow> prefix ''/'' (path_dir p)"
proof -
  assume "prefix ''/'' p"
  then obtain q where p: "p = CHR ''/'' # q" by (auto simp: prefix_def)
  have "path_dir p \<noteq> []" by (auto simp: path_dir_def p dropWhile_eq_Nil_conv)
  moreover have "prefix (path_dir p) p" using path_dir_base [of p] by (metis prefixI)
  ultimately show ?thesis by (cases "path_dir p") (auto simp: p)
qed

lemma redirect_target_rooted:
  assumes "relative url" and "prefix ''/'' oldpath \<or> oldpath = []"
  shows "prefix ''/'' (redirect_target relative oldpath url)"
proof -
  let ?old = "if oldpath = [] then ''/'' else oldpath"
  let ?url1 = "if url = [] \<or> hd url \<noteq> CHR ''/'' then path_dir ?old @ url else url"
  have "prefix ''/'' ?old" using assms(2) by auto
  then have "prefix ''/'' ?url1" using path_dir_rooted [of ?old] by (cases url) (auto intro: prefix_prefix)
  then have "prefix ''/'' (takeWhile (\<lambda>c. c \<noteq> CHR ''?'') ?url1)" by (auto simp: prefix_def)
  then have "prefix ''/'' (path_Clean (takeWhile (\<lambda>c. c \<noteq> CHR ''?'') ?url1))" by (rule path_Clean_rooted)
  then show ?thesis using assms(1) by (auto simp: redirect_target_def Let_def intro: prefix_prefix)
qed

text \<open>Whatever a renderer writes, a status set before goes out in front of it, with the headers of before.\<close>

lemma RenderOps_after_status:
  assumes "sent (writer c) = None" and "status c \<noteq> 0" and "100 \<le> sint (status c)"
    and "sint (status c) \<le> 999" and "\<not> informational (sint (status c))"
  shows "holds_after (\<lambda>c'. sent (writer c') = Some (sint (status c), hdr (writer c)))
    (run_call env bp (RenderOps f) c)"
proof -
  let ?r = "(writer c)\<lparr>sent := Some (sint (status c), hdr (writer c))\<rparr>"
  have "holds_after (\<lambda>r. sent r = Some (sint (status c), hdr (writer c))) (serve f (ctx_request c) ?r)"
    by (rule serve_sent) simp
  then show ?thesis
    using assms(2) writeHeader_sent [OF assms(1,3-5)]
    by (auto simp: Render_def Let_def intro: holds_after_writer)
qed

lemma run_ops_append:
  "run_ops (ps @ qs) r = (case run_ops ps r of Done _ r1 \<Rightarrow> run_ops qs r1 | Panicked q r1 \<Rightarrow> Panicked q r1 | OutOfFuel \<Rightarrow> OutOfFuel)"
  by (induction ps arbitrary: r) (auto split: outcome.split)

lemma write_out_returns: "\<exists>e r1. write_out d r = Done e r1 \<and> (sent r \<noteq> None \<longrightarrow> sent r1 = sent r)"
  by (auto simp: write_out_def dest: sent_write_body split: prod.split)

lemma canonical_location: "canonical_key ''Location'' = ''Location''"
  by code_simp

lemma redirect_ops:
  assumes "http_Redirect relative reason url code req h = ops"
  defines "loc \<equiv> OpSet ''Location'' (hexEscapeNonASCII (redirect_target relative (rq_path req) url))"
    and "ct \<equiv> OpSet ''Content-Type'' ''text/html; charset=utf-8''"
  shows "ops = [loc, OpStatus code] \<or> ops = [loc, ct, OpStatus code] \<or> (\<exists>d. ops = [loc, ct, OpStatus code, OpWrite d])"
  using assms by (cases "h ''Content-Type'' = None"; cases "rq_method req = ''GET''"; cases "rq_method req = ''HEAD''")
    (auto simp: http_Redirect_def Let_def)

lemma serve_redirect:
  assumes "sent r = None" and "100 \<le> code" "code \<le> 999" "\<not> informational code"
  shows "\<exists>r1 h. serve (http_Redirect relative reason url code) req r = Done None r1 \<and> sent r1 = Some (code, h) \<and>
    h ''Location'' = Some [hexEscapeNonASCII (redirect_target relative (rq_path req) url)]"
proof -
  let ?t = "hexEscapeNonASCII (redirect_target relative (rq_path req) url)"
  have "\<exists>r1. run_ops [OpStatus code] (r\<lparr>hdr := h\<rparr>) = Done None r1 \<and> sent r1 = Some (code, h)"
    "\<exists>r1. run_ops [OpStatus code, OpWrite d] (r\<lparr>hdr := h\<rparr>) = Done None r1 \<and> sent r1 = Some (code, h)" for d h
    using write_out_returns [of d "r\<lparr>hdr := h, sent := Some (code, h)\<rparr>"] assms(1)
      writeHeader_sent [of "r\<lparr>hdr := h\<rparr>", OF _ assms(2-4)] by auto
  note o = this [where h = "(hdr r)(''Location'' \<mapsto> [?t])"]
    this [where h = "(hdr r)(''Location'' \<mapsto> [?t], ''Content-Type'' \<mapsto> [''text/html; charset=utf-8''])"]
  from redirect_ops [OF refl, of relative reason url code req "hdr r"] show ?thesis
    unfolding serve_def
  proof (elim disjE exE)
    assume "http_Redirect relative reason url code req (hdr r) = [OpSet ''Location'' ?t, OpStatus code]"
    then show "\<exists>r1 h. run_ops (http_Redirect relative reason url code req (hdr r)) r = Done None r1 \<and>
        sent r1 = Some (code, h) \<and> h ''Location'' = Some [?t]"
      using o(1) by (simp add: header_set_def canonical_location) (metis fun_upd_same)
  next
    assume "http_Redirect relative reason url code req (hdr r) =
      [OpSet ''Location'' ?t, OpSet ''Content-Type'' ''text/html; charset=utf-8'', OpStatus code]"
    then show "\<exists>r1 h. run_ops (http_Redirect relative reason url code req (hdr r)) r = Done None r1 \<and>
        sent r1 = Some (code, h) \<and> h ''Location'' = Some [?t]"
      using o(3) by (auto simp: header_set_def canonical_location canonical_content_type)
  next
    fix d
    assume "http_Redirect relative reason url code req (hdr r) =
      [OpSet ''Location'' ?t, OpSet ''Content-Type'' ''text/html; charset=utf-8'', OpStatus code, OpWrite d]"
    then show "\<exists>r1 h. run_ops (http_Redirect relative reason url code req (hdr r)) r = Done None r1 \<and>
        sent r1 = Some (code, h) \<and> h ''Location'' = Some [?t]"
      using o(4) [of d] by (auto simp: header_set_def canonical_location canonical_content_type)
  qed
qed

text \<open>C29: \<open>Redirect\<close> on a response that has not started.  Without a status set before, the client gets the code
  (302 for 0) and the target as \<open>Location\<close>, which is an absolute path if the URL has no host.  With one,
  it gets that status and the headers of before: the redirect is lost.\<close>

theorem Redirect_headers:
  assumes "sent (writer c) = None"
    and "code = 0 \<or> 200 \<le> code \<and> code \<le> 999"
    and "status c \<noteq> 0 \<Longrightarrow> 200 \<le> sint (status c) \<and> sint (status c) \<le> 999"
  shows "if status c = 0
    then \<exists>c' h. run_call env bp (Redirect relative reason code url) c = Done None c' \<and> written c' \<and>
      sent (writer c') = Some (if code = 0 then 302 else code, h) \<and>
      h ''Location'' = Some [hexEscapeNonASCII (redirect_target relative (rq_path (ctx_request c)) url)] \<and>
      (relative url \<and> prefix ''/'' (rq_path (ctx_request c)) \<longrightarrow>
        prefix ''/'' (redirect_target relative (rq_path (ctx_request c)) url))
    else holds_after (\<lambda>c'. sent (writer c') = Some (sint (status c), hdr (writer c)))
      (run_call env bp (Redirect relative reason code url) c)"
proof (cases "status c = 0")
  case True
  let ?code = "if code = 0 then 302 else code"
  have "100 \<le> ?code" "?code \<le> 999" "\<not> informational ?code"
    using assms(2) by (auto simp: informational_def)
  from serve_redirect [OF assms(1) this, of relative reason url "ctx_request c"]
  obtain r1 h where "serve (http_Redirect relative reason url ?code) (ctx_request c) (writer c) = Done None r1"
    "sent r1 = Some (?code, h)"
    "h ''Location'' = Some [hexEscapeNonASCII (redirect_target relative (rq_path (ctx_request c)) url)]"
    by blast
  then show ?thesis
    using True redirect_target_rooted [of relative url "rq_path (ctx_request c)"]
    by (auto simp: Redirect_def RedirectRender_def Render_def bodyAllowedForStatus_def Let_def)
next
  case False
  then show ?thesis
    using RenderOps_after_status [OF assms(1) False, of env bp] assms(3)
    by (auto simp: Redirect_def informational_def)
qed

theorem Redirect_headers_witness:
  "\<exists>c' h. run_call \<lparr>json = (\<lambda>_ :: nat. None), xml = (\<lambda>_. None), sprintf = (\<lambda>f _. f), has_logger = (\<lambda>_. True)\<rparr>
      (Inr 0) (Redirect (\<lambda>_. True) (\<lambda>_. ''Found'') 0 ''login'') (shared idle_ctx) = Done None c' \<and>
    sent (writer c') = Some (302, h) \<and> h ''Location'' = Some [''/login'']"
proof -
  have s: "status (shared idle_ctx) = 0" "sent (writer (shared idle_ctx)) = None"
    "rq_path (ctx_request (shared idle_ctx)) = ''/''"
    by (simp_all add: idle_ctx_def new_response_def get_request_def)
  have "hexEscapeNonASCII (redirect_target (\<lambda>_. True) ''/'' ''login'') = ''/login''"
    by code_simp
  then show ?thesis
    using Redirect_headers [OF s(2), of 0 "\<lparr>json = (\<lambda>_ :: nat. None), xml = (\<lambda>_. None), sprintf = (\<lambda>f _. f),
      has_logger = (\<lambda>_. True)\<rparr>" "Inr 0" "\<lambda>_. True" "\<lambda>_. ''Found''" "''login''"]
    by (auto simp: s)
qed

end
