(* ===== verification/Gzip.thy ===== *)
theory Gzip
  imports ContextResponse
begin

text \<open>
  The middleware of \<open>core/zip/gzip.go\<close>, which replaces the context's response writer by one that
  compresses (theory Http has that writer), runs the rest of the group and closes the compressor in a
  deferred function.  The compressor is a parameter; the format around its output is written out.
\<close>

section \<open>The middleware\<close>

text \<open>The deferred function; \<open>rest\<close> is what happens after it: the return, or the panic that goes on.\<close>

definition gzip_deferred :: "nat \<Rightarrow> 'v handler \<Rightarrow> 'v handler" where
  "gzip_deferred d rest =
     Call (SetHeader ''Content-Length'' ''0'') (\<lambda>_.
     Call (CloseGzip d) (\<lambda>err.
       case err of None \<Rightarrow> rest | Some e \<Rightarrow> Call (LogError e) (\<lambda>_. rest)))"

text \<open>\<open>gzip.NewWriterLevel\<close> refuses levels outside \<open>-2\<close> to \<open>9\<close>; \<open>codecs\<close> gives the compressor of a level.\<close>

definition level_error :: "int \<Rightarrow> string" where
  "level_error level = ''gzip: invalid compression level: '' @ decimal level"

definition GZip :: "(int \<Rightarrow> codec) \<Rightarrow> int \<Rightarrow> 'v handler" where
  "GZip codecs level = Ask (\<lambda>(s, _).
     if \<not> str_contains (header_get (ctx_request s) ''Accept-Encoding'') ''zip'' then Return
     else if level < - 2 \<or> level > 9 then Call (LogError (level_error level)) (\<lambda>_. Return)
     else
       Call (SetHeader ''Content-Encoding'' ''gzip'') (\<lambda>_.
       Call (SetHeader ''Vary'' ''Accept-Encoding'') (\<lambda>_.
       Call (OpenGzip (codecs level) level) (\<lambda>_.
         let d = length (layers (writer s)) in
         NextRecover (\<lambda>p. gzip_deferred d (Panic p)) (gzip_deferred d Return)))))"

text \<open>\<open>Flusher\<close>: the compressing writer has no method \<open>Flush\<close>, so the assertion panics.\<close>

definition Flusher :: "'v shared \<Rightarrow> unit res" where
  "Flusher c = (if layers (writer c) = [] then Inr ()
     else Inl (PanicMsg ''interface conversion: *zip.gzipWriter is not http.Flusher: missing method Flush''))"

section \<open>Reading the format\<close>

text \<open>What a client does with the body: check the header and the trailer around the compressed data.\<close>

definition gunzip :: "codec \<Rightarrow> (string \<Rightarrow> string) \<Rightarrow> string \<Rightarrow> string option" where
  "gunzip c inflate s =
     (let n = length s; text = inflate (take (n - 18) (drop 10 s)) in
      if n < 18 \<or> take 3 s \<noteq> [CHR 0x1F, CHR 0x8B, CHR 0x08] then None
      else if drop (n - 8) s = gzip_trailer c text then Some text else None)"

lemma gzip_header_length [simp]: "length (gzip_header level) = 10"
  by (simp add: gzip_header_def)

lemma gzip_header_magic: "take 3 (gzip_header level @ s) = [CHR 0x1F, CHR 0x8B, CHR 0x08]"
  by (simp add: gzip_header_def)

lemma gunzip_gzip:
  assumes "inflate (Deflate c t) = t" and "length (Checksum c t) = 4"
  shows "gunzip c inflate (gzip_header level @ Deflate c t @ gzip_trailer c t) = Some t"
proof -
  have "length (gzip_trailer c t) = 8" using assms(2) by (simp add: gzip_trailer_def le32_def)
  then show ?thesis using assms(1) gzip_header_magic by (simp add: gunzip_def Let_def)
qed

section \<open>The writers under the middleware\<close>

lemma canonical_gzip:
  "canonical_key ''Content-Encoding'' = ''Content-Encoding''" "canonical_key ''Vary'' = ''Vary''"
  "canonical_key ''Content-Length'' = ''Content-Length''"
  by code_simp+

text \<open>A plain response with one layer that has not failed and is not closed.\<close>

definition zipping :: "codec \<Rightarrow> int \<Rightarrow> string \<Rightarrow> bool \<Rightarrow> gzip_writer" where
  "zipping k level data begun = \<lparr>gz_codec = k, gz_level = level, gz_data = data, gz_wroteHeader = begun,
     gz_closed = False, gz_err = None\<rparr>"

lemma server_write_open:
  assumes "sent r = Some (200, h)" and "declared_length h = None"
  shows "server_write b r = (None, r\<lparr>tried := tried r + length b, out := out r @ b\<rparr>)"
  using assms by (simp add: server_write_def send_ok_def bodyAllowedForStatus_def over_length_def Let_def)

text \<open>Writing the pieces of a body one after the other.\<close>

primrec write_all :: "string list \<Rightarrow> 'v handler \<Rightarrow> 'v handler" where
  "write_all [] rest = rest"
| "write_all (b # bs) rest = Call (Write b) (\<lambda>_. write_all bs rest)"

text \<open>The response once the layer has sent its header.\<close>

definition begun :: "codec \<Rightarrow> int \<Rightarrow> header \<Rightarrow> string \<Rightarrow> string \<Rightarrow> response \<Rightarrow> bool" where
  "begun k level h data out0 r \<longleftrightarrow> sent r = Some (200, h) \<and> declared_length h = None \<and> hdr r = h \<and>
     out r = out0 @ gzip_header level \<and> layers r = [zipping k level data True]"

lemma first_write:
  assumes "sent r = None" and "declared_length (hdr r) = None" and "layers r = [zipping k level [] False]"
  shows "\<exists>r'. write_out b r = Done None r' \<and> begun k level (hdr r) b (out r) r'"
proof -
  have w: "server_write (gzip_header level) r = (None, (send_ok r)\<lparr>tried := tried r + 10, out := out r @ gzip_header level\<rparr>)"
    using server_write_open [of "send_ok r" "hdr r"] assms(1,2)
    by (simp add: server_write_def send_ok_def bodyAllowedForStatus_def over_length_def Let_def gzip_header_def)
  then show ?thesis
    using assms by (simp add: write_out_def write_body_def zipping_def begun_def send_ok_def)
qed

lemma later_write:
  "begun k level h data o0 r \<Longrightarrow> \<exists>r'. write_out b r = Done None r' \<and> begun k level h (data @ b) o0 r'"
  by (simp add: write_out_def write_body_def zipping_def begun_def)

lemma write_all_begun:
  assumes "begun k level h data o0 (writer (shared c))"
  shows "\<exists>c'. (\<forall>nxt rest. exec env g nxt (write_all bs rest) c = exec env g nxt rest c') \<and>
    begun k level h (data @ concat bs) o0 (writer (shared c')) \<and>
    index c' = index c \<and> abortIndex c' = abortIndex c \<and> status (shared c') = status (shared c) \<and>
    written (shared c') = written (shared c)"
  using assms
proof (induction bs arbitrary: c data)
  case (Cons b bs)
  from later_write [OF Cons.prems, of b] obtain r' where r': "write_out b (writer (shared c)) = Done None r'"
    "begun k level h (data @ b) o0 r'" by blast
  from Cons.IH [of "data @ b" "c\<lparr>shared := (shared c)\<lparr>writer := r'\<rparr>\<rparr>"] r' show ?case by simp
qed auto

text \<open>The writer after a successful \<open>Close\<close>: it refuses what is written later.\<close>

lemma close_begun:
  assumes "begun k level h data o0 r"
  shows "\<exists>r'. gzip_close 0 (r\<lparr>hdr := h'\<rparr>) = (None, r') \<and> sent r' = Some (200, h) \<and>
    out r' = o0 @ gzip_header level @ Deflate k data @ gzip_trailer k data \<and>
    (\<exists>z. layers r' = [z] \<and> gz_closed z \<and> gz_wroteHeader z \<and> gz_err z = None)"
  using assms server_write_open
  by (simp add: begun_def gzip_close_def close_layer_def close_pieces_def zipping_def)

lemma closed_refuses:
  assumes "layers r = [z]" and "gz_closed z" and "gz_wroteHeader z" and "gz_err z = None"
  shows "\<exists>r'. write_body b r = (Some closed_error, r') \<and> out r' = out r \<and> sent r' = sent r"
  using assms by (simp add: write_body_def)

section \<open>A compressed response\<close>

definition zip_group :: "(int \<Rightarrow> codec) \<Rightarrow> int \<Rightarrow> 'b \<Rightarrow> 'v handler \<Rightarrow> ('v, 'b) group" where
  "zip_group codecs level b h =
     [Some \<lparr>HandleFunc = GZip codecs level, BluePrint = b\<rparr>, Some \<lparr>HandleFunc = h, BluePrint = b\<rparr>]"

definition accepts_zip :: "'v ctx \<Rightarrow> bool" where
  "accepts_zip c \<longleftrightarrow> str_contains (header_get (ctx_request (shared c)) ''Accept-Encoding'') ''zip''"

text \<open>The context in which the handler behind the middleware starts.\<close>

definition zip_headers :: "header \<Rightarrow> header" where
  "zip_headers h = h(''Content-Encoding'' \<mapsto> [''gzip''], ''Vary'' \<mapsto> [''Accept-Encoding''])"

definition zipped :: "codec \<Rightarrow> int \<Rightarrow> 'v ctx \<Rightarrow> 'v ctx" where
  "zipped k level c = c\<lparr>index := 2, shared := (shared c)\<lparr>writer := (writer (shared c))
     \<lparr>hdr := zip_headers (hdr (writer (shared c))), layers := [zipping k level [] False]\<rparr>\<rparr>\<rparr>"

lemma word8_small: "(1 :: 8 word) \<le> 2" "(2 :: 8 word) \<le> 2" "\<not> (3 :: 8 word) \<le> 2" "\<not> (4 :: 8 word) \<le> 2"
  by (simp_all add: word_le_nat_alt)

lemma zip_group_nodes:
  "node_at (zip_group codecs level b h) 0 = Inr \<lparr>HandleFunc = GZip codecs level, BluePrint = b\<rparr>"
  "node_at (zip_group codecs level b h) 1 = Inr \<lparr>HandleFunc = h, BluePrint = b\<rparr>"
  "node_at (zip_group codecs level b h) 2 = Inl IndexOutOfRange"
  by (simp_all add: zip_group_def node_at_def index_at_def)

lemma exec_GZip:
  assumes "layers (writer (shared c)) = []" and "accepts_zip c" and "- 2 \<le> level" and "level \<le> 9"
    and "index c = 1"
  shows "exec env g nxt (GZip codecs level) c =
    (case nxt ((zipped (codecs level) level c)\<lparr>index := 1\<rparr>) of
       Done _ c1 \<Rightarrow> exec env g nxt (gzip_deferred 0 Return) c1
     | Panicked p c1 \<Rightarrow> exec env g nxt (gzip_deferred 0 (Panic p)) c1
     | OutOfFuel \<Rightarrow> OutOfFuel)"
proof -
  obtain s i a where c: "c = \<lparr>shared = s, index = i, abortIndex = a\<rparr>" by (cases c)
  have "str_contains (header_get (ctx_request s) ''Accept-Encoding'') ''zip''"
    using assms(2) by (simp add: accepts_zip_def c)
  then show ?thesis
    using assms(1,3-5)
    by (simp add: c GZip_def header_set_def canonical_gzip zipped_def zipping_def new_gzip_def zip_headers_def Let_def)
qed

lemma next_loop_step:
  assumes "node_at g (index c - 1) = Inr n" and "index c \<le> of_nat (length g)" and "\<not> IsAborted c"
  shows "next_loop env (Suc k) g c =
    (case exec env g (\<lambda>c. next_loop env k g (c\<lparr>index := index c + 1\<rparr>)) (HandleFunc n) c of
       Done _ c1 \<Rightarrow> next_loop env k g (c1\<lparr>index := index c1 + 1\<rparr>)
     | Panicked p c1 \<Rightarrow> Panicked p c1
     | OutOfFuel \<Rightarrow> OutOfFuel)"
  using assms by simp

lemma next_loop_stop: "\<not> index c \<le> of_nat (length g) \<Longrightarrow> next_loop env (Suc k) g c = Done () c"
  by simp

lemma GZip_runs:
  fixes h :: "'v handler" and c :: "'v ctx"
  assumes g: "g = zip_group codecs level b h"
    and c: "index c = 0" "abortIndex c = 0" "layers (writer (shared c)) = []"
    and acc: "accepts_zip c" "- 2 \<le> level" "level \<le> 9"
    and h: "\<And>nxt. exec env g nxt h (zipped (codecs level) level c) = Done () c2" "index c2 = 2"
    and d: "\<And>nxt. exec env g nxt (gzip_deferred 0 Return) (c2\<lparr>index := 3\<rparr>) = r"
  shows "NextFn env (Suc (Suc (Suc k))) g c =
    (case r of Done _ c3 \<Rightarrow> next_loop env (Suc (Suc k)) g (c3\<lparr>index := index c3 + 1\<rparr>)
     | Panicked p c3 \<Rightarrow> Panicked p c3 | OutOfFuel \<Rightarrow> OutOfFuel)"
proof -
  have len: "of_nat (length g) = (2 :: 8 word)" by (simp add: g zip_group_def)
  let ?z = "zipped (codecs level) level c"
  have "index ?z = 2" "\<not> IsAborted ?z" using c(2) by (simp_all add: zipped_def IsAborted_def)
  then have inner: "next_loop env (Suc (Suc k)) g ?z = Done () (c2\<lparr>index := 3\<rparr>)"
    using next_loop_step [of g ?z "\<lparr>HandleFunc = h, BluePrint = b\<rparr>" env "Suc k"] h word8_small
      next_loop_stop [of "c2\<lparr>index := 3\<rparr>" g env k] zip_group_nodes(2) [of codecs level b h] len
    by (simp add: g [symmetric] del: next_loop.simps)
  let ?c1 = "c\<lparr>index := 1\<rparr>"
  have z1: "(zipped (codecs level) level ?c1)\<lparr>index := 1\<rparr>\<lparr>index := 2\<rparr> = ?z"
    by (simp add: zipped_def)
  have "exec env g (\<lambda>c. next_loop env (Suc (Suc k)) g (c\<lparr>index := index c + 1\<rparr>)) (GZip codecs level) ?c1 = r"
    using exec_GZip [of ?c1 level env g "\<lambda>c. next_loop env (Suc (Suc k)) g (c\<lparr>index := index c + 1\<rparr>)" codecs]
      c acc inner d z1 by (simp add: accepts_zip_def del: next_loop.simps)
  then show ?thesis
    using next_loop_step [of g ?c1 "\<lparr>HandleFunc = GZip codecs level, BluePrint = b\<rparr>" env "Suc (Suc k)"]
      c(1,2) word8_small(1) zip_group_nodes(1) [of codecs level b h] len
    by (simp add: NextFn_def g [symmetric] IsAborted_def del: next_loop.simps)
qed

text \<open>A request that the middleware compresses, on a response that has not started.\<close>

definition zip_ready :: "int \<Rightarrow> 'v ctx \<Rightarrow> bool" where
  "zip_ready level c \<longleftrightarrow> index c = 0 \<and> abortIndex c = 0 \<and> accepts_zip c \<and> - 2 \<le> level \<and> level \<le> 9 \<and>
     sent (writer (shared c)) = None \<and> layers (writer (shared c)) = [] \<and> out (writer (shared c)) = [] \<and>
     declared_length (hdr (writer (shared c))) = None \<and> status (shared c) = 0"

lemma zipped_writer:
  "hdr (writer (shared (zipped k level c))) = zip_headers (hdr (writer (shared c)))"
  "layers (writer (shared (zipped k level c))) = [zipping k level [] False]"
  "sent (writer (shared (zipped k level c))) = sent (writer (shared c))"
  "out (writer (shared (zipped k level c))) = out (writer (shared c))"
  "index (zipped k level c) = 2" "status (shared (zipped k level c)) = status (shared c)"
  by (simp_all add: zipped_def)

lemma declared_zip_headers: "declared_length (zip_headers h) = declared_length h"
  by (simp add: zip_headers_def)

text \<open>A request and a codec that stores its text, to apply the properties to.\<close>

definition gzip_ctx :: "nat ctx" where
  "gzip_ctx = idle_ctx\<lparr>shared := (shared idle_ctx)\<lparr>ctx_request :=
     get_request\<lparr>rq_header := [''Accept-Encoding'' \<mapsto> [''gzip, br'']]\<rparr>\<rparr>\<rparr>"

definition stored :: codec where
  "stored = \<lparr>Deflate = (\<lambda>t. t), Checksum = (\<lambda>_. ''crc0'')\<rparr>"

definition gzip_env :: "(nat, nat) env" where
  "gzip_env = \<lparr>json = (\<lambda>_. None), xml = (\<lambda>_. None), sprintf = (\<lambda>f _. f), has_logger = (\<lambda>_. True)\<rparr>"

lemma zip_ready_gzip_ctx: "zip_ready 6 gzip_ctx"
proof -
  have "str_contains (header_get (ctx_request (shared gzip_ctx)) ''Accept-Encoding'') ''zip''"
    by code_simp
  then show ?thesis
    by (simp add: zip_ready_def accepts_zip_def gzip_ctx_def idle_ctx_def new_response_def)
qed

text \<open>C24: on a fresh context and response, a request that accepts gzip and whose group is the middleware, with a
  level from -2 to 9, and a handler that writes a body, in any number of pieces, is answered with 200, the two headers of the middleware and a gzip file that a client unpacks to that body;
  the writer that the context is left with refuses everything that is written later.\<close>

theorem gzip_roundtrip:
  assumes "zip_ready level c" and "bs \<noteq> []"
    and "inflate (Deflate (codecs level) (concat bs)) = concat bs"
    and "length (Checksum (codecs level) (concat bs)) = 4"
  shows "\<exists>c'. start env (Suc (Suc (Suc k))) (zip_group codecs level b (write_all bs Return)) c = Done () c' \<and>
    sent (writer (shared c')) = Some (200, zip_headers (hdr (writer (shared c)))) \<and>
    gunzip (codecs level) inflate (out (writer (shared c'))) = Some (concat bs) \<and>
    (\<forall>d. \<exists>r'. write_body d (writer (shared c')) = (Some closed_error, r') \<and> out r' = out (writer (shared c')))"
proof -
  let ?k = "codecs level" and ?h = "zip_headers (hdr (writer (shared c)))"
  let ?g = "zip_group codecs level b (write_all bs Return)" and ?z = "zipped (codecs level) level c"
  obtain b0 bs' where bs: "bs = b0 # bs'" using assms(2) by (cases bs) auto
  have r: "index c = 0" "abortIndex c = 0" "layers (writer (shared c)) = []" "accepts_zip c" "- 2 \<le> level" "level \<le> 9"
    "out (writer (shared c)) = []" "status (shared c) = 0"
    using assms(1) by (simp_all add: zip_ready_def)
  obtain r1 where r1: "write_out b0 (writer (shared ?z)) = Done None r1" "begun ?k level ?h b0 [] r1"
    using first_write [of "writer (shared ?z)" ?k level b0] assms(1)
    by (auto simp: zipped_writer zip_ready_def declared_zip_headers)
  let ?c1 = "?z\<lparr>shared := (shared ?z)\<lparr>writer := r1\<rparr>\<rparr>"
  have "\<exists>c2. (\<forall>nxt. exec env ?g nxt (write_all bs' Return) ?c1 = Done () c2) \<and>
    begun ?k level ?h (b0 @ concat bs') [] (writer (shared c2)) \<and> index c2 = 2 \<and> status (shared c2) = 0"
    using write_all_begun [of ?k level ?h b0 "[]" ?c1 env ?g bs'] r1(2) r(8)
    by (auto simp: zipped_writer)
  then obtain c2 where c2: "\<And>nxt. exec env ?g nxt (write_all bs' Return) ?c1 = Done () c2"
    "begun ?k level ?h (concat bs) [] (writer (shared c2))" "index c2 = 2" "status (shared c2) = 0"
    by (auto simp: bs)
  have h: "exec env ?g nxt (write_all bs Return) ?z = Done () c2" for nxt
    using c2(1) r1(1) by (simp add: bs)
  obtain r3 where r3: "gzip_close 0 ((writer (shared c2))\<lparr>hdr := ?h(''Content-Length'' \<mapsto> [''0''])\<rparr>) = (None, r3)"
    "sent r3 = Some (200, ?h)" "out r3 = gzip_header level @ Deflate ?k (concat bs) @ gzip_trailer ?k (concat bs)"
    "\<exists>z. layers r3 = [z] \<and> gz_closed z \<and> gz_wroteHeader z \<and> gz_err z = None"
    using close_begun [OF c2(2)] by force
  let ?c3 = "c2\<lparr>index := 3, shared := (shared c2)\<lparr>writer := r3\<rparr>\<rparr>"
  have "hdr (writer (shared c2)) = ?h" using c2(2) by (simp add: begun_def)
  then have d: "exec env ?g nxt (gzip_deferred 0 Return) (c2\<lparr>index := 3\<rparr>) = Done () ?c3" for nxt
    using r3(1) by (simp add: gzip_deferred_def header_set_def canonical_gzip)
  have "NextFn env (Suc (Suc (Suc k))) ?g c = Done () (?c3\<lparr>index := 4\<rparr>)"
    using GZip_runs [OF refl r(1-6) h c2(3) d, of k] word8_small(4)
    by (simp add: zip_group_def)
  then have s: "start env (Suc (Suc (Suc k))) ?g c = Done () (?c3\<lparr>index := 4\<rparr>)"
    using c2(4) by (simp add: start_def finish_ctx_def finish_def)
  have "\<exists>r'. write_body d r3 = (Some closed_error, r') \<and> out r' = out r3" for d
    using closed_refuses r3(4) by blast
  then show ?thesis
    using s r3(2,3) gunzip_gzip [of inflate ?k "concat bs" level] assms(3,4) by simp
qed

theorem gzip_roundtrip_witness:
  "\<exists>c'. start gzip_env 3 (zip_group (\<lambda>_. stored) 6 0 (write_all [''ab'', ''c''] Return)) gzip_ctx = Done () c' \<and>
    gunzip stored (\<lambda>t. t) (out (writer (shared c'))) = Some ''abc''"
  using gzip_roundtrip [OF zip_ready_gzip_ctx, of "[''ab'', ''c'']" "\<lambda>t. t" "\<lambda>_. stored" gzip_env 0 0]
  by (auto simp: stored_def eval_nat_numeral)

section \<open>A response without a body\<close>

text \<open>Nothing was written, and \<open>Content-Length: 0\<close> goes out with the header that \<open>Close\<close> forces.\<close>

lemma declared_zero: "declared_length (h(''Content-Length'' \<mapsto> [''0''])) = Some 0"
  by (simp add: declared_length_def ParseInt_def ParseUint_def digit_def bits_of_def)

lemma close_empty:
  assumes "sent r = None" and "layers r = [zipping k level [] False]" and "declared_length (hdr r) = Some 0"
  shows "\<exists>r'. gzip_close 0 r = (Some length_error, r') \<and> sent r' = Some (200, hdr r) \<and> out r' = out r"
  using assms
  by (simp add: gzip_close_def close_layer_def close_pieces_def zipping_def server_write_def send_ok_def
      bodyAllowedForStatus_def over_length_def Let_def gzip_header_def)

text \<open>C38: on a fresh context and response, a request that accepts gzip and whose group is the middleware and a
  handler that only sets a status, or does nothing at all, crashes: the client gets 200 with an empty body whatever the status was, the closing of the compressor fails
  because of the declared length 0, and looking up the logger for that error panics, since the index
  is past the group.\<close>

theorem gzip_without_body_panics:
  assumes "zip_ready level c" and "100 \<le> sint code" and "sint code \<le> 999" and "h = Return \<or> h = Call (SetStatus code) (\<lambda>_. Return)"
  shows "\<exists>c'. start env (Suc (Suc (Suc k))) (zip_group codecs level b h) c = Panicked IndexOutOfRange c' \<and>
    sent (writer (shared c')) =
      Some (200, (zip_headers (hdr (writer (shared c))))(''Content-Length'' \<mapsto> [''0''])) \<and>
    out (writer (shared c')) = []"
proof -
  let ?k = "codecs level" and ?z = "zipped (codecs level) level c"
  let ?g = "zip_group codecs level b h" and ?h = "(zip_headers (hdr (writer (shared c))))(''Content-Length'' \<mapsto> [''0''])"
  have r: "index c = 0" "abortIndex c = 0" "layers (writer (shared c)) = []" "accepts_zip c" "- 2 \<le> level" "level \<le> 9"
    "sent (writer (shared c)) = None" "out (writer (shared c)) = []" "status (shared c) = 0"
    using assms(1) by (simp_all add: zip_ready_def)
  obtain s where s: "\<And>nxt. exec env ?g nxt h ?z = Done () (?z\<lparr>shared := (shared ?z)\<lparr>status := s\<rparr>\<rparr>)"
    "s = 0 \<or> s = code"
  proof (cases "h = Return")
    case True
    then show thesis using that [of "status (shared ?z)"] r(9) by (simp add: zipped_writer)
  next
    case False
    then show thesis using that [of code] assms(4) by simp
  qed
  let ?c2 = "?z\<lparr>shared := (shared ?z)\<lparr>status := s\<rparr>\<rparr>" and ?w = "(writer (shared ?z))\<lparr>hdr := ?h\<rparr>"
  obtain r3 where r3: "gzip_close 0 ?w = (Some length_error, r3)" "sent r3 = Some (200, ?h)" "out r3 = []"
    using close_empty [of ?w ?k level] r(7,8) by (auto simp: zipped_writer declared_zero)
  let ?c3 = "?c2\<lparr>index := 3, shared := (shared ?c2)\<lparr>writer := r3\<rparr>\<rparr>"
  have bp: "current_blueprint ?g ?c3 = Inl IndexOutOfRange"
    using zip_group_nodes(3) [of codecs level b h] by (simp add: current_blueprint_def)
  have d: "exec env ?g nxt (gzip_deferred 0 Return) (?c2\<lparr>index := 3\<rparr>) = Panicked IndexOutOfRange ?c3" for nxt
    using r3(1) bp by (simp add: gzip_deferred_def header_set_def canonical_gzip zipped_writer with_blueprint_def)
  have n: "NextFn env (Suc (Suc (Suc k))) ?g c = Panicked IndexOutOfRange ?c3"
    using GZip_runs [OF refl r(1-6) s(1) _ d, of k] by (simp add: zipped_writer)
  have "\<exists>c4. finish_ctx ?c3 = Inr c4 \<and> writer (shared c4) = r3"
    using sent_writeHeader [OF r3(2)] by (auto simp: finish_ctx_def finish_def)
  then obtain c4 where "start env (Suc (Suc (Suc k))) ?g c = Panicked IndexOutOfRange c4" "writer (shared c4) = r3"
    using n by (auto simp: start_def)
  with r3 show ?thesis by auto
qed

theorem gzip_without_body_panics_witness:
  "\<exists>c'. start gzip_env 3 (zip_group (\<lambda>_. stored) 6 0 (Call (SetStatus 404) (\<lambda>_. Return))) gzip_ctx =
     Panicked IndexOutOfRange c' \<and> map_option fst (sent (writer (shared c'))) = Some 200"
proof -
  have "sint (404 :: 64 word) = 404" by simp
  then show ?thesis
    using gzip_without_body_panics [OF zip_ready_gzip_ctx, of 404 "Call (SetStatus 404) (\<lambda>_. Return)" gzip_env 0
        "\<lambda>_. stored" 0]
    by (auto simp: eval_nat_numeral)
qed

end
