(* ===== verification/StaticServing.thy ===== *)
theory StaticServing
  imports Startup Paths Values
begin

text \<open>
  The handler that \<open>BluePrint.Static\<close> (\<open>core/blue_print.go\<close>) registers, and what becomes of it from the
  registration over \<open>init\<close> to a request.  \<open>os.Stat\<close>, the table of media types and \<open>http.FileServer\<close>
  are parameters.
\<close>

section \<open>Calling a handler from a handler\<close>



section \<open>The handler\<close>



section \<open>From the registration to the tree\<close>

definition blank_engine :: "('s, 'v) engine \<Rightarrow> bool" where
  "blank_engine e \<longleftrightarrow> own e < length (blueprints (world e)) \<and>
     middleware (bp (world e) (own e)) = nil_slice \<and> bp_prefix (bp (world e) (own e)) = [] \<and>
     (\<forall>m. nodes_of (world e) (own e) m = []) \<and> RouterOf e = Map.empty \<and> interceptors e = [] \<and>
     NotFoundHandle e = HandleNotFound"

lemma New_blank: "New store val pars log js xs = Inr e \<Longrightarrow> blank_engine e"
  by (auto simp: New_def DefaultBluePrint_bp blank_engine_def bp_def upd_bp_def NewBluePrint_def nodes_of_def)

text \<open>\<open>Handle\<close> leaves the blueprint's middleware slice alone.\<close>

lemma Handle_middleware:
  "b < length (blueprints w) \<Longrightarrow> middleware (bp (Handle grow b meth p hs w) b) = middleware (bp w b)"
  by (simp add: Handle_def split: prod.split)

lemma init_one_route:
  fixes e :: "('s, 'v) engine"
  assumes "blank_engine e" and "grows grow" and w: "w = Handle grow (own e) ''GET'' p [h] (world e)"
  shows "\<exists>m. init grow [''GET''] starters (e\<lparr>world := w\<rparr>) =
    rbind (Insert ''GET'' p (Some [Some \<lparr>HandleFunc = h, BluePrint = own e\<rparr>]) Map.empty) (\<lambda>r.
      let e1 = e\<lparr>world := w\<lparr>arrays := m\<rparr>, RouterOf := r\<rparr> in Inr (run_starters starters e1, e1))"
proof -
  have e: "own e < length (blueprints (world e))" "middleware (bp (world e) (own e)) = nil_slice"
    "bp_prefix (bp (world e) (own e)) = []" "nodes_of (world e) (own e) m' = []" "RouterOf e = Map.empty" for m'
    using assms(1) by (simp_all add: blank_engine_def)
  obtain node where n: "node_path node = p" "blueprint node = own e" "chain_of w node = [Some h]"
    "nodes_of w (own e) ''GET'' = [node]"
    using Handle_node [OF e(1) _ assms(2), of p "''GET''" "[h]"] sample_method
    unfolding w e(2,3) by (auto simp: e(4))
  obtain s m where sm: "slice_append grow nil_slice [Some h] (arrays w) = (s, m)" by fastforce
  have "contents m s = [Some h]" using slice_append_contents(1) [OF nil_slice_ok(1) sm assms(2)] by simp
  moreover have "middleware (bp w (own e)) = nil_slice" unfolding w Handle_middleware [OF e(1)] by (rule e(2))
  ultimately have "init_node grow ''GET'' node (e\<lparr>world := w\<rparr>) =
      rbind (Insert ''GET'' p (Some [Some \<lparr>HandleFunc = h, BluePrint = own e\<rparr>]) Map.empty) (\<lambda>r.
        Inr (e\<lparr>world := w\<lparr>arrays := m\<rparr>, RouterOf := r\<rparr>))"
    using n(1-3) sm e(5) by (simp add: init_node_def chain_of_def to_node_def)
  then show ?thesis
    using n(4) by (intro exI [of _ m]) (simp add: init_def Let_def rbind_assoc)
qed

section \<open>Serving files\<close>




lemma static_route:
  "CHR ''*'' \<notin> set url \<Longrightarrow> StaticFiles grow b url h [] w = Inr (Handle grow b ''GET'' (url @ ''*static'') [h] w)"
  by (auto simp: StaticFiles_def static_path_def suffix_def)











section \<open>A URL without a slash at its end\<close>

lemma no_slash_panics:
  assumes "no_wildcards url" and "url \<noteq> []" and "last url \<noteq> CHR ''/''"
  shows "addRoute (url @ ''*static'') (Some h) zero_node = Inl (msg_no_slash (url @ ''*static''))"
proof -
  let ?p = "url @ ''*static''" and ?i = "length url"
  let ?n = "RouterNode (zero_fields\<lparr>fullPath := ?p, priority := 1\<rparr>) []"
  have nw: "no_wildcards ''static''" "CHR ''/'' \<notin> set ''static''" by (simp_all add: no_wildcards_def is_wild_def)
  have e: "wildcard_end (drop (Suc ?i) ?p) (Suc ?i) = Some (length ?p)"
    using wildcard_end_full [OF nw, of "Suc ?i"] by simp
  have prev: "?p ! (?i - 1) \<noteq> CHR ''/''"
    using assms(2,3) by (simp add: nth_append last_conv_nth)
  have "insert_loop 1 ?p ?p (Some h) 0 0 ?n = insert_loop 1 ?p ?p (Some h) 0 ?i ?n"
    by (rule insert_loop_scan) (use assms in simp_all)
  also have "\<dots> = insert_catchAll 1 ?p ?p (Some h) 0 ?i (length ?p) (info ?n)"
    using insert_loop_star [OF _ _ _ e, of 1 ?n ?p "Some h" 0] by simp
  also have "\<dots> = Inl (msg_no_slash ?p)"
    using assms(2) prev by (simp add: insert_catchAll_def zero_fields_def)
  finally show ?thesis
    using wildcardNum_one [of url "''static''" "CHR ''*''"] assms(1) nw
    by (simp add: addRoute_def insertChild_def zero_node_def zero_fields_def is_wild_def)
qed

text \<open>A directory registered under a URL that does not end in a slash stops the program: \<open>Static\<close> itself
  returns, because the test that should add the slash can never hold, and \<open>init\<close> panics.\<close>

theorem Static_needs_slash:
  assumes "New store val pars log js xs = Inr e" and "grows grow" and "no_wildcards url"
    and "\<not> suffix ''/'' url"
  shows "\<exists>w. StaticFiles grow (own e) url h [] (world e) = Inr w \<and>
    panics (init grow [''GET''] starters (e\<lparr>world := w\<rparr>))"
proof -
  have "CHR ''*'' \<notin> set url" using assms(3) by (auto simp: no_wildcards_def is_wild_def)
  note w = static_route [OF this, of grow "own e" h "world e"]
  have "panics (Insert ''GET'' (url @ ''*static'') (Some hs) Map.empty)" for hs :: "('b, nat) group"
  proof (cases "url = []")
    case False
    then have "last url \<noteq> CHR ''/''" using assms(4) by (metis append_butlast_last_id suffix_def)
    with no_slash_panics [OF assms(3) False, of hs] show ?thesis by (simp add: Insert_def)
  qed (simp add: Insert_def)
  then obtain q where q: "Insert ''GET'' (url @ ''*static'') (Some [Some \<lparr>HandleFunc = h, BluePrint = own e\<rparr>])
      (Map.empty :: ('b, nat) httpRouter) = Inl q"
    by (fastforce simp: panics_def split: sum.splits)
  from init_one_route [OF New_blank [OF assms(1)] assms(2) refl, where p = "url @ ''*static''" and h = h
      and starters = starters]
  have "panics (init grow [''GET''] starters
      (e\<lparr>world := Handle grow (own e) ''GET'' (url @ ''*static'') [h] (world e)\<rparr>))"
    unfolding q by auto
  with w show ?thesis by blast
qed

theorem Static_needs_slash_witness:
  "\<exists>e w. New () () () () () () = Inr (e :: (unit, nat) engine) \<and>
    panics (init (\<lambda>c n. n) [''GET''] [] (e\<lparr>world := w\<rparr>)) \<and>
    StaticFiles (\<lambda>c n. n) (own e) ''/static'' HandleNotFound [] (world e) = Inr w"
proof -
  obtain e :: "(unit, nat) engine" where e: "New () () () () () () = Inr e"
    by (auto simp: New_def DefaultBluePrint_bp)
  show ?thesis
    using Static_needs_slash [OF e, of "\<lambda>c n. n" "''/static''" HandleNotFound "[]"] e
    by (auto simp: grows_def no_wildcards_def is_wild_def suffix_def)
qed

end
