(* ===== verification/Terminal.thy ===== *)
theory Terminal
  imports Startup FileStore
begin

text \<open>
  What the program prints: the logger of \<open>core/logger.go\<close> and the starters of \<open>core/starter.go\<close>.  The
  date, time and file that \<open>log.Logger\<close> puts between the prefix and the message are a parameter, as is
  \<open>fmt.Sprintln\<close>.
\<close>

section \<open>The logger\<close>

text \<open>\<open>%-14s\<close>: spaces on the right up to the width.\<close>

definition pad_right :: "nat \<Rightarrow> string \<Rightarrow> string" where
  "pad_right n s = s @ replicate (n - length s) (CHR '' '')"

text \<open>The printed form of the argument that \<open>fmt\<close> reports as extra, for a string.\<close>

definition extra_string :: "string \<Rightarrow> string" where
  "extra_string s = ''string='' @ s"

record sampleLogger =
  log_prefix :: string

definition newLogger :: "string \<Rightarrow> sampleLogger" where
  "newLogger p = \<lparr>log_prefix = ''['' @ pad_right 14 p @ '']  ''\<rparr>"

definition newStdLogger :: "string \<Rightarrow> sampleLogger" where
  "newStdLogger p = newLogger p"

datatype level = LTrace | LDebug | LInfo | LWarn | LError

definition levels :: "level list" where
  "levels = [LTrace, LDebug, LInfo, LWarn, LError]"

text \<open>The five loggers of \<open>NewLogger\<close>, by level.\<close>

type_synonym logger_struct = "level \<Rightarrow> sampleLogger"

fun level_name :: "level \<Rightarrow> string" where
  "level_name LTrace = ''TRACE''"
| "level_name LDebug = ''DEBUG''"
| "level_name LInfo = ''INFO''"
| "level_name LWarn = ''WARN''"
| "level_name LError = ''ERROR''"

fun level_colour :: "level \<Rightarrow> int" where
  "level_colour LTrace = 97"
| "level_colour LDebug = 91"
| "level_colour LInfo = 92"
| "level_colour LWarn = 93"
| "level_colour LError = 91"

definition NewLogger :: logger_struct where
  "NewLogger = (\<lambda>l. newStdLogger (FormatColor extra_string (level_colour l) (level_name l)))"

text \<open>\<open>Println\<close> of the sample logger: the prefix, the stamp and the message, on a line of its own.\<close>

definition Println :: "string \<Rightarrow> ('a list \<Rightarrow> string) \<Rightarrow> sampleLogger \<Rightarrow> 'a list \<Rightarrow> string" where
  "Println stamp sprintln s a =
     (let msg = sprintln a
      in log_prefix s @ stamp @ msg @ (if suffix [CHR 0x0A] msg then [] else [CHR 0x0A]))"

definition log_at :: "logger_struct \<Rightarrow> level \<Rightarrow> string \<Rightarrow> ('a list \<Rightarrow> string) \<Rightarrow> 'a list \<Rightarrow> string" where
  "log_at l lev stamp sprintln v = Println stamp sprintln (l lev) v"

text \<open>Reading the level off a line.\<close>

definition level_of_line :: "string \<Rightarrow> level option" where
  "level_of_line line = List.find (\<lambda>l. prefix (log_prefix (NewLogger l)) line) levels"

text \<open>No prefix of a level begins the prefix of another.\<close>

lemma log_prefixes_apart:
  "prefix (log_prefix (NewLogger a)) (log_prefix (NewLogger b) @ s) \<longleftrightarrow> a = b"
proof -
  have p: "log_prefix (NewLogger a) = ''['' @ [CHR 0x1B] @ ''['' @ decimal (level_colour a) @
      ''m&+v%!(EXTRA string='' @ level_name a @ '')'' @ [CHR 0x1B] @ ''[0m]  ''" for a
    by (cases a) (simp_all add: NewLogger_def newStdLogger_def newLogger_def FormatColor_def extra_string_def
        pad_right_def)
  have d: "decimal 97 = ''97''" "decimal 91 = ''91''" "decimal 92 = ''92''" "decimal 93 = ''93''" by code_simp+
  show ?thesis unfolding p by (cases a; cases b) (simp_all add: d)
qed

lemma level_of_log: "level_of_line (log_at NewLogger l stamp sprintln v) = Some l"
proof -
  have "prefix (log_prefix (NewLogger a)) (log_at NewLogger l stamp sprintln v) \<longleftrightarrow> a = l" for a
    by (simp add: log_at_def Println_def log_prefixes_apart Let_def)
  then show ?thesis by (cases l) (simp_all add: level_of_line_def levels_def)
qed

section \<open>The starters\<close>

text \<open>\<open>BannerStarter\<close>: what it prints, and the error it returns.\<close>

definition BannerStart :: "string \<Rightarrow> string \<times> string option" where
  "BannerStart banner = (banner @ [CHR 0x0A], None)"

definition log_prefix_text :: string where
  "log_prefix_text = ''[WY]''"

text \<open>
  The format \<open>%-15s %-18s %s\n\<close> has three verbs for four arguments: the second column is the method, the
  third the count, and the path comes after the line's end as an extra argument.
\<close>

definition url_line :: "string \<Rightarrow> nat \<Rightarrow> string \<Rightarrow> string" where
  "url_line meth handlers pth =
     (let m = FormatColor extra_string 97 meth;
          cnt = BlueString extra_string (decimal (int handlers) @ '' handlers'');
          p = YellowString extra_string pth
      in pad_right 15 log_prefix_text @ '' '' @ pad_right 18 m @ '' '' @ cnt @ [CHR 0x0A] @
         ''%!(EXTRA string='' @ p @ '')'')"

definition UrlInfoStart :: "string list \<Rightarrow> ('s, 'v) engine \<Rightarrow> string \<times> string option" where
  "UrlInfoStart order e =
     (concat (map (\<lambda>m. concat (map (\<lambda>n. url_line m (len (handles n)) (node_path n))
        (nodes_of (world e) (own e) m))) order), None)"

text \<open>The starters of \<open>Default\<close> as \<open>init\<close> sees them: neither fails.\<close>

definition banner_starter :: "string \<Rightarrow> ('s, 'v) starter" where
  "banner_starter banner = (\<lambda>e. snd (BannerStart banner))"

definition url_starter :: "string list \<Rightarrow> ('s, 'v) starter" where
  "url_starter order = (\<lambda>e. snd (UrlInfoStart order e))"

text \<open>An engine made by \<open>Default\<close> comes up: as long as \<open>init\<close> does not panic, \<open>Run\<close> reaches the server, since
  no starter returns an error, and returns what the server returns; a line of the logger that the
  engine has can be told apart by level.\<close>

theorem Default_listens:
  assumes "Default (banner_starter banner) (url_starter urls) store val pars log js xs = Inr (e0, starters)"
    and "init_methods grow order e = Inr e1"
  shows "Run listen grow order starters addr e = Inr (listen addr, e1) \<and>
    level_of_line (log_at NewLogger l stamp sprintln v) = Some l"
proof -
  have "starters = [banner_starter banner, url_starter urls]"
    using assms(1) by (auto simp: Default_def AddStarter_def rbind_eq_Inr)
  then have "run_starters starters e1 = None"
    by (simp add: banner_starter_def url_starter_def BannerStart_def UrlInfoStart_def)
  then show ?thesis
    using assms(2) level_of_log by (simp add: Run_def ListenAndServe_def init_def)
qed

theorem Default_listens_witness:
  "\<exists>e0 starters. Default (banner_starter ''Logo'') (url_starter []) () () () () () () = Inr (e0 :: (unit, nat) engine, starters) \<and>
     Run (\<lambda>_. Some ''closed'') (\<lambda>c n. n) [] starters '':80'' e0 = Inr (Some ''closed'', e0)"
proof -
  obtain e0 :: "(unit, nat) engine" and starters where
    d: "Default (banner_starter ''Logo'') (url_starter []) () () () () () () = Inr (e0, starters)"
    by (auto simp: Default_def New_def DefaultBluePrint_bp)
  have "init_methods (\<lambda>c n. n) [] e0 = Inr e0" by simp
  from Default_listens [OF d this, of "\<lambda>_. Some ''closed''" "'':80''" LInfo "[]" "\<lambda>_. []" "[] :: nat list"] d
  show ?thesis by blast
qed

end
