(* ===== verification/Uploads.thy ===== *)
theory Uploads
  imports Startup FileStore
begin

text \<open>
  \<open>SaveUploadFile\<close> and \<open>SaveUploadFileWith\<close> of \<open>core/context.go\<close>.  A storage is its \<open>Save\<close>, on a state of its
  own; \<open>None\<close> around a result is a call that does not end.  What \<open>FormFile\<close> returns (an error, or the
  upload with the error of closing it) is a parameter.
\<close>

type_synonym ('x, 't) storage = "'x \<Rightarrow> 't \<Rightarrow> ((string \<times> string option) \<times> 't) ending option"

definition nil_storage_error :: string where
  "nil_storage_error = ''`FileStorage` can be nil type''"

definition SaveUploadFileWith ::
  "('x, 't) storage option \<Rightarrow> (string \<Rightarrow> string + 'x \<times> string option) \<Rightarrow> string \<Rightarrow> 't \<Rightarrow>
   ((string \<times> string option) \<times> 't) ending option" where
  "SaveUploadFileWith fs formFile name t =
     (case fs of
        None \<Rightarrow> Some (Returned (([], Some nil_storage_error), t))
      | Some save \<Rightarrow>
          (case formFile name of
             Inl e \<Rightarrow> Some (Returned (([], Some e), t))
           | Inr (_, Some e) \<Rightarrow> Some (Returned (([], Some e), t))
           | Inr (header, None) \<Rightarrow> save header t))"

text \<open>The storage is the one that the current blueprint resolves to; \<open>saves\<close> gives its \<open>Save\<close>.\<close>

definition SaveUploadFile ::
  "('s \<Rightarrow> ('x, 't) storage) \<Rightarrow> ('s, 'h) world \<Rightarrow> nat res \<Rightarrow> (string \<Rightarrow> string + 'x \<times> string option) \<Rightarrow>
   string \<Rightarrow> 't \<Rightarrow> ((string \<times> string option) \<times> 't) ending option res" where
  "SaveUploadFile saves w b formFile name t =
     rbind b (\<lambda>b. Inr
       (case FileStorage w b of
          None \<Rightarrow> None
        | Some fs \<Rightarrow> SaveUploadFileWith (map_option saves fs) formFile name t))"

text \<open>An upload is its name and the error of opening it; the default storage is the local one.\<close>

definition local_storage :: "os \<Rightarrow> (nat \<Rightarrow> string) \<Rightarrow> (string \<times> string option, LocalFileStorage) storage" where
  "local_storage os rnd header l = Save os rnd (snd header) (fst header) l"

lemma Save_stores_nothing:
  assumes "\<not> writing (lock l)"
  shows "Save os rnd opened filename l \<noteq> Some (Returned ((dst, None), l1))"
  using getAlternativeName_ends [OF assms] by (auto simp: Save_def split: option.splits if_splits)

text \<open>On an engine with the default services \<open>SaveUploadFile\<close> never reports that an upload was stored.\<close>

theorem SaveUploadFile_never_stores:
  assumes "New store val pars log js xs = Inr (e :: ('s, 'v) engine)" and "\<not> writing (lock l)"
  shows "SaveUploadFile (\<lambda>_. local_storage os rnd) (world e) (Inr (own e)) formFile name l \<noteq>
    Inr (Some (Returned ((dst, None), l1)))"
proof -
  have "FileStorage (world e) (own e) = Some (Some store)"
    using New_services [where 's = 's and 'v = 'v, of store val pars log js xs] assms(1) by auto
  then show ?thesis
    using Save_stores_nothing [OF assms(2)]
    by (auto simp: SaveUploadFile_def SaveUploadFileWith_def local_storage_def split: sum.split option.split prod.split)
qed

end
