(* ===== verification/TreeFold.thy ===== *)
theory TreeFold
  imports TreeStatic Utf8
begin

text \<open>
  \<open>findCaseInsensitivePath\<close> of \<open>core/tree.go\<close>: the walk that compares the edges without regard to
  case and returns the path as it was registered.  A code point may be split over several edges, so
  the walk carries the bytes of it that are still to be matched.
\<close>

section \<open>The walk\<close>

type_synonym rune_bytes = string

definition no_runes :: rune_bytes where
  "no_runes = replicate 4 (CHR 0x00)"

definition shiftNRuneBytes :: "rune_bytes \<Rightarrow> nat \<Rightarrow> rune_bytes" where
  "shiftNRuneBytes rb n =
     (if n = 0 then rb
      else if n = 1 then [rb ! 1, rb ! 2, rb ! 3, CHR 0x00]
      else if n = 2 then [rb ! 2, rb ! 3, CHR 0x00, CHR 0x00]
      else if n = 3 then [rb ! 3, CHR 0x00, CHR 0x00, CHR 0x00]
      else no_runes)"

text \<open>\<open>utf8.EncodeRune(rb[:], r)\<close> overwrites as many bytes as the code point needs.\<close>

definition put_rune :: "rune_bytes \<Rightarrow> rune \<Rightarrow> rune_bytes" where
  "put_rune rb r = EncodeRune r @ drop (length (EncodeRune r)) rb"

text \<open>Lines 521 to 533: the code point that the bytes around the end of the edge belong to, and how
  many of its bytes the edge already has.\<close>

definition read_rune :: "nat \<Rightarrow> string \<Rightarrow> rune \<times> nat" where
  "read_rune npLen old =
     (case find (\<lambda>off. RuneStart (old ! (npLen - off))) [0..<min npLen 3] of
        Some off \<Rightarrow> (fst (DecodeRune (drop (npLen - off) old)), off)
      | None \<Rightarrow> (0, min npLen 3))"

text \<open>The loop's condition: the edge is compared but for its first byte.\<close>

definition same_edge :: "unicode \<Rightarrow> string \<Rightarrow> string \<Rightarrow> bool" where
  "same_edge u e pth \<longleftrightarrow>
     length e \<le> length pth \<and> (length e = 0 \<or> equalFold u (drop 1 (take (length e) pth)) (drop 1 e))"

text \<open>Lines 652 to 663: the walk has left the tree.\<close>

definition fold_exit :: "unicode \<Rightarrow> bool \<Rightarrow> 'h node_fields \<Rightarrow> string \<Rightarrow> string \<Rightarrow> (string \<times> bool) res" where
  "fold_exit u fix f pth ci =
     (if \<not> fix then Inr (ci, False)
      else if pth = ''/'' then Inr (ci, True)
      else if length pth + 1 = length (path f) \<and> path f ! length pth = CHR ''/'' then
        rbind (suffix_from pth 1) (\<lambda>s.
          if equalFold u s (drop 1 (take (length pth) (path f))) \<and> handle f \<noteq> None
          then Inr (ci @ path f, True) else Inr (ci, False))
      else Inr (ci, False))"

function fpRec ::
  "unicode \<Rightarrow> bool \<Rightarrow> 'h router_node \<Rightarrow> string \<Rightarrow> string \<Rightarrow> rune_bytes \<Rightarrow> (string \<times> bool) res" where
  "fpRec u fix (RouterNode f cs) pth ci rb =
     (if same_edge u (path f) pth then
        let npLen = length (path f); pth1 = drop npLen pth; ci1 = ci @ path f;
            nothing = Inr (ci1, fix \<and> pth1 = ''/'' \<and> handle f \<noteq> None) in
        if pth1 \<noteq> [] then
          if \<not> wildChild f then
            let rb1 = shiftNRuneBytes rb npLen in
            if rb1 ! 0 \<noteq> CHR 0x00 then
              (case indexByte (rb1 ! 0) (indices f) of
                 Some i \<Rightarrow> if i < length cs then fpRec u fix (cs ! i) pth1 ci1 rb1 else Inl IndexOutOfRange
               | None \<Rightarrow> nothing)
            else
              let (rv, off) = read_rune npLen pth; lo = runeLower u rv;
                  rb2 = shiftNRuneBytes (put_rune rb1 lo) off in
              rbind (case indexByte (rb2 ! 0) (indices f) of
                       Some i \<Rightarrow> if i < length cs then fpRec u fix (cs ! i) pth1 ci1 rb2 else Inl IndexOutOfRange
                     | None \<Rightarrow> Inr (ci1, False))
                (\<lambda>(out, ok).
                  if ok then Inr (out, True)
                  else
                    let up = runeUpper u rv; rb3 = shiftNRuneBytes (put_rune rb2 up) off in
                    if up \<noteq> lo then
                      (case indexByte (rb3 ! 0) (indices f) of
                         Some i \<Rightarrow> if i < length cs then fpRec u fix (cs ! i) pth1 ci1 rb3 else Inl IndexOutOfRange
                       | None \<Rightarrow> nothing)
                    else nothing)
          else (case cs of
              [] \<Rightarrow> Inl IndexOutOfRange
            | RouterNode g ds # _ \<Rightarrow>
                if nType g = Param then
                  let e = param_end pth1; ci2 = ci1 @ take e pth1 in
                  if e < length pth1 then
                    (case ds of
                       d # _ \<Rightarrow> fpRec u fix d (drop e pth1) ci2 rb
                     | [] \<Rightarrow> Inr (ci2, fix \<and> length pth1 = e + 1))
                  else if handle g \<noteq> None then Inr (ci2, True)
                  else (case ds of
                      [d] \<Rightarrow> if fix \<and> path (info d) = ''/'' \<and> handle (info d) \<noteq> None
                             then Inr (ci2 @ ''/'', True) else Inr (ci2, False)
                    | _ \<Rightarrow> Inr (ci2, False))
                else if nType g = CatchAll then Inr (ci1 @ pth1, True)
                else Inl (PanicMsg ''invalid routerNode type''))
        else if handle f \<noteq> None then Inr (ci1, True)
        else if fix then
          rbind (tsr_slash_child (RouterNode f cs)) (\<lambda>t. Inr (if t then ci1 @ ''/'' else ci1, t))
        else Inr (ci1, False)
      else fold_exit u fix f pth ci)"
  by pat_completeness auto
termination
  by (relation "measure (\<lambda>(_, _, n, _). size n)")
    (auto simp: less_Suc_eq_le intro: size_list_estimation' [OF nth_mem])

declare fpRec.simps [simp del]

definition findCaseInsensitivePath ::
  "unicode \<Rightarrow> 'h router_node \<Rightarrow> string \<Rightarrow> bool \<Rightarrow> (string \<times> bool) res" where
  "findCaseInsensitivePath u n pth fix = fpRec u fix n pth [] no_runes"

end
