(* ===== verification/TreeFoldFacts.thy ===== *)
theory TreeFoldFacts
  imports TreeFold RouteTable
begin

text \<open>
  What \<open>findCaseInsensitivePath\<close> returns on a table of static routes whose paths are ASCII, and what
  it does with the trailing slash.
\<close>

section \<open>One node\<close>

fun ascii_tree :: "'h router_node \<Rightarrow> bool" where
  "ascii_tree (RouterNode f cs) \<longleftrightarrow> is_ascii (path f) \<and> list_all ascii_tree cs"

text \<open>At most the first of the four bytes is set: the code point ends with the edge's first byte.\<close>

definition one_byte :: "rune_bytes \<Rightarrow> bool" where
  "one_byte rb \<longleftrightarrow> length rb = 4 \<and> drop 1 rb = drop 1 no_runes"

lemma one_byte_no_runes [simp]: "one_byte no_runes"
  by (simp add: one_byte_def no_runes_def)

lemma one_byte_cons: "one_byte rb \<Longrightarrow> rb = rb ! 0 # drop 1 no_runes"
  unfolding one_byte_def by (metis Cons_nth_drop_Suc One_nat_def drop0 zero_less_numeral)

lemma shift_one_byte:
  assumes "one_byte rb" and "0 < n" shows "shiftNRuneBytes rb n = no_runes"
  using assms(2) one_byte_cons [OF assms(1)]
  by (cases rb) (auto simp: shiftNRuneBytes_def no_runes_def nth_Cons' numeral_eq_Suc)

lemma put_ascii: "byte c < 128 \<Longrightarrow> one_byte rb \<Longrightarrow> put_rune rb (byte c) = c # drop 1 no_runes"
  by (simp add: put_rune_def EncodeRune_ascii one_byte_def)

lemma one_byte_put: "one_byte (c # drop 1 no_runes)"
  by (simp add: one_byte_def no_runes_def)

lemma no_runes_0 [simp]: "no_runes ! 0 = CHR 0x00"
  by (simp add: no_runes_def)

lemma shift_0 [simp]: "shiftNRuneBytes rb 0 = rb"
  by (simp add: shiftNRuneBytes_def)

lemma read_rune_ascii:
  assumes "0 < n" and "n < length s" and "is_ascii s"
  shows "read_rune n s = (byte (hd (drop n s)), 0)"
proof -
  have a: "byte (s ! n) < 128" using assms(2,3) by (auto simp: is_ascii_def list_all_length)
  have "[0..<min n 3] = 0 # [1..<min n 3]" using assms(1) by (simp add: upt_rec)
  moreover have "drop n s = s ! n # drop (Suc n) s" using assms(2) by (simp add: Cons_nth_drop_Suc)
  ultimately show ?thesis
    using a by (simp add: read_rune_def RuneStart_ascii DecodeRune_ascii)
qed

lemma fold_text_simps [simp]:
  "fold_text [] = []" "fold_text (c # s) = to_lower c # fold_text s" "fold_text (s @ t) = fold_text s @ fold_text t"
  "fold_text s = [] \<longleftrightarrow> s = []" "[] = fold_text s \<longleftrightarrow> s = []"
  by (simp_all add: fold_text_def)

lemma fold_text_length: "fold_text s = fold_text t \<Longrightarrow> length s = length t"
  unfolding fold_text_def by (metis length_map)

lemma ascii_case_tables:
  assumes "ascii_tables u" and "byte c < 128"
  shows "runeLower u (byte c) = byte (to_lower c)" and "runeUpper u (byte c) = byte (to_upper c)"
  using assms by (simp_all add: ascii_tables_def)

lemma ascii_fold_table:
  "ascii_tables u \<Longrightarrow> is_ascii s \<Longrightarrow> is_ascii t \<Longrightarrow> equalFold u s t \<longleftrightarrow> fold_text s = fold_text t"
  by (simp add: ascii_tables_def)

text \<open>The first bytes agree, as the choice of the child has made sure, and the rest is compared.\<close>

lemma edge_compared:
  assumes "ascii_tables u" and "is_ascii e" and "is_ascii p" and "e \<noteq> []" and "p \<noteq> []"
    and "to_lower (hd p) = to_lower (hd e)"
  shows "same_edge u e p \<longleftrightarrow> fold_text (take (length e) p) = fold_text e"
proof -
  obtain c e1 d p1 where [simp]: "e = c # e1" "p = d # p1" using assms(4,5) by (cases e; cases p) auto
  have "equalFold u (take (length e1) p1) e1 \<longleftrightarrow> fold_text (take (length e1) p1) = fold_text e1"
    using assms(1-3) by (intro ascii_fold_table) (auto simp: is_ascii_parts)
  then show ?thesis
    unfolding same_edge_def using assms(6) fold_text_length [of "take (length e1) p1" e1] by auto
qed

definition fold_child ::
  "unicode \<Rightarrow> 'h node_fields \<Rightarrow> 'h router_node list \<Rightarrow> string \<Rightarrow> string \<Rightarrow> char \<Rightarrow> (string \<times> bool) res" where
  "fold_child u f cs pth ci c =
     (case indexByte c (indices f) of
        Some i \<Rightarrow> if i < length cs then fpRec u False (cs ! i) pth ci (c # drop 1 no_runes) else Inl IndexOutOfRange
      | None \<Rightarrow> Inr (ci, False))"

lemma fpRec_ascii:
  assumes "ascii_tables u" and w: "\<not> wildChild f" and "is_ascii (path f)" and "is_ascii pth"
    and "path f \<noteq> []" and "pth \<noteq> []" and "to_lower (hd pth) = to_lower (hd (path f))" and "one_byte rb"
  shows "fpRec u False (RouterNode f cs) pth ci rb =
    (let rest = drop (length (path f)) pth; c = hd rest in
     if fold_text (take (length (path f)) pth) \<noteq> fold_text (path f) then Inr (ci, False)
     else if rest = [] then Inr (ci @ path f, handle f \<noteq> None)
     else rbind (fold_child u f cs rest (ci @ path f) (to_lower c)) (\<lambda>(out, ok).
       if ok then Inr (out, True)
       else if to_upper c \<noteq> to_lower c then fold_child u f cs rest (ci @ path f) (to_upper c)
       else Inr (ci @ path f, False)))"
proof -
  let ?n = "length (path f)"
  note edge = edge_compared [OF assms(1,3,4,5,6,7)]
  note step = fpRec.simps [of u False f cs pth ci rb, unfolded edge]
  have n: "0 < ?n" using assms(5) by simp
  consider "fold_text (take ?n pth) \<noteq> fold_text (path f)"
    | "fold_text (take ?n pth) = fold_text (path f)" "drop ?n pth = []"
    | "fold_text (take ?n pth) = fold_text (path f)" "drop ?n pth \<noteq> []" by blast
  then show ?thesis
  proof cases
    case 1
    then show ?thesis unfolding step Let_def if_not_P [OF 1] if_P [OF 1] fold_exit_def by simp
  next
    case 2
    then show ?thesis unfolding step Let_def by (simp only: if_P if_not_P not_True_eq_False simp_thms refl) simp
  next
    case 3
    define c where "c = hd (drop ?n pth)"
    have "is_ascii (drop ?n pth)" using assms(4) by (rule is_ascii_parts)
    then have c: "byte c < 128" using 3 unfolding c_def by (cases "drop ?n pth") simp_all
    have r: "read_rune ?n pth = (byte c, 0)"
      unfolding c_def using 3(2) by (intro read_rune_ascii [OF n _ assms(4)]) simp
    note lo = put_ascii [OF ascii_case [OF c, THEN conjunct1] one_byte_no_runes]
      and up = put_ascii [OF ascii_case [OF c, THEN conjunct2] one_byte_put]
    have diff: "(byte (to_upper c) = byte (to_lower c)) = (to_upper c = to_lower c)"
      by simp
    note ev = Let_def shift_one_byte [OF assms(8) n] r lo [simplified] up [simplified] diff ascii_case_tables [OF assms(1) c]
      c_def [symmetric]
    show ?thesis
      unfolding step fold_child_def
      using 3 w by (simp add: ev cong: option.case_cong)
        (intro conjI impI rbind_cong refl; auto simp: ev cong: option.case_cong if_cong split: prod.split)
  qed
qed

section \<open>The whole tree\<close>

text \<open>\<open>q\<close> is registered and differs from \<open>p\<close> in case only.\<close>

definition folds_to :: "'h router_node \<Rightarrow> string \<Rightarrow> string \<Rightarrow> bool" where
  "folds_to n p q \<longleftrightarrow> static_map n q \<noteq> None \<and> fold_text q = fold_text p"

definition fold_spec ::
  "'h router_node \<Rightarrow> string \<Rightarrow> string \<Rightarrow> (string \<times> bool) res \<Rightarrow> bool" where
  "fold_spec n p ci r \<longleftrightarrow>
     (case r of Inl _ \<Rightarrow> False
      | Inr (got, b) \<Rightarrow> (b \<longleftrightarrow> (\<exists>q. folds_to n p q)) \<and> (b \<longrightarrow> (\<exists>q. got = ci @ q \<and> folds_to n p q)))"

lemma folds_to_extends: "folds_to (RouterNode f cs) p q \<Longrightarrow> \<exists>r. q = path f @ r"
  by (auto simp: folds_to_def prefix_def dest!: static_map_Some_prefix)

lemma folds_to_edge:
  assumes "folds_to (RouterNode f cs) p (path f @ r)"
  shows "fold_text (take (length (path f)) p) = fold_text (path f)"
    and "fold_text r = fold_text (drop (length (path f)) p)"
proof -
  have "map to_lower p = map to_lower (path f) @ map to_lower r"
    using assms by (simp add: folds_to_def fold_text_def)
  then show "fold_text (take (length (path f)) p) = fold_text (path f)"
      "fold_text r = fold_text (drop (length (path f)) p)"
    by (simp_all add: fold_text_def take_map [symmetric] drop_map [symmetric])
qed

lemma fold_text_take_drop:
  "fold_text (take n p) = fold_text s \<Longrightarrow> fold_text r = fold_text (drop n p) \<Longrightarrow> fold_text (s @ r) = fold_text p"
  by (metis append_take_drop_id fold_text_simps(3))

lemma folds_to_end:
  assumes "fold_text (take (length (path f)) p) = fold_text (path f)" and "drop (length (path f)) p = []"
  shows "folds_to (RouterNode f cs) p q \<longleftrightarrow> q = path f \<and> handle f \<noteq> None"
proof
  assume L: "folds_to (RouterNode f cs) p q"
  from folds_to_extends [OF L] obtain r where r: "q = path f @ r" ..
  with folds_to_edge(2) [of f cs p r] L assms(2) have "r = []" by simp
  with L r static_map_append [of f cs "[]"] show "q = path f \<and> handle f \<noteq> None" by (simp add: folds_to_def)
next
  assume "q = path f \<and> handle f \<noteq> None"
  with static_map_append [of f cs "[]"] fold_text_take_drop [OF assms(1), of "[]"] assms(2)
  show "folds_to (RouterNode f cs) p q" by (simp add: folds_to_def)
qed

text \<open>A registered continuation starts with the next byte in either case, under the child of that byte.\<close>

lemma folds_to_child:
  assumes al: "aligned (RouterNode f cs)" and "fold_text (take (length (path f)) p) = fold_text (path f)"
    and "drop (length (path f)) p = rest" and "rest \<noteq> []"
  shows "folds_to (RouterNode f cs) p (path f @ r) \<longleftrightarrow>
    (\<exists>x\<in>{to_lower (hd rest), to_upper (hd rest)}. \<exists>i. indexByte x (indices f) = Some i \<and> folds_to (cs ! i) rest r)"
    (is "?L \<longleftrightarrow> ?R")
proof
  assume L: ?L
  from folds_to_edge(2) [OF L] assms(3) have fr: "fold_text r = fold_text rest" by simp
  with assms(4) have ne: "r \<noteq> []" by auto
  then have "to_lower (hd r) = to_lower (hd rest)"
    using fr assms(4) by (cases r; cases rest) auto
  then have "hd r \<in> {to_lower (hd rest), to_upper (hd rest)}"
    using to_lower_eq by blast
  moreover obtain i where "indexByte (hd r) (indices f) = Some i" "static_map (cs ! i) r \<noteq> None"
    using L ne by (auto simp: folds_to_def static_map_append split: option.splits if_splits)
  ultimately show ?R using fr unfolding folds_to_def by blast
next
  assume ?R
  then obtain x i where i: "indexByte x (indices f) = Some i" "folds_to (cs ! i) rest r" by blast
  from i(2) obtain h where h: "static_map (cs ! i) r = Some h" by (auto simp: folds_to_def)
  from static_map_child [OF al aligned_indexByte(1) [OF al i(1)] h]
    fold_text_take_drop [OF assms(2), of r] i(2) assms(3)
  show ?L by (simp add: folds_to_def)
qed

text \<open>What trying the children under the bytes \<open>X\<close> has to return.\<close>

definition child_spec ::
  "'h node_fields \<Rightarrow> 'h router_node list \<Rightarrow> string \<Rightarrow> string \<Rightarrow> char set \<Rightarrow> (string \<times> bool) res \<Rightarrow> bool" where
  "child_spec f cs rest ci X r \<longleftrightarrow>
     (case r of Inl _ \<Rightarrow> False
      | Inr (got, b) \<Rightarrow>
        (b \<longleftrightarrow> (\<exists>x\<in>X. \<exists>i q. indexByte x (indices f) = Some i \<and> folds_to (cs ! i) rest q)) \<and>
        (b \<longrightarrow> (\<exists>x\<in>X. \<exists>i q. indexByte x (indices f) = Some i \<and> folds_to (cs ! i) rest q \<and> got = ci @ q)))"

lemma fold_child_spec:
  assumes "\<And>i. indexByte x (indices f) = Some i \<Longrightarrow>
    i < length cs \<and> fold_spec (cs ! i) rest ci (fpRec u False (cs ! i) rest ci (x # drop 1 no_runes))"
  shows "child_spec f cs rest ci {x} (fold_child u f cs rest ci x)"
proof (cases "indexByte x (indices f)")
  case None
  then show ?thesis by (simp add: child_spec_def fold_child_def)
next
  case (Some i)
  from assms [OF Some] Some show ?thesis
    unfolding child_spec_def fold_child_def fold_spec_def by (auto split: sum.splits)
qed

lemma child_spec_or:
  assumes "child_spec f cs rest ci {x} a" and "y \<noteq> x \<Longrightarrow> child_spec f cs rest ci {y} b"
  shows "child_spec f cs rest ci {x, y} (rbind a (\<lambda>(out, ok).
    if ok then Inr (out, True) else if y \<noteq> x then b else Inr (ci, False)))"
  using assms unfolding child_spec_def by (cases "y = x") (auto split: if_splits sum.splits)

lemma child_spec_node:
  assumes "child_spec f cs rest (ci @ e) X r"
    and "\<And>q. folds_to n p q \<longleftrightarrow>
      (\<exists>x\<in>X. \<exists>i s. indexByte x (indices f) = Some i \<and> folds_to (cs ! i) rest s \<and> q = e @ s)"
  shows "fold_spec n p ci r"
  using assms(1) unfolding child_spec_def fold_spec_def assms(2) by (auto split: sum.splits)

lemma fpRec_correct:
  assumes "ascii_tables u" and "aligned n" and "ascii_tree n" and "path (info n) \<noteq> []"
    and "is_ascii p" and "p \<noteq> []" and "to_lower (hd p) = to_lower (first_byte n)" and "one_byte rb"
  shows "fold_spec n p ci (fpRec u False n p ci rb)"
  using assms(2-)
proof (induction n arbitrary: p ci rb)
  case (RouterNode f cs)
  note al = RouterNode.prems(1)
  have w: "\<not> wildChild f" using al by simp
  let ?n = "length (path f)"
  define rest where "rest = drop ?n p"
  have a: "is_ascii rest" unfolding rest_def using RouterNode.prems(4) by (rule is_ascii_parts)
  note step = fpRec_ascii [OF assms(1) w _ RouterNode.prems(4) _ RouterNode.prems(5) _ RouterNode.prems(7), where ci = ci and cs = cs,
      folded rest_def]
  have pre: "is_ascii (path f)" "path f \<noteq> []" "to_lower (hd p) = to_lower (hd (path f))"
    using RouterNode.prems(2,3,6) by (simp_all add: first_byte_def)
  consider "fold_text (take ?n p) \<noteq> fold_text (path f)"
    | "fold_text (take ?n p) = fold_text (path f)" "rest = []"
    | "fold_text (take ?n p) = fold_text (path f)" "rest \<noteq> []" by blast
  then show ?case
  proof cases
    case 1
    have "\<not> folds_to (RouterNode f cs) p q" for q
      using 1 folds_to_extends [of f cs p q] folds_to_edge(1) [of f cs p] by blast
    with 1 show ?thesis by (simp add: step [OF pre] fold_spec_def Let_def)
  next
    case 2
    have "folds_to (RouterNode f cs) p q \<longleftrightarrow> q = path f \<and> handle f \<noteq> None" for q
      by (rule folds_to_end) (use 2 rest_def in auto)
    then show ?thesis using 2 by (auto simp: step [OF pre] fold_spec_def Let_def)
  next
    case 3
    let ?lo = "to_lower (hd rest)" and ?up = "to_upper (hd rest)"
    have child: "child_spec f cs rest (ci @ path f) {x} (fold_child u f cs rest (ci @ path f) x)"
      if "to_lower x = to_lower (hd rest)" for x
    proof (rule fold_child_spec)
      fix i assume i: "indexByte x (indices f) = Some i"
      note il = aligned_indexByte [OF al i]
      have "ascii_tree (cs ! i)" using RouterNode.prems(2) il(1) by (simp add: list_all_length)
      with il aligned_child [OF al il(1)] that a 3(2) one_byte_put
      show "i < length cs \<and>
          fold_spec (cs ! i) rest (ci @ path f) (fpRec u False (cs ! i) rest (ci @ path f) (x # drop 1 no_runes))"
        by (intro conjI RouterNode.IH) (simp_all add: one_byte_put)
    qed
    have "child_spec f cs rest (ci @ path f) {?lo, ?up} (fpRec u False (RouterNode f cs) p ci rb)"
      using 3 child_spec_or [OF child child, of ?lo ?up] by (simp add: step [OF pre] Let_def to_lower_idem)
    moreover have "folds_to (RouterNode f cs) p q \<longleftrightarrow> (\<exists>x\<in>{?lo, ?up}. \<exists>i s.
        indexByte x (indices f) = Some i \<and> folds_to (cs ! i) rest s \<and> q = path f @ s)" for q
      using folds_to_child [OF al 3(1) rest_def [symmetric] 3(2)] folds_to_extends [of f cs p q] by metis
    ultimately show ?thesis by (rule child_spec_node)
  qed
qed

text \<open>In a table of ASCII routes every edge is ASCII, since it is part of a route.\<close>

lemma ascii_routes_tree:
  "aligned n \<Longrightarrow> populated n \<Longrightarrow> (\<And>q h. static_map n q = Some h \<Longrightarrow> is_ascii q) \<Longrightarrow> ascii_tree n"
proof (induction n)
  case (RouterNode f cs)
  obtain q h where "static_map (RouterNode f cs) q = Some h" "prefix (path f) q"
    using populated_key [OF RouterNode.prems(1,2)] by auto
  then have "is_ascii (path f)" using RouterNode.prems(3) [of q h] by (auto simp: prefix_def)
  moreover have "ascii_tree c" if c: "c \<in> set cs" for c
  proof (rule RouterNode.IH [OF c])
    obtain i where i: "i < length cs" "c = cs ! i" using c by (auto simp: in_set_conv_nth)
    then show "aligned c" "populated c"
      using aligned_child [OF RouterNode.prems(1)] populated_child [OF RouterNode.prems(2)] by auto
    show "is_ascii q" if "static_map c q = Some h" for q h
      using static_map_child [OF RouterNode.prems(1) i(1)] that RouterNode.prems(3) [of "path f @ q" h] i(2) by auto
  qed
  ultimately show ?case by (simp add: list_all_iff)
qed

section \<open>The properties\<close>

text \<open>C21: on a table of static ASCII routes that begin with a slash, whose indices still name the children (no
  registration has moved one), and with case tables that agree with ASCII, the lookup of an ASCII path that
  begins with a slash, without regard to case and without the correction of a final slash, does not panic; it succeeds exactly when some registered route differs from the path in case only,
  and then the path it returns is such a route, as it was registered.\<close>

theorem findCaseInsensitivePath_correct:
  assumes "ascii_tables u" and "static_table t" and "path (info t) \<noteq> []"
    and "\<And>q. lookup_handle t q \<noteq> None \<Longrightarrow> is_ascii q \<and> prefix ''/'' q"
    and "is_ascii p" and "prefix ''/'' p"
  shows "\<exists>got ok. findCaseInsensitivePath u t p False = Inr (got, ok) \<and>
    (ok \<longleftrightarrow> (\<exists>q. lookup_handle t q \<noteq> None \<and> fold_text q = fold_text p)) \<and>
    (ok \<longrightarrow> lookup_handle t got \<noteq> None \<and> fold_text got = fold_text p)"
proof -
  have al: "aligned t" and pop: "populated t"
    using assms(2,3) by (auto simp: static_table_def empty_tree_def split: if_splits)
  note routes = assms(4) [unfolded lookup_aligned [OF al]]
  obtain q h where q: "static_map t q = Some h" "prefix (path (info t)) q"
    using populated_key [OF al pop] by blast
  with routes [of q] assms(3) have "first_byte t = CHR ''/''"
    by (cases "path (info t)") (auto simp: first_byte_def prefix_def)
  moreover have "ascii_tree t" using ascii_routes_tree [OF al pop] routes by blast
  moreover have "hd p = CHR ''/''" "p \<noteq> []" using assms(6) by (auto simp: prefix_def)
  ultimately have "fold_spec t p [] (findCaseInsensitivePath u t p False)"
    unfolding findCaseInsensitivePath_def
    by (intro fpRec_correct [OF assms(1) al _ assms(3) assms(5)]) simp_all
  then show ?thesis
    unfolding fold_spec_def folds_to_def lookup_aligned [OF al] by (auto split: sum.splits)
qed

theorem findCaseInsensitivePath_correct_witness:
  "\<exists>got ok. findCaseInsensitivePath ascii_unicode table_a ''/A'' False = Inr (got, ok) \<and>
    (ok \<longleftrightarrow> (\<exists>q. lookup_handle table_a q \<noteq> None \<and> fold_text q = fold_text ''/A'')) \<and>
    (ok \<longrightarrow> lookup_handle table_a got \<noteq> None \<and> fold_text got = fold_text ''/A'')"
proof (rule findCaseInsensitivePath_correct [OF ascii_unicode_tables table_a_static])
  show "path (info table_a) \<noteq> []" by (simp add: table_a_def)
  have al: "aligned table_a" using table_a_static by (simp add: static_table_def)
  show "is_ascii q \<and> prefix ''/'' q" if "lookup_handle table_a q \<noteq> None" for q
    using that unfolding lookup_aligned [OF al]
    by (auto simp: table_a_def static_map.simps zero_fields_def split: if_splits)
qed simp_all

text \<open>With the trailing slash to be fixed, the path \<open>/\<close> is reported as found, with the empty path as the
  corrected one, in every tree whose first edge is longer than a slash.\<close>

theorem fold_slash_always_found:
  assumes "1 < length (path (info n))"
  shows "findCaseInsensitivePath u n ''/'' True = Inr ([], True)"
  using assms
  by (cases n) (simp add: findCaseInsensitivePath_def fpRec.simps same_edge_def fold_exit_def)

theorem fold_slash_always_found_witness:
  "findCaseInsensitivePath ascii_unicode table_a ''/'' True = Inr ([], True)"
  by (rule fold_slash_always_found) (simp add: table_a_def)

text \<open>The empty path panics there when the first edge is a slash.\<close>

theorem fold_empty_panics:
  assumes "path (info n) = ''/''"
  shows "findCaseInsensitivePath u n [] True = Inl SliceBounds"
  using assms
  by (cases n) (simp add: findCaseInsensitivePath_def fpRec.simps same_edge_def fold_exit_def suffix_from_def)

theorem fold_empty_panics_witness:
  "findCaseInsensitivePath ascii_unicode (RouterNode (zero_fields\<lparr>path := ''/''\<rparr>) [] :: nat router_node) [] True = Inl SliceBounds"
  by (rule fold_empty_panics) simp

end
