(* ===== verification/TreeFoldWild.thy ===== *)
theory TreeFoldWild
  imports TreeFoldFacts TreeSound
begin

text \<open>
  \<open>findCaseInsensitivePath\<close> in trees with wildcards: a path it returns is an instance of a registered
  route and differs from the request in case only.
\<close>

section \<open>Trees it can walk\<close>

text \<open>A child hangs under its first byte, a catch-all, whose node has no path, under the slash before it.\<close>

definition label :: "'h router_node \<Rightarrow> char" where
  "label c = (if path (info c) = [] then CHR ''/'' else first_byte c)"

text \<open>No registration has moved a child, so that the indices still name the children; a node without a path
  leads on with a slash only; and a parameter that \<open>insertChild\<close> left without a name is a bare leaf.\<close>

fun labelled :: "'h router_node \<Rightarrow> bool" where
  "labelled (RouterNode f cs) \<longleftrightarrow>
     (if wildChild f then
        (case cs of [] \<Rightarrow> True
         | RouterNode g ds # _ \<Rightarrow> nType g = Param \<longrightarrow>
             (case ds of [] \<Rightarrow> path g \<noteq> [] \<or> handle g = None | d # _ \<Rightarrow> path g \<noteq> [] \<and> labelled d))
      else (path f = [] \<longrightarrow> set (indices f) \<subseteq> {CHR ''/''}) \<and> indices f = map label cs \<and> list_all labelled cs)"

definition instance_of :: "'h router_node \<Rightarrow> string \<Rightarrow> bool" where
  "instance_of n s \<longleftrightarrow> (\<exists>q h ps. (q, h) \<in> set (routes n) \<and> fill q ps = Some s)"

lemma found_instance: "found n s p0 h p \<Longrightarrow> instance_of n s"
  by (auto simp: found_def instance_of_def)

lemma instance_found:
  assumes "instance_of n s" shows "\<exists>h. \<forall>p0. \<exists>p. found n s p0 h p"
proof -
  obtain q h ps where "(q, h) \<in> set (routes n)" "fill q ps = Some s"
    using assms by (auto simp: instance_of_def)
  then have "found n s p0 h (Some (0, params_list p0 @ ps))" for p0
    by (auto simp: found_def params_list_def)
  then show ?thesis by blast
qed

lemma instance_static:
  assumes "instance_of (cs ! i) s" and "i < length cs" and "\<not> wildChild f"
  shows "instance_of (RouterNode f cs) (path f @ s)"
  using instance_found [OF assms(1)] found_static [OF _ assms(2,3)] by (blast intro: found_instance)

lemma instance_param_deeper:
  assumes "instance_of d s" and "wildChild f" and "nType g = Param" and "path g \<noteq> []" and "CHR ''/'' \<notin> set v"
  shows "instance_of (RouterNode f (RouterNode g (d # ds) # cs)) (path f @ v @ s)"
proof -
  obtain h p where "found d s (Some (0, [\<lparr>Key = drop 1 (path g), Val = v\<rparr>])) h p"
    using instance_found [OF assms(1)] by blast
  from found_param_deeper [OF this assms(2,3,4) _ assms(5), of None] show ?thesis
    by (intro found_instance) (simp add: params_list_def)
qed

lemma instance_param_end:
  assumes "wildChild f" and "nType g = Param" and "path g \<noteq> []" and "handle g \<noteq> None" and "CHR ''/'' \<notin> set v"
  shows "instance_of (RouterNode f (RouterNode g ds # cs)) (path f @ v)"
  using assms found_param_end [OF assms(1,2,3) _ _ assms(5), of _ "Some (0, [\<lparr>Key = drop 1 (path g), Val = v\<rparr>])" None]
  by (auto simp: params_list_def intro: found_instance)

lemma instance_catchAll:
  assumes "wildChild f" and "nType g = CatchAll" and "handle g \<noteq> None"
  shows "instance_of (RouterNode f (RouterNode g ds # cs)) (path f @ v)"
proof -
  obtain h where "handle g = Some h" using assms(3) by blast
  then have "found (RouterNode f (RouterNode g ds # cs)) (path f @ v) None h
      (Some (0, [\<lparr>Key = drop 2 (path g), Val = v\<rparr>]))"
    by (rule found_catchAll [OF assms(1,2)]) (simp add: params_list_def)
  then show ?thesis by (rule found_instance)
qed

lemma instance_own: "handle f \<noteq> None \<Longrightarrow> instance_of (RouterNode f cs) (path f)"
  by (auto intro: found_instance found_own)

section \<open>Soundness\<close>

definition fold_found :: "'h router_node \<Rightarrow> string \<Rightarrow> string \<Rightarrow> (string \<times> bool) res \<Rightarrow> bool" where
  "fold_found n p ci r \<longleftrightarrow>
     (case r of Inr (got, True) \<Rightarrow> \<exists>s. got = ci @ s \<and> instance_of n s \<and> fold_text s = fold_text p | _ \<Rightarrow> True)"

lemma fold_found_simps [simp]:
  "fold_found n p ci (Inl e)" "fold_found n p ci (Inr (got, False))"
  "fold_found n p ci (Inr (got, True)) \<longleftrightarrow> (\<exists>s. got = ci @ s \<and> instance_of n s \<and> fold_text s = fold_text p)"
  by (simp_all add: fold_found_def)

lemma fold_found_lift:
  assumes "fold_found d p1 (ci @ e) r" and "\<And>s. instance_of d s \<Longrightarrow> instance_of n (e @ s)"
    and "fold_text p = fold_text e @ fold_text p1"
  shows "fold_found n p ci r"
  using assms by (auto simp: fold_found_def split: sum.splits bool.splits)

lemma fold_found_bind:
  assumes "fold_found n p ci a" and "fold_found n p ci b"
  shows "fold_found n p ci (rbind a (\<lambda>(out, ok). if ok then Inr (out, True) else b))"
  using assms by (cases a) (auto split: prod.split bool.splits)

text \<open>The walk starts at a node with a code point that the node's first byte completes.\<close>

definition enters :: "'h router_node \<Rightarrow> string \<Rightarrow> rune_bytes \<Rightarrow> bool" where
  "enters n p rb \<longleftrightarrow> p \<noteq> [] \<and> one_byte rb \<and>
     (if path (info n) = [] then wildChild (info n) \<or> hd p = CHR ''/''
      else to_lower (hd p) = to_lower (first_byte n))"

lemma edge_split:
  assumes "same_edge u (path f) p" and "ascii_tables u" and "is_ascii (path f)" and "is_ascii p"
    and "enters (RouterNode f cs) p rb"
  shows "fold_text p = fold_text (path f) @ fold_text (drop (length (path f)) p)"
proof (cases "path f = []")
  case False
  then have "fold_text (take (length (path f)) p) = fold_text (path f)"
    using assms edge_compared [of u "path f" p] by (auto simp: enters_def first_byte_def)
  then show ?thesis by (metis append_take_drop_id fold_text_simps(3))
qed simp

lemma fold_child_found:
  assumes "\<And>i. indexByte x (indices f) = Some i \<Longrightarrow> i < length cs \<Longrightarrow>
      fold_found (cs ! i) rest (ci @ path f) (fpRec u False (cs ! i) rest (ci @ path f) (x # drop 1 no_runes))"
    and "\<not> wildChild f" and "fold_text p = fold_text (path f) @ fold_text rest"
  shows "fold_found (RouterNode f cs) p ci (fold_child u f cs rest (ci @ path f) x)"
  using fold_found_lift [OF assms(1) instance_static [OF _ _ assms(2)] assms(3)]
  by (auto simp: fold_child_def split: option.split)

lemma fpRec_no_path:
  assumes "ascii_tables u" and "\<not> wildChild f" and "path f = []" and "p \<noteq> []" and "one_byte rb"
    and "set (indices f) \<subseteq> {CHR ''/''}"
  shows "fpRec u False (RouterNode f cs) p ci rb = fold_child u f cs p ci (rb ! 0)"
proof (cases "rb ! 0 = CHR 0x00")
  case True
  have none: "indexByte (CHR 0x00) (indices f) = None"
    using assms(6) by (auto simp: indexByte_eq_None)
  have put: "put_rune rb 0 ! 0 = CHR 0x00"
    using put_ascii [of "CHR 0x00" rb] assms(5) by simp
  have low: "runeLower u 0 = 0" "runeUpper u 0 = 0"
    using ascii_case_tables [OF assms(1), of "CHR 0x00"] by (simp_all add: to_lower_def to_upper_def)
  show ?thesis
    using assms(2-4) True
    by (simp add: fpRec.simps same_edge_def read_rune_def low put none fold_child_def)
next
  case False
  then show ?thesis
    unfolding fold_child_def one_byte_cons [OF assms(5), symmetric]
    using assms(2-4) by (simp add: fpRec.simps same_edge_def cong: option.case_cong)
qed

lemma enters_labelled:
  assumes "label c = x" and "to_lower x = to_lower (hd rest)" and "rest \<noteq> []"
  shows "enters c rest (x # drop 1 no_runes)"
proof (cases "path (info c) = []")
  case True
  then have "x = CHR ''/''" using assms(1) by (simp add: label_def)
  moreover have "to_lower (CHR ''/'') = CHR ''/''" "to_upper (CHR ''/'') = CHR ''/''"
    by (simp_all add: to_lower_def to_upper_def)
  ultimately have "hd rest = CHR ''/''" using assms(2) to_lower_eq [of "hd rest" x] by auto
  then show ?thesis using True assms(3) by (simp add: enters_def one_byte_put [simplified])
next
  case False
  then show ?thesis using assms by (simp add: enters_def label_def one_byte_put [simplified])
qed

lemma fpRec_found:
  assumes "ascii_tables u"
  shows "regular n \<Longrightarrow> labelled n \<Longrightarrow> ascii_tree n \<Longrightarrow> is_ascii p \<Longrightarrow> enters n p rb \<Longrightarrow>
    fold_found n p ci (fpRec u False n p ci rb)"
proof (induction n arbitrary: p ci rb rule: measure_induct_rule [where f = size])
  case (less n)
  obtain f cs where n: "n = RouterNode f cs" by (cases n)
  note re = less.prems(1) [unfolded n] and la = less.prems(2) [unfolded n] and en = less.prems(5) [unfolded n]
  let ?rest = "drop (length (path f)) p"
  have rest: "is_ascii ?rest" by (rule is_ascii_parts(2) [OF less.prems(4)])
  have fa: "is_ascii (path f)" "list_all ascii_tree cs" using less.prems(3) by (simp_all add: n)
  show ?case
  proof (cases "same_edge u (path f) p")
    case False
    then show ?thesis by (simp add: n fpRec.simps [of u False f cs] fold_exit_def)
  next
    case True
    note split = edge_split [OF True assms fa(1) less.prems(4) en]
    consider "?rest = []" | "?rest \<noteq> []" "\<not> wildChild f" | "?rest \<noteq> []" "wildChild f" by blast
    then show ?thesis
    proof cases
      case 1
      then show ?thesis
        using True split instance_own [of f cs] by (auto simp: n fpRec.simps [of u False f cs] Let_def)
    next
      case 2
      have child: "fold_found n p ci (fold_child u f cs ?rest (ci @ path f) x)"
        if x: "to_lower x = to_lower (hd ?rest) \<or> x \<notin> set (indices f)" for x
        unfolding n
      proof (rule fold_child_found [OF _ 2(2) split])
        fix i assume i: "indexByte x (indices f) = Some i" "i < length cs"
        have c: "regular (cs ! i)" "labelled (cs ! i)" "ascii_tree (cs ! i)" "label (cs ! i) = x"
          using re la fa(2) 2 i(2) indexByte_SomeD [OF i(1)] by (simp_all add: list_all_length)
        have "x \<in> set (indices f)" using indexByte_SomeD [OF i(1)] by auto
        then have e: "enters (cs ! i) ?rest (x # drop 1 no_runes)"
          using x 2(1) by (intro enters_labelled [OF c(4)]) auto
        show "fold_found (cs ! i) ?rest (ci @ path f) (fpRec u False (cs ! i) ?rest (ci @ path f) (x # drop 1 no_runes))"
          by (rule less.IH [OF _ c(1-3) rest e])
            (use i(2) in \<open>simp add: n less_Suc_eq_le size_list_estimation' [OF nth_mem]\<close>)
      qed
      have ps: "p \<noteq> []" "one_byte rb" using en by (simp_all add: enters_def)
      show ?thesis
      proof (cases "path f = []")
        case True
        have "hd p = CHR ''/''" using en True 2 by (simp add: enters_def)
        moreover have "set (indices f) \<subseteq> {CHR ''/''}" using la True 2(2) by (metis labelled.simps)
        moreover have "rb ! 0 = CHR ''/'' \<or> rb ! 0 \<notin> set (indices f)" using calculation(2) by blast
        ultimately have "to_lower (rb ! 0) = to_lower (hd ?rest) \<or> rb ! 0 \<notin> set (indices f)" by (auto simp: True)
        from child [OF this] show ?thesis
          unfolding n using fpRec_no_path [OF assms 2(2) True ps \<open>set (indices f) \<subseteq> {CHR ''/''}\<close>] by (simp add: True)
      next
        case False
        then have hd: "to_lower (hd p) = to_lower (hd (path f))" using en by (simp add: enters_def first_byte_def)
        have "fold_text (take (length (path f)) p) = fold_text (path f)"
          using edge_compared [OF assms fa(1) less.prems(4) False ps(1) hd] True by simp
        then show ?thesis
          unfolding n fpRec_ascii [OF assms 2(2) fa(1) less.prems(4) False ps(1) hd ps(2)]
          using 2 child [unfolded n] by (auto simp: Let_def to_lower_idem intro!: fold_found_bind)
      qed
    next
      case 3
      show ?thesis
      proof (cases cs)
        case Nil
        with 3 True show ?thesis by (simp add: n fpRec.simps [of u False f] Let_def)
      next
        case (Cons g0 cs1)
        obtain g ds where g: "g0 = RouterNode g ds" by (cases g0)
        note step = fpRec.simps [of u False f cs p ci rb, unfolded Cons g]
        let ?e = "param_end ?rest"
        consider "nType g = Param" | "nType g = CatchAll" | "nType g \<noteq> Param" "nType g \<noteq> CatchAll" by blast
        then show ?thesis
        proof cases
          case 1
          note v = param_end_no_slash [of ?rest]
          have fe: "fold_text p = fold_text (path f @ take ?e ?rest) @ fold_text (drop ?e ?rest)"
            unfolding split by (metis append.assoc append_take_drop_id fold_text_simps(3))
          have bare: "path g \<noteq> [] \<or> ds = [] \<and> handle g = None"
            using la 3 1 by (auto simp: Cons g split: list.splits)
          show ?thesis
          proof (cases "?e < length ?rest \<and> ds \<noteq> []")
            case False
            then show ?thesis
              using 1 3 True fe bare instance_param_end [OF 3(2) 1 _ _ v, of ds cs1]
              unfolding n Cons g step by (auto simp: Let_def not_less split: list.split)
          next
            case more: True
            then obtain d ds1 where ds: "ds = d # ds1" by (cases ds) auto
            have ne: "path g \<noteq> []" using bare ds by simp
            have d: "regular d" "slashed d" "labelled d" "ascii_tree d"
              using re la fa(2) 3 1 ne by (simp_all add: Cons g ds split: list.splits)
            have "hd (drop ?e ?rest) = CHR ''/''"
              using more hd_dropWhile [of "\<lambda>c. c \<noteq> CHR ''/''" ?rest] unfolding param_end_split(2) [symmetric] by auto
            with d(2) more en have e: "enters d (drop ?e ?rest) rb"
              by (auto simp: enters_def first_byte_def slashed_def)
            have "fold_found d (drop ?e ?rest) (ci @ path f @ take ?e ?rest)
                (fpRec u False d (drop ?e ?rest) (ci @ path f @ take ?e ?rest) rb)"
              by (rule less.IH [OF _ d(1,3,4) is_ascii_parts(2) [OF rest] e]) (simp add: n Cons g ds)
            then have "fold_found n p ci (fpRec u False d (drop ?e ?rest) (ci @ path f @ take ?e ?rest) rb)"
              unfolding n Cons g ds
              by (rule fold_found_lift) (use instance_param_deeper [OF _ 3(2) 1 ne v] fe in auto)
            then show ?thesis
              using more 1 3 True unfolding n Cons g step by (simp add: Let_def ds)
          qed
        next
          case 2
          then have "handle g \<noteq> None" using re 3 by (simp add: Cons g)
          from instance_catchAll [OF 3(2) 2 this] show ?thesis
            using 2 3 True split unfolding n Cons g step by (auto simp: Let_def)
        next
          case neither: 3
          then show ?thesis using 3 True unfolding n Cons g step by (simp add: Let_def)
        qed
      qed
    qed
  qed
qed

section \<open>Trees of ASCII routes\<close>

text \<open>Every path in a tree is a part of a route.\<close>

lemma ascii_tree_unfold: "ascii_tree n \<longleftrightarrow> is_ascii (path (info n)) \<and> (\<forall>c\<in>set (children n). ascii_tree c)"
  by (cases n) (simp add: list_all_iff)

lemma is_ascii_part [simp]: "is_ascii p \<Longrightarrow> is_ascii (take k p)" "is_ascii p \<Longrightarrow> is_ascii (drop k p)"
  by (rule is_ascii_parts, assumption)+

lemma ascii_bump [simp]: "ascii_tree (bump_priority n) = ascii_tree n" "ascii_tree (visited w n) = ascii_tree n"
  by (cases n, simp add: bump_priority_def visited_def)+

lemma enter_ascii:
  assumes "enter_node w p h n = Inr (n1, rest)" and "is_ascii p" and "ascii_tree n"
  shows "ascii_tree n1" and "is_ascii rest"
  using assms by (auto simp: enter_node_def Let_def split_edge_def ascii_tree_unfold [of n] list_all_iff split: if_splits)

lemma increment_ascii:
  assumes "incrementChildPrio i n = Inr (n', j)" and "ascii_tree n"
  shows "ascii_tree n'"
proof -
  note same = incrementChildPrio_same [OF assms(1)]
  have "ascii_tree (bump_priority (children n ! i))"
    using assms(2) incrementChildPrio_Inr(1) [OF assms(1)] by (simp add: ascii_tree_unfold [of n])
  then show ?thesis
    using same(1,3) assms(2) unfolding ascii_tree_unfold [of n] ascii_tree_unfold [of n'] same_node_def by auto
qed

lemma insert_loop_ascii:
  "insert_loop w p full h ofs i n = Inr n' \<Longrightarrow> is_ascii p \<Longrightarrow> ascii_tree n \<Longrightarrow> ascii_tree n'"
proof (induction "length p - i" arbitrary: w ofs i n n' rule: less_induct)
  case less
  have pre: "is_ascii s" if "substr p a b = Inr s" for a b s
    using that less.prems(2) by (auto simp: substr_def split: if_splits)
  have IH: "ascii_tree d" if "insert_loop w1 p full h ofs1 (Suc i) m = Inr d" "i < length p" "ascii_tree m" for w1 ofs1 m d
    using less.hyps [OF _ that(1) less.prems(2) that(3)] that(2) by simp
  have new: "ascii_tree (RouterNode (zero_fields\<lparr>nType := t, maxParams := x, priority := 1\<rparr>) [])"
    "ascii_tree (RouterNode (zero_fields\<lparr>maxParams := x, priority := 1\<rparr>) [])" for t x
    by (simp_all add: zero_fields_def)
  have own: "is_ascii (path (info n))" using less.prems(3) by (simp add: ascii_tree_unfold [of n])
  note step = less.prems(1) [unfolded insert_loop.simps [of w p full h ofs i n]]
  show ?case
  proof (cases "w = 0 \<or> length p \<le> i \<or> \<not> is_wild (p ! i)")
    case True
    then show ?thesis using step less.prems(3) IH by (cases "w = 0") (auto split: if_splits)
  next
    case False
    then obtain e where e: "wildcard_end (drop (Suc i) p) (Suc i) = Some e" "children n = []" "\<not> e - i < 2"
      using step by (auto split: option.splits if_splits)
    note step = step [unfolded e option.case if_not_P [OF e(3)]]
    show ?thesis
    proof (cases "p ! i = CHR '':''")
      case colon: True
      then show ?thesis
        using False step own less.prems(2) IH new pre by (fastforce simp: go_res Let_def zero_fields_def split: if_splits)
    next
      case star: False
      then have "insert_catchAll w p full h ofs i e (info n) = Inr n'" using False step by simp
      from insert_catchAll_Inr(5) [OF this] less.prems(2) show ?thesis by (simp add: zero_fields_def)
    qed
  qed
qed

lemma insertChild_ascii:
  "insertChild w p full h n = Inr n' \<Longrightarrow> is_ascii p \<Longrightarrow> ascii_tree n \<Longrightarrow> ascii_tree n'"
  using insert_loop_ascii [of w p full h 0 0 n n']
  by (auto simp: insertChild_def ascii_tree_unfold [of n] list_all_iff split: if_splits)

lemma update_ascii: "ascii_tree n \<Longrightarrow> ascii_tree c \<Longrightarrow> ascii_tree (RouterNode (info n) ((children n)[i := c]))"
  using set_update_subset_insert [of "children n" i c] by (auto simp: ascii_tree_unfold [of n] list_all_iff)

lemma add_new_child_ascii:
  assumes "add_new_child w p h n = Inr n'" and "is_ascii p" and "ascii_tree n"
  shows "ascii_tree n'"
proof -
  let ?c = "RouterNode (zero_fields\<lparr>maxParams := w\<rparr>) [] :: 'a router_node" and ?k = "length (indices (info n))"
  obtain c where c: "index_at p 0 = Inr c" using assms(1) by (auto simp: add_new_child_def rbind_eq_Inr)
  show ?thesis
  proof (cases "c \<noteq> CHR '':'' \<and> c \<noteq> CHR ''*''")
    case False
    then have "insertChild w p (fullPath (info n)) h n = Inr n'"
      using assms(1) c by (auto simp: add_new_child_def)
    then show ?thesis using assms(2,3) by (rule insertChild_ascii)
  next
    case True
    define pos where "pos j = (if ?k = length (children n) then j else length (children n))" for j
    from True c assms(1) obtain n1 j d
      where inc: "incrementChildPrio ?k (RouterNode ((info n)\<lparr>indices := indices (info n) @ [c]\<rparr>) (children n @ [?c])) = Inr (n1, j)"
        and ins: "insertChild w p (fullPath (info (children n1 ! pos j))) h (children n1 ! pos j) = Inr d"
        and n': "n' = RouterNode (info n1) ((children n1)[pos j := d])"
      unfolding pos_def by (auto simp: add_new_child_def go_res Let_def split del: if_split)
    have "ascii_tree ?c" by (simp add: zero_fields_def)
    then have "ascii_tree (RouterNode ((info n)\<lparr>indices := indices (info n) @ [c]\<rparr>) (children n @ [?c]))"
      using assms(3) by (simp add: ascii_tree_unfold [of n] list_all_iff)
    from increment_ascii [OF inc this] have n1: "ascii_tree n1" .
    have "pos j < length (children n1)" using incrementChildPrio_child(2,3) [OF inc] by (simp add: pos_def)
    then have "ascii_tree (children n1 ! pos j)" using n1 by (simp add: ascii_tree_unfold [of n1])
    from insertChild_ascii [OF ins assms(2) this] show ?thesis unfolding n' by (rule update_ascii [OF n1])
  qed
qed

lemma walk_ascii:
  "walk w p (Some h) n = Inr n' \<Longrightarrow> is_ascii p \<Longrightarrow> ascii_tree n \<Longrightarrow> ascii_tree n'"
proof (induction "walk_measure n" arbitrary: w p n n' rule: less_induct)
  case less
  obtain n1 rest where e: "enter_node w p (Some h) n = Inr (n1, rest)" "rest \<noteq> []"
    using less.prems(1) by (rule walk_enter)
  note n1 = enter_ascii [OF e(1) less.prems(2,3)]
  have i0: "index_at rest 0 = Inr (hd rest)" using e(2) by (simp add: index_at_def hd_conv_nth)
  note step = less.prems(1) [unfolded walk.simps [of w p "Some h" n] e(1)]
  show ?case
  proof (cases "wildChild (info n1)")
    case True
    then obtain c cs c2 where c: "children n1 = c # cs"
      and w: "walk (w - 1) rest (Some h) (visited w c) = Inr c2" and n': "n' = RouterNode (info n1) (c2 # cs)"
      by (rule walk_wild [OF less.prems(1) e(1)])
    have "walk_measure (visited w c) < walk_measure n"
      using walk_decreases_wild [OF e(1) True c] by (intro walk_measure_less) (simp add: nodes_unfold [of c] nodes_unfold [of "visited w c"])
    from less.hyps [OF this w n1(2)] n1(1) c show ?thesis
      unfolding n' by (simp add: ascii_tree_unfold [of n1] list_all_iff)
  next
    case False
    show ?thesis
    proof (cases "nType (info n1) = Param \<and> hd rest = CHR ''/'' \<and> length (children n1) = 1")
      case param: True
      then obtain d where d: "children n1 = [d]" by (auto simp: length_Suc_conv)
      with step i0 False param obtain c2 where w: "walk w rest (Some h) (bump_priority d) = Inr c2"
        and n': "n' = RouterNode (info n1) [c2]" by (auto simp: go_res Let_def)
      have "walk_measure (bump_priority d) < walk_measure n"
        using walk_decreases_param [OF e(1)] param d by simp
      from less.hyps [OF this w n1(2)] n1(1) d show ?thesis unfolding n' by (simp add: ascii_tree_unfold [of n1])
    next
      case np: False
      show ?thesis
      proof (cases "indexByte (hd rest) (indices (info n1))")
        case None
        with step i0 False np have "add_new_child w rest (Some h) n1 = Inr n'" by (simp add: Let_def split: if_splits)
        then show ?thesis using n1(2,1) by (rule add_new_child_ascii)
      next
        case (Some i)
        with step i0 False np obtain n2 j c2 where inc: "incrementChildPrio i n1 = Inr (n2, j)"
          and w: "walk w rest (Some h) (children n2 ! j) = Inr c2"
          and n': "n' = RouterNode (info n2) ((children n2)[j := c2])"
          by (auto simp: go_res Let_def split: if_splits)
        have n2: "ascii_tree n2" by (rule increment_ascii [OF inc n1(1)])
        have m: "walk_measure (children n2 ! j) < walk_measure n"
          by (rule walk_measure_less, rule walk_decreases_index [OF e(1) i0 Some inc])
        have "ascii_tree (children n2 ! j)"
          using n2 incrementChildPrio_child(2) [OF inc] by (simp add: ascii_tree_unfold [of n2])
        from less.hyps [OF m w n1(2) this] show ?thesis unfolding n' by (rule update_ascii [OF n2])
      qed
    qed
  qed
qed

lemma addRoute_folds:
  assumes "addRoute p (Some h) t = Inr t'" and "grown t" and "wilds p \<le> 255"
    and "is_ascii p" and "prefix ''/'' p" and "ascii_tree t"
  shows "ascii_tree t' \<and> slashed t'"
proof -
  let ?t = "RouterNode ((info t)\<lparr>fullPath := p, priority := priority (info t) + 1\<rparr>) (children t)"
  have t: "regular ?t" "ascii_tree ?t"
    using assms(2,6) by (cases t, simp add: grown_def)+
  have p: "p \<noteq> []" "hd p = CHR ''/''" using assms(5) by (auto simp: prefix_def)
  have w: "wildcardNum p = of_nat (wilds p)" "wilds p < 256"
    using wildcardNum_exact [OF assms(3)] assms(3) by simp_all
  show ?thesis
  proof (cases "path (info t) = [] \<and> children t = []")
    case True
    with assms(1) obtain n where n: "insertChild (wildcardNum p) p p (Some h) ?t = Inr n"
      and t': "t' = RouterNode ((info n)\<lparr>nType := Root\<rparr>) (children n)"
      by (auto simp: addRoute_def Let_def go_res)
    have fr: "fresh ?t" using True assms(2) by (simp add: grown_def fresh_def)
    from insertChild_ascii [OF n assms(4) t(2)] insertChild_slashed [OF n fr p] show ?thesis
      unfolding t' by (simp add: ascii_tree_unfold [of n] list_all_iff slashed_def)
  next
    case False
    with assms(1) have a: "walk (wildcardNum p) p (Some h) ?t = Inr t'"
      by (auto simp: addRoute_def Let_def)
    from walk_ascii [OF a assms(4) t(2)] walk_slashed [OF a p(2) t(1) w] show ?thesis ..
  qed
qed

text \<open>Routes as the lookup without regard to case expects them: in ASCII, and beginning with a slash.\<close>

definition ascii_routes :: "(string \<times> 'h list) list \<Rightarrow> bool" where
  "ascii_routes rs \<longleftrightarrow> list_all (\<lambda>(r, h). is_ascii r \<and> prefix ''/'' r \<and> wilds r \<le> 255) rs"

lemma ascii_routes_registrable: "ascii_routes rs \<Longrightarrow> registrable rs"
  by (auto simp: ascii_routes_def registrable_def list_all_iff)

lemma insert_all_folds:
  assumes "insert_all (\<lambda>p h. addRoute p (Some h)) rs t = Inr t'" and "grown t" and "ascii_routes rs"
    and "ascii_tree t" and "slashed t"
  shows "ascii_tree t' \<and> slashed t'"
  using assms
proof (induction rs arbitrary: t)
  case (Cons x rs)
  obtain r h where x: "x = (r, h)" by fastforce
  with Cons.prems(1) obtain t1 where t1: "addRoute r (Some h) t = Inr t1"
    "insert_all (\<lambda>p h. addRoute p (Some h)) rs t1 = Inr t'" by (auto simp: rbind_eq_Inr)
  have r: "r \<noteq> []" "is_ascii r" "prefix ''/'' r" "wilds r \<le> 255" "ascii_routes rs"
    using Cons.prems(3) x by (auto simp: ascii_routes_def)
  have "grown t1" by (rule addRoute_sound [OF t1(1) Cons.prems(2) r(1,4)])
  with Cons.IH [OF t1(2) _ r(5)] addRoute_folds [OF t1(1) Cons.prems(2) r(4,2,3) Cons.prems(4)] show ?case by blast
qed simp

section \<open>The property\<close>

text \<open>C22: in a tree that ASCII routes beginning with a slash have built, parameters and catch-alls included, a
  path that the lookup without regard to case reports as found is a registered route with its wildcards
  filled in, and differs from the request's path in case only.  The tree must be one in which no registration
  has moved a child and none has continued a parameter that lost its name (\<open>labelled\<close>, which can be read off
  the tree): a moved child is taken for another one.\<close>

theorem findCaseInsensitivePath_sound:
  fixes rs :: "(string \<times> 'h list) list"
  assumes "ascii_tables u" and "insert_all (\<lambda>p h. addRoute p (Some h)) rs zero_node = Inr t"
    and "ascii_routes rs" and "labelled t" and "is_ascii p" and "prefix ''/'' p"
    and "findCaseInsensitivePath u t p False = Inr (got, True)"
  shows "\<exists>r h ps. (r, h) \<in> set rs \<and> fill (parse r) ps = Some got \<and> fold_text got = fold_text p"
proof -
  have z: "ascii_tree (zero_node :: 'h router_node)" "slashed (zero_node :: 'h router_node)"
    "routes (zero_node :: 'h router_node) = []"
    by (simp_all add: zero_node_def zero_fields_def slashed_def own_route_def)
  note built = insert_all_sound [OF assms(2) grown_zero ascii_routes_registrable [OF assms(3)]]
    and fold = insert_all_folds [OF assms(2) grown_zero assms(3) z(1,2)]
  have "enters t p no_runes"
    using fold assms(6) by (auto simp: enters_def first_byte_def prefix_def slashed_def)
  with built fold have "fold_found t p [] (fpRec u False t p [] no_runes)"
    by (intro fpRec_found [OF assms(1) _ assms(4) _ assms(5)]) (simp_all add: grown_def)
  then obtain q h ps where "(q, h) \<in> set (routes t)" "fill q ps = Some got" "fold_text got = fold_text p"
    using assms(7) by (auto simp: findCaseInsensitivePath_def instance_of_def)
  then show ?thesis using built z(3) by fastforce
qed

text \<open>The tree that a route with both kinds of wildcard and a static one build, and a lookup in it: the
  parameter and the catch-all keep the value of the request, the edges take the registered case.\<close>

definition user_routes :: "(string \<times> nat list) list" where
  "user_routes = [(''/user/:id/Files/*path'', [1]), (''/about'', [2])]"

definition files_node :: "nat router_node" where
  "files_node = RouterNode (zero_fields\<lparr>path := ''/Files'', maxParams := 1, priority := 1, indices := ''/''\<rparr>)
     [RouterNode (zero_fields\<lparr>wildChild := True, nType := CatchAll, maxParams := 1, priority := 1\<rparr>)
        [RouterNode (zero_fields\<lparr>path := ''/*path'', nType := CatchAll, maxParams := 1, priority := 1,
           handle := Some [1]\<rparr>) []]]"

definition user_node :: "nat router_node" where
  "user_node = RouterNode (zero_fields\<lparr>path := ''user/'', wildChild := True, maxParams := 2, priority := 1\<rparr>)
     [RouterNode (zero_fields\<lparr>path := '':id'', nType := Param, maxParams := 2, priority := 1\<rparr>) [files_node]]"

definition user_tree :: "nat router_node" where
  "user_tree = RouterNode (zero_fields\<lparr>fullPath := ''/about'', path := ''/'', nType := Root, priority := 2,
       indices := ''ua''\<rparr>)
     [user_node, RouterNode (zero_fields\<lparr>path := ''about'', priority := 1, handle := Some [2]\<rparr>) []]"

lemma user_tree_built: "insert_all (\<lambda>p h. addRoute p (Some h)) user_routes zero_node = Inr user_tree"
  by code_simp

lemma files_lookup:
  "fpRec ascii_unicode False files_node ''/files/a/B'' ci (x # drop 1 no_runes) = Inr (ci @ ''/Files/a/B'', True)"
proof -
  define f :: "nat node_fields"
    where "f = zero_fields\<lparr>path := ''/Files'', maxParams := 1, priority := 1, indices := ''/''\<rparr>"
  define c where "c = hd (children files_node)"
  have n: "files_node = RouterNode f [c]" by (simp add: files_node_def f_def c_def)
  have f: "path f = ''/Files''" "\<not> wildChild f" "indices f = ''/''" by (simp_all add: f_def zero_fields_def)
  have c: "fpRec ascii_unicode False c s ci rb = Inr (ci @ s, True)" if "s \<noteq> []" for s ci rb
    using that by (simp add: c_def files_node_def fpRec.simps same_edge_def zero_fields_def)
  have low: "to_lower (CHR ''/'') = CHR ''/''" "to_lower (CHR ''f'') = CHR ''f''" "to_lower (CHR ''F'') = CHR ''f''"
    by code_simp+
  show ?thesis
    unfolding n using fpRec_ascii [OF ascii_unicode_tables f(2), of "''/files/a/B''" "x # drop 1 no_runes" "[c]" ci]
    by (simp add: f low c fold_child_def one_byte_put [simplified] Let_def)
qed

lemma user_lookup:
  "fpRec ascii_unicode False user_node ''USER/Bo/files/a/B'' ci (x # drop 1 no_runes) =
     Inr (ci @ ''user/Bo/Files/a/B'', True)"
proof -
  have "equalFold ascii_unicode ''SER/'' ''ser/''" by code_simp
  then show ?thesis
    using files_lookup [of "ci @ ''user/Bo''" x]
    by (simp add: user_node_def zero_fields_def fpRec.simps [of _ _ _ "[RouterNode _ [files_node]]"] same_edge_def param_end_def)
qed

lemma user_tree_lookup:
  "findCaseInsensitivePath ascii_unicode user_tree ''/USER/Bo/files/a/B'' False = Inr (''/user/Bo/Files/a/B'', True)"
proof -
  define f where "f = info user_tree"
  define cs where "cs = tl (children user_tree)"
  have n: "user_tree = RouterNode f (user_node # cs)" by (simp add: user_tree_def f_def cs_def)
  have f: "path f = ''/''" "\<not> wildChild f" "indices f = ''ua''" by (simp_all add: f_def user_tree_def zero_fields_def)
  have low: "to_lower (CHR ''/'') = CHR ''/''" "to_lower (CHR ''U'') = CHR ''u''" by code_simp+
  show ?thesis
    unfolding n findCaseInsensitivePath_def
    using fpRec_ascii [OF ascii_unicode_tables f(2), of "''/USER/Bo/files/a/B''" no_runes "user_node # cs" "[]"]
      user_lookup [of "''/''"]
    by (simp add: f low fold_child_def Let_def)
qed

theorem findCaseInsensitivePath_sound_witness:
  "\<exists>r h ps. (r, h) \<in> set user_routes \<and> fill (parse r) ps = Some ''/user/Bo/Files/a/B'' \<and>
    fold_text ''/user/Bo/Files/a/B'' = fold_text ''/USER/Bo/files/a/B''"
proof -
  have "ascii_routes user_routes" "labelled user_tree" by code_simp+
  from findCaseInsensitivePath_sound [OF ascii_unicode_tables user_tree_built this _ _ user_tree_lookup]
  show ?thesis by simp
qed

text \<open>What the lookup misses: the node without a path that \<open>insertChild\<close> leaves behind a parameter does not
  consume the byte by which the walk came to the parameter's subtree, and a path below it, registered or
  not, is found only where that byte happens to be a slash.\<close>

lemma no_path_dead_end:
  assumes "ascii_tables u" and "\<not> wildChild f" and "path f = []" and "p \<noteq> []" and "one_byte rb"
    and "set (indices f) \<subseteq> {CHR ''/''}" and "rb ! 0 \<noteq> CHR ''/''"
  shows "fpRec u False (RouterNode f cs) p ci rb = Inr (ci, False)"
proof -
  have "indexByte (rb ! 0) (indices f) = None" using assms(6,7) by (auto simp: indexByte_eq_None)
  then show ?thesis by (simp add: fpRec_no_path [OF assms(1-6)] fold_child_def)
qed

end
