(* ===== verification/Spec2Isabelle.thy ===== *)
theory Spec2Isabelle
  imports Startup RequestFacts FileStore Renderers Gzip StaticServing Terminal Uploads TreeFoldWild
begin

text \<open>
  Verification of \<open>gin-core\<close>, an HTTP framework in Go: the model of its code under \<open>core/\<close> and
  \<open>common/\<close>, and what was proved about it.

  \<^bold>\<open>The program.\<close>  Users register handlers on blueprints (\<open>core/blue\_print.go\<close>), which have a prefix,
  middleware, services, and a parent when they are included in another one.  \<open>Engine.init\<close>
  (\<open>core/engine.go\<close>) turns the routes of the engine's blueprint into one routing tree per request method
  (\<open>core/router.go\<close>, \<open>core/tree.go\<close>).  For a request \<open>ServeHTTP\<close> takes a context from a pool, looks the
  path up, and runs the group of handlers it finds (\<open>core/context.go\<close>: \<open>Next\<close>, \<open>Abort\<close>).  Handlers read
  the request through the context (queries, forms, path parameters: \<open>core/valuse.go\<close>, \<open>core/params.go\<close>),
  bind it to structs (\<open>core/bind\<close>, \<open>core/parser.go\<close>), validate these by the rules in their tags
  (\<open>core/validators\<close>), store uploads (\<open>core/file.go\<close>) and render the response (\<open>core/render.go\<close>).
  \<open>core/zip\<close> is a middleware that compresses responses; \<open>core/logger.go\<close> and \<open>core/starter.go\<close> write to the
  terminal.

  \<^bold>\<open>Conventions.\<close>  A panic is a value of type \<open>panic\<close> and a call that may panic has the type
  \<open>'a res = panic + 'a\<close> (theory Prelude); an index or slice out of range is such a value and never
  HOL's unspecified element.  A Go error is an option or a value of an error datatype; code that
  writes to its argument before it fails returns the argument together with the error.  A loop that
  may not end is a \<open>partial_function (option)\<close>; the handlers' mutual recursion with \<open>Next\<close> has fuel.
  Machine integers are words where they can run over (\<open>uint8\<close> index, priorities, parameter counts,
  the numbers read from texts); strings are their bytes.  The order of a range over a map, the growth
  of slices and the results of the standard library's large parts are arguments.

  \<^bold>\<open>Theories and code.\<close>

  \<^item> Prelude: results, slicing, common prefixes, \<open>strings.Index\<close>.
  \<^item> RouteTree, TreeInsert, TreeLookup (\<open>core/tree.go\<close>): nodes, \<open>incrementChildPrio\<close>, \<open>addRoute\<close> with
    \<open>insertChild\<close>, and \<open>getValue\<close> with its \<open>tsr\<close> result, each loop as a function with its termination.
    TreeStatic and RouteTable treat trees of static routes as maps; TreeWildcard treats parameters
    and catch-alls on a fresh tree; TreeRegular and TreeSound carry an invariant through any sequence of
    registrations, so that a tree holds no route that was not registered.  TreeFold is
    \<open>findCaseInsensitivePath\<close>, over the encoding of code points in Utf8; TreeFoldFacts says what it
    finds among static routes, TreeFoldWild that it finds nothing else in trees with wildcards.
  \<^item> Router (\<open>core/router.go\<close>, \<open>core/params.go\<close>).
  \<^item> Http (\<open>core/http.go\<close> and the rules of \<open>net/http\<close>'s response writer, with the compressing writers that
    may lie over it), Context (\<open>core/context.go\<close>, \<open>core/handler.go\<close>, \<open>core/render.go\<close>): the state of a
    context, handlers as trees of calls, \<open>Next\<close>.  ContextQueue compares \<open>Next\<close> with taking handlers off a
    queue; ContextResponse is about what is sent.  Renderers has the redirects and the files, as
    sequences of operations on the writer; Gzip is \<open>core/zip/gzip.go\<close>.
  \<^item> GoSlices (slices that share arrays), Blueprint and BlueprintFacts (\<open>core/blue\_print.go\<close>).
  \<^item> Engine and EngineFacts (\<open>core/engine.go\<close>: \<open>init\<close>, \<open>ServeHTTP\<close>, \<open>AddInterceptors\<close>); Startup (the
    constructors, the default services, \<open>RAW\<close>, \<open>Bind\<close>, \<open>BindMethod\<close>, the way to listening).  StaticServing
    follows a directory from \<open>Static\<close> through \<open>init\<close> to a request, with the path functions of Paths;
    Terminal is the logger and the starters.
  \<^item> Strconv (the integer and boolean parsers of \<open>strconv\<close>, decimal notation, splitting) and Values
    (\<open>core/valuse.go\<close>).
  \<^item> Regex (matching by derivatives, proved equal to membership in the language) and Patterns (the
    expressions of \<open>core/validators/common.go\<close>).
  \<^item> Validators, ValidatorRules, ValidatorFacts (\<open>core/validators\<close>): the rules, the library, the notation
    of rules in a tag, and \<open>Validate\<close>.
  \<^item> FormBind, FormFacts (\<open>core/bind/bind\_value.go\<close>, \<open>core/bind/from.go\<close>): setting fields from texts,
    \<open>BindForm\<close> and \<open>BindMultipartForm\<close>.
  \<^item> Request, RequestFacts (the accessors and binders of \<open>core/context.go\<close>, \<open>core/bind/binder.go\<close>,
    \<open>core/parser.go\<close>): the caches, the choice of a parser, \<open>Data\<close>.
  \<^item> FileStore (\<open>core/file.go\<close>, \<open>common/utils.go\<close>, \<open>core/color/color.go\<close>) and Uploads (\<open>SaveUploadFile\<close>).

  \<^bold>\<open>Interfaces.\<close>  Locales state what a part asks of another and are interpreted on the model: the map
  interface of a routing tree, the six inherited services, the comparing predicates of the
  validators, with an extension for those that know every unsigned kind (interpreted five times), the invariants
  of the calls on a context, the rounds of the loop over the fields of a struct
  (interpreted for forms and multipart forms).

  \<^bold>\<open>Fuel.\<close>  \<open>next_loop\<close> takes one unit per turn; \<open>Next_refines_queue\<close> and \<open>every_request_ends\<close> show that one
  more than the length of the group is enough when the handlers call \<open>Next\<close> so rarely that the \<open>uint8\<close>
  index cannot run over (\<open>bounded_group\<close>; \<open>disciplined\<close> where also no blueprint is looked up after \<open>Next\<close>).
  The other recursions terminate by their measures;
  \<open>service\<close> and \<open>name_loop\<close> may not, and what is claimed of them says so.

  \<^bold>\<open>What the lemmas show.\<close> The order of the properties is that of their importance. For the
  tree: when registering static routes gives a correct map and when it panics; what survives of routes with
  wildcards; that no registration takes a route away; that after any registrations a request is matched to
  nothing but the group of a route that was registered for its method and fits its path, with the parameters
  that are reported, and that the lookup without regard to case finds a route exactly when one differs in case
  only.  As the code moves a child without its index, what is said of lookups that find a route holds only
  while no registration has moved a child (\<open>admissible\<close>, \<open>static_table\<close>, \<open>labelled\<close>), and each property says so.
  For contexts: \<open>Next\<close> refines a queue, abort and middleware order, which status is sent in the end and which is
  lost, what JSON and a redirect send, that a compressed body is unpacked to what was written and what happens
  without a body, that every request ends, and what a reused context keeps. For blueprints: what registration
  and inclusion add, the inherited services, the sharing of slices, and which files a directory serves. For
  requests: numbers, structs and path parameters are read back as they were written, binding keeps the types of
  the fields, the rules of a tag are evaluated up to the first failure and the comparing ones mean what they
  say, and what \<open>Data\<close> lets through satisfies them.

  \<^bold>\<open>Not modelled.\<close>  The serializers of \<open>core/color/serialize.go\<close> are each one call of \<open>encoding/json\<close> or
  \<open>encoding/xml\<close> and appear as the encoders and decoders of a blueprint.  What \<open>http.ServeFile\<close>,
  \<open>http.ServeContent\<close> and \<open>http.FileServer\<close> write is a parameter, and so are the compressor, whose output the
  model holds back until it is closed, the tables of letter case outside ASCII, \<open>os.Stat\<close> and the
  expressions that users write in tags, and the text of a cookie.  The body of a response to \<open>HEAD\<close> is
  not dropped.  \<open>reflect\<close> appears as the list of
  a struct's exported fields with their tags; embedded fields, unexported fields and named types are
  not told apart, so the panic of \<open>Interface()\<close> on an unexported field (rule \<open>equal_field\<close>) does not appear.  Letters outside ASCII are not folded by \<open>ToLower\<close>, \<open>ToUpper\<close> and the \<open>EqualFold\<close> of
  headers.  Requests that run at the same time share the trees and blueprints, which \<open>ServeHTTP\<close> only
  reads, so a request is modelled by itself.
\<close>

end
